(* ===== verification/Rk_Prelude.thy ===== *)
theory Rk_Prelude
  imports Main "HOL-Library.Word"
begin

text \<open>
  The prelude: the integer types of the program at their width, byte images of integers
  in the byte order of the target, decimal printing and parsing, UTF-8 validity and C strings,
  as the Rust and C sources use them, with the lemmas the components share.
  Text (Rust \<open>String\<close>/\<open>str\<close>, C \<open>char *\<close>) is a HOL \<open>string\<close>
  whose characters are its bytes; raw buffers are lists of \<open>8 word\<close>.
\<close>

section \<open>Types and collections of facts\<close>

type_synonym u8 = "8 word"
type_synonym u32 = "32 word"
type_synonym i32 = "32 word"
type_synonym u128 = "128 word"
type_synonym bytes = "u8 list"

named_theorems wire_simps \<open>facts about byte images and C strings\<close>
named_theorems io_simps \<open>unfolding the effect primitives\<close>

section \<open>Generic lemmas on lists\<close>

lemma take_append_exact [simp]: "n = length xs \<Longrightarrow> take n (xs @ ys) = xs"
  by simp

lemma drop_append_exact [simp]: "n = length xs \<Longrightarrow> drop n (xs @ ys) = ys"
  by simp

lemma takeWhile_append_stop: "(\<forall>x \<in> set xs. P x) \<Longrightarrow> \<not> P y \<Longrightarrow> takeWhile P (xs @ y # ys) = xs"
  by (induction xs) auto

lemma unat_u8_less: "unat (b::u8) < 256"
proof -
  have "unat b < 2 ^ LENGTH(8)" by (rule unsigned_less)
  then show ?thesis by simp
qed

lemma unat_u32_less: "unat (b::u32) < 4294967296"
proof -
  have "unat b < 2 ^ LENGTH(32)" by (rule unsigned_less)
  then show ?thesis by simp
qed

lemma unat_u128_less: "unat (b::u128) < 340282366920938463463374607431768211456"
proof -
  have "unat b < 2 ^ LENGTH(128)" by (rule unsigned_less)
  then show ?thesis by simp
qed

lemma unat_mod_bound [simp]:
  "unat (b::u8) mod 256 = unat b"
  "unat (x::u32) mod 4294967296 = unat x"
  "unat (y::u128) mod 340282366920938463463374607431768211456 = unat y"
  by (simp_all add: unat_u8_less unat_u32_less unat_u128_less)

section \<open>Byte images of integers\<close>

text \<open>
  \<open>to_ne_bytes\<close> and \<open>from_ne_bytes\<close> of the Rust integers: \<open>n\<close> bytes, least significant
  first, reversed on a big-endian target. The same layout is what the C client gets by
  pointing an \<open>iovec\<close> at its integers.
\<close>

fun le_bytes :: "nat \<Rightarrow> nat \<Rightarrow> bytes" where
  "le_bytes 0 v = []"
| "le_bytes (Suc n) v = word_of_nat (v mod 256) # le_bytes n (v div 256)"

fun le_val :: "bytes \<Rightarrow> nat" where
  "le_val [] = 0"
| "le_val (b # bs) = unat b + 256 * le_val bs"

definition ne_bytes :: "bool \<Rightarrow> nat \<Rightarrow> nat \<Rightarrow> bytes" where
  "ne_bytes be n v = (if be then rev (le_bytes n v) else le_bytes n v)"

definition ne_val :: "bool \<Rightarrow> bytes \<Rightarrow> nat" where
  "ne_val be bs = le_val (if be then rev bs else bs)"

definition i32_to_ne_bytes :: "bool \<Rightarrow> i32 \<Rightarrow> bytes" where
  "i32_to_ne_bytes be x = ne_bytes be 4 (unat x)"

definition i32_from_ne_bytes :: "bool \<Rightarrow> bytes \<Rightarrow> i32" where
  "i32_from_ne_bytes be bs = word_of_nat (ne_val be bs)"

definition u128_to_ne_bytes :: "bool \<Rightarrow> u128 \<Rightarrow> bytes" where
  "u128_to_ne_bytes be x = ne_bytes be 16 (unat x)"

definition u128_from_ne_bytes :: "bool \<Rightarrow> bytes \<Rightarrow> u128" where
  "u128_from_ne_bytes be bs = word_of_nat (ne_val be bs)"

lemma length_le_bytes [simp]: "length (le_bytes n v) = n"
  by (induction n arbitrary: v) auto

lemma length_ne_bytes [simp]: "length (ne_bytes be n v) = n"
  by (simp add: ne_bytes_def)

lemma le_val_le_bytes: "le_val (le_bytes n v) = v mod 256 ^ n"
proof (induction n arbitrary: v)
  case 0
  then show ?case by simp
next
  case (Suc n)
  have "le_val (le_bytes (Suc n) v) = v mod 256 + 256 * (v div 256 mod 256 ^ n)"
    using Suc.IH by (simp add: unat_word_ariths(1) unsigned_of_nat take_bit_eq_mod)
  also have "\<dots> = v mod (256 * 256 ^ n)"
    by (simp add: mod_mult2_eq)
  finally show ?case by simp
qed

lemma le_bytes_le_val: "le_bytes (length bs) (le_val bs) = bs"
proof (induction bs)
  case Nil
  then show ?case by simp
next
  case (Cons b bs)
  have b: "unat b < 256"
    by (rule unat_u8_less)
  then have "(unat b + 256 * le_val bs) div 256 = le_val bs"
    by simp
  moreover have "word_of_nat ((unat b + 256 * le_val bs) mod 256) = b"
    using b by simp
  ultimately show ?case using Cons.IH by simp
qed

lemma ne_val_ne_bytes: "ne_val be (ne_bytes be n v) = v mod 256 ^ n"
  by (simp add: ne_val_def ne_bytes_def le_val_le_bytes)

lemma ne_bytes_ne_val: "length bs = n \<Longrightarrow> ne_bytes be n (ne_val be bs) = bs"
  using le_bytes_le_val [of bs] le_bytes_le_val [of "rev bs"]
  by (auto simp: ne_val_def ne_bytes_def)

lemma le_val_bound: "le_val bs < 256 ^ length bs"
proof (induction bs)
  case Nil
  then show ?case by simp
next
  case (Cons b bs)
  have "unat b < 256"
    by (rule unat_u8_less)
  with Cons.IH show ?case by simp
qed

lemma ne_val_bound: "ne_val be bs < 256 ^ length bs"
  using le_val_bound [of bs] le_val_bound [of "rev bs"] by (simp add: ne_val_def)

lemma length_i32_to_ne_bytes [simp]: "length (i32_to_ne_bytes be x) = 4"
  by (simp add: i32_to_ne_bytes_def)

lemma length_u128_to_ne_bytes [simp]: "length (u128_to_ne_bytes be x) = 16"
  by (simp add: u128_to_ne_bytes_def)

lemma i32_roundtrip [simp, wire_simps]: "i32_from_ne_bytes be (i32_to_ne_bytes be x) = x"
  by (simp add: i32_from_ne_bytes_def i32_to_ne_bytes_def ne_val_ne_bytes)

lemma u128_roundtrip [simp, wire_simps]: "u128_from_ne_bytes be (u128_to_ne_bytes be x) = x"
  by (simp add: u128_from_ne_bytes_def u128_to_ne_bytes_def ne_val_ne_bytes)

lemma u128_bytes_roundtrip [wire_simps]:
  assumes "length bs = 16"
  shows "u128_to_ne_bytes be (u128_from_ne_bytes be bs) = bs"
proof -
  have "unat (word_of_nat (ne_val be bs) :: u128) = ne_val be bs"
    using ne_val_bound [of be bs] assms
    by (simp add: unsigned_of_nat take_bit_eq_mod)
  with assms show ?thesis
    by (simp add: u128_from_ne_bytes_def u128_to_ne_bytes_def ne_bytes_ne_val)
qed

lemma i32_to_ne_bytes_inj: "i32_to_ne_bytes be x = i32_to_ne_bytes be y \<longleftrightarrow> x = y"
  by (metis i32_roundtrip)

section \<open>Text: bytes and characters, UTF-8, C strings\<close>

definition chars_of :: "bytes \<Rightarrow> string" where
  "chars_of bs = map (\<lambda>b. char_of (unat b)) bs"

definition bytes_of :: "string \<Rightarrow> bytes" where
  "bytes_of s = map (\<lambda>c. word_of_nat (of_char c)) s"

text \<open>The validity test of \<open>str::from_utf8\<close>, by the leading byte of each sequence.\<close>

definition utf8_cont :: "u8 \<Rightarrow> bool" where
  "utf8_cont b \<longleftrightarrow> 0x80 \<le> b \<and> b \<le> 0xBF"

fun utf8_valid :: "bytes \<Rightarrow> bool" where
  "utf8_valid [] = True"
| "utf8_valid (b # bs) =
     (if b < 0x80 then utf8_valid bs
      else if 0xC2 \<le> b \<and> b \<le> 0xDF then
        (case bs of c # r \<Rightarrow> utf8_cont c \<and> utf8_valid r | _ \<Rightarrow> False)
      else if 0xE0 \<le> b \<and> b \<le> 0xEF then
        (case bs of c # d # r \<Rightarrow>
           utf8_cont c \<and> (b = 0xE0 \<longrightarrow> 0xA0 \<le> c) \<and> (b = 0xED \<longrightarrow> c \<le> 0x9F)
           \<and> utf8_cont d \<and> utf8_valid r
         | _ \<Rightarrow> False)
      else if 0xF0 \<le> b \<and> b \<le> 0xF4 then
        (case bs of c # d # e # r \<Rightarrow>
           utf8_cont c \<and> (b = 0xF0 \<longrightarrow> 0x90 \<le> c) \<and> (b = 0xF4 \<longrightarrow> c \<le> 0x8F)
           \<and> utf8_cont d \<and> utf8_cont e \<and> utf8_valid r
         | _ \<Rightarrow> False)
      else False)"

text \<open>
  \<open>CStr::from_bytes_with_nul\<close>: the bytes up to the terminator, which must be the only
  NUL and the last byte. \<open>CString::new\<close>: the text, refused when it holds a NUL.
\<close>

definition cstr_from_bytes_with_nul :: "bytes \<Rightarrow> bytes option" where
  "cstr_from_bytes_with_nul bs =
     (let k = length (takeWhile (\<lambda>b. b \<noteq> 0) bs)
      in if k + 1 = length bs then Some (take k bs) else None)"

definition cstring_new :: "string \<Rightarrow> bytes option" where
  "cstring_new s = (if CHR 0x00 \<in> set s then None else Some (bytes_of s))"

text \<open>The text a C consumer reads at a buffer: its bytes before the first NUL.\<close>

definition c_text :: "bytes \<Rightarrow> bytes" where
  "c_text bs = takeWhile (\<lambda>b. b \<noteq> 0) bs"

lemma c_text_stop: "0 \<notin> set xs \<Longrightarrow> c_text (xs @ 0 # ys) = xs"
  by (induction xs) (auto simp: c_text_def)

lemma length_bytes_of [simp]: "length (bytes_of s) = length s"
  by (simp add: bytes_of_def)

lemma chars_of_bytes_of [simp, wire_simps]: "chars_of (bytes_of s) = s"
  by (simp add: chars_of_def bytes_of_def comp_def unsigned_of_nat take_bit_eq_mod map_idI)

lemma bytes_of_chars_of [simp, wire_simps]: "bytes_of (chars_of bs) = bs"
  by (simp add: chars_of_def bytes_of_def comp_def map_idI)

lemma bytes_of_inj [simp]: "bytes_of s = bytes_of t \<longleftrightarrow> s = t"
  by (metis chars_of_bytes_of)

lemma bytes_of_append [simp]: "bytes_of (s @ t) = bytes_of s @ bytes_of t"
  by (simp add: bytes_of_def)

lemma zero_in_bytes_of [simp]: "0 \<in> set (bytes_of s) \<longleftrightarrow> CHR 0x00 \<in> set s"
proof -
  have "(word_of_nat (of_char c) :: u8) = 0 \<longleftrightarrow> c = CHR 0x00" for c
  proof
    assume "(word_of_nat (of_char c) :: u8) = 0"
    then have "bytes_of [c] = bytes_of [CHR 0x00]"
      by (simp add: bytes_of_def)
    then show "c = CHR 0x00" by (simp only: bytes_of_inj list.inject)
  qed simp
  then show ?thesis by (force simp: bytes_of_def)
qed

lemma cstring_new_text [simp]: "CHR 0x00 \<notin> set s \<Longrightarrow> cstring_new s = Some (bytes_of s)"
  by (simp add: cstring_new_def)

lemma cstr_from_bytes_with_nul_text [wire_simps]:
  "0 \<notin> set bs \<Longrightarrow> cstr_from_bytes_with_nul (bs @ [0]) = Some bs"
  by (subgoal_tac "takeWhile (\<lambda>b. b \<noteq> 0) (bs @ [0]) = bs")
    (auto simp: cstr_from_bytes_with_nul_def intro!: takeWhile_append_stop)

lemma cstr_from_bytes_with_nul_Some:
  assumes "cstr_from_bytes_with_nul bs = Some xs"
  shows "bs = xs @ [0] \<and> 0 \<notin> set xs"
proof -
  define t where "t = takeWhile (\<lambda>b. b \<noteq> 0) bs"
  define d where "d = dropWhile (\<lambda>b. b \<noteq> 0) bs"
  have bs: "bs = t @ d" by (simp add: t_def d_def)
  have len: "length t + 1 = length bs" and xs: "xs = take (length t) bs"
    using assms by (auto simp: cstr_from_bytes_with_nul_def Let_def t_def split: if_splits)
  from len bs obtain y where y: "d = [y]"
    by (cases d) auto
  then have "y = 0"
    using hd_dropWhile [of "\<lambda>b. b \<noteq> 0" bs] by (simp add: d_def)
  moreover have "0 \<notin> set t"
    by (auto simp: t_def dest: set_takeWhileD)
  moreover have "xs = t"
    using xs bs by simp
  ultimately show ?thesis
    using bs y by simp
qed

section \<open>Decimal text\<close>

text \<open>\<open>format!("{}", n)\<close> on unsigned and on 32-bit signed integers.\<close>

definition digit_char :: "nat \<Rightarrow> char" where
  "digit_char d = char_of (48 + d)"

fun show_nat :: "nat \<Rightarrow> string" where
  "show_nat n = (if n < 10 then [digit_char n] else show_nat (n div 10) @ [digit_char (n mod 10)])"

declare show_nat.simps [simp del]

definition show_u32 :: "u32 \<Rightarrow> string" where
  "show_u32 x = show_nat (unat x)"

definition show_i32 :: "i32 \<Rightarrow> string" where
  "show_i32 x = (if sint x < 0 then CHR ''-'' # show_nat (nat (- sint x)) else show_nat (nat (sint x)))"

text \<open>
  \<open>str::parse::<u32>\<close>: an optional \<open>+\<close>, then at least one decimal digit and nothing
  else; a value of \<open>2 ^ 32\<close> or more is an error, detected at the digit that overflows.
\<close>

definition digit_val :: "char \<Rightarrow> nat option" where
  "digit_val c = (let n = of_char c :: nat in if 48 \<le> n \<and> n \<le> 57 then Some (n - 48) else None)"

fun parse_digits :: "nat \<Rightarrow> string \<Rightarrow> nat option" where
  "parse_digits acc [] = Some acc"
| "parse_digits acc (c # cs) =
     (case digit_val c of None \<Rightarrow> None
      | Some d \<Rightarrow> if acc * 10 + d < 2 ^ 32 then parse_digits (acc * 10 + d) cs else None)"

definition parse_u32 :: "string \<Rightarrow> u32 option" where
  "parse_u32 s =
     (let ds = (case s of [] \<Rightarrow> [] | c # cs \<Rightarrow> if c = CHR ''+'' then cs else s)
      in if ds = [] then None else map_option word_of_nat (parse_digits 0 ds))"

lemma digit_val_char [simp]: "d < 10 \<Longrightarrow> digit_val (digit_char d) = Some d"
  by (simp add: digit_val_def digit_char_def)

lemma parse_digits_append:
  "parse_digits acc (xs @ ys)
     = (case parse_digits acc xs of None \<Rightarrow> None | Some v \<Rightarrow> parse_digits v ys)"
  by (induction xs arbitrary: acc) (auto split: option.splits)

lemma show_nat_nonempty [simp]: "show_nat n \<noteq> []"
  by (subst show_nat.simps) simp

lemma parse_digits_show_nat: "n < 2 ^ 32 \<Longrightarrow> parse_digits 0 (show_nat n) = Some n"
proof (induction n rule: show_nat.induct)
  case (1 n)
  show ?case
  proof (cases "n < 10")
    case True
    then show ?thesis by (subst show_nat.simps) simp
  next
    case False
    with "1" have "parse_digits 0 (show_nat (n div 10)) = Some (n div 10)" by simp
    moreover have "n div 10 * 10 + n mod 10 = n" by simp
    ultimately show ?thesis
      using False "1.prems" by (subst show_nat.simps) (simp add: parse_digits_append)
  qed
qed

lemma digit_char_plain:
  "d < 10 \<Longrightarrow> digit_char d \<noteq> CHR ''+'' \<and> digit_char d \<noteq> CHR ''-'' \<and> digit_char d \<noteq> CHR 0x00"
  by (auto simp: digit_char_def dest: arg_cong [where f = "of_char :: char \<Rightarrow> nat"])

lemma show_nat_plain:
  "c \<in> set (show_nat n) \<Longrightarrow> c \<noteq> CHR ''+'' \<and> c \<noteq> CHR ''-'' \<and> c \<noteq> CHR 0x00"
proof (induction n rule: show_nat.induct)
  case (1 n)
  show ?case
  proof (cases "n < 10")
    case True
    with "1.prems" have "c = digit_char n" by (simp add: show_nat.simps [of n])
    with True show ?thesis using digit_char_plain [of n] by simp
  next
    case False
    with "1.prems" have "c \<in> set (show_nat (n div 10)) \<or> c = digit_char (n mod 10)"
      by (auto simp: show_nat.simps [of n])
    with False "1.IH" show ?thesis using digit_char_plain [of "n mod 10"] by auto
  qed
qed

lemma parse_show_u32 [simp]: "parse_u32 (show_u32 x) = Some x"
proof -
  obtain c cs where cs: "show_nat (unat x) = c # cs"
    using show_nat_nonempty by (cases "show_nat (unat x)") auto
  then have "c \<noteq> CHR ''+''"
    using show_nat_plain [of c "unat x"] by simp
  with cs parse_digits_show_nat [of "unat x"] unat_u32_less [of x]
  show ?thesis by (simp add: parse_u32_def show_u32_def)
qed

lemma show_u32_inj [simp]: "show_u32 x = show_u32 y \<longleftrightarrow> x = y"
  by (metis parse_show_u32 option.inject)

lemma show_nat_inj_bounded: "m < 2 ^ 32 \<Longrightarrow> n < 2 ^ 32 \<Longrightarrow> show_nat m = show_nat n \<longleftrightarrow> m = n"
  by (metis parse_digits_show_nat option.inject)

text \<open>\<open>str::parse::<i32>\<close>: the same with an optional sign, and the range of the signed integers.\<close>

definition parse_i32 :: "string \<Rightarrow> i32 option" where
  "parse_i32 s =
     (let neg = (case s of [] \<Rightarrow> False | c # cs \<Rightarrow> c = CHR ''-'');
          ds = (case s of [] \<Rightarrow> [] | c # cs \<Rightarrow> if c = CHR ''-'' \<or> c = CHR ''+'' then cs else s)
      in if ds = [] then None
         else (case parse_digits 0 ds of
             None \<Rightarrow> None
           | Some v \<Rightarrow> if neg then (if v \<le> 2 ^ 31 then Some (word_of_int (- int v)) else None)
               else if v < 2 ^ 31 then Some (word_of_nat v) else None))"

lemma sint_i32_range: "- (2 ^ 31) \<le> sint (x :: i32)" "sint (x :: i32) < 2 ^ 31"
  using sint_greater_eq [of x] sint_less [of x] by simp_all

lemma parse_show_i32 [simp]: "parse_i32 (show_i32 x) = Some x"
proof (cases "sint x < 0")
  case True
  then have "nat (- sint x) \<le> 2 ^ 31" using sint_i32_range(1) [of x] by simp
  then have "parse_digits 0 (show_nat (nat (- sint x))) = Some (nat (- sint x))"
    by (intro parse_digits_show_nat) simp
  with True \<open>nat (- sint x) \<le> 2 ^ 31\<close> show ?thesis by (simp add: parse_i32_def show_i32_def)
next
  case False
  define v where "v = nat (sint x)"
  have v: "v < 2 ^ 31" "int v = sint x" using False sint_i32_range(2) [of x] by (simp_all add: v_def nat_less_iff)
  then have d: "parse_digits 0 (show_nat v) = Some v" by (intro parse_digits_show_nat) simp
  obtain c cs where cs: "show_nat v = c # cs" using show_nat_nonempty by (cases "show_nat v") auto
  then have "c \<noteq> CHR ''-''" "c \<noteq> CHR ''+''" using show_nat_plain [of c v] by simp_all
  moreover have "(word_of_nat v :: i32) = x" proof -
    have "(word_of_nat v :: i32) = word_of_int (int v)" by simp
    then show ?thesis using v(2) by simp
  qed
  ultimately show ?thesis using False v d cs by (simp add: parse_i32_def show_i32_def flip: v_def)
qed

text \<open>\<open>str::replace\<close> of a pattern by nothing, from the left.\<close>

function erase :: "string \<Rightarrow> string \<Rightarrow> string" where
  "erase pat [] = []"
| "erase pat (c # cs) =
     (if pat \<noteq> [] \<and> take (length pat) (c # cs) = pat then erase pat (drop (length pat - 1) cs) else c # erase pat cs)"
  by pat_completeness auto

termination by (relation "measure (length \<circ> snd)") auto

lemma erase_absent: "hd pat \<notin> set s \<Longrightarrow> pat \<noteq> [] \<Longrightarrow> erase pat s = s"
  by (induction s) (auto simp: neq_Nil_conv)

lemma erase_prefix: "pat \<noteq> [] \<Longrightarrow> hd pat \<notin> set s \<Longrightarrow> erase pat (pat @ s) = s"
  by (cases pat) (auto simp: erase_absent)

lemma show_i32_no_slash: "CHR ''/'' \<notin> set (show_i32 x)"
proof -
  have "c \<noteq> CHR ''/''" if "c \<in> set (show_nat n)" for c n
    using that
  proof (induction n rule: show_nat.induct)
    case (1 n)
    have d: "digit_char k \<noteq> CHR ''/''" if "k < 10" for k
      using that by (auto simp: digit_char_def dest: arg_cong [where f = "of_char :: char \<Rightarrow> nat"])
    show ?case
    proof (cases "n < 10")
      case True
      with 1 d show ?thesis by (simp add: show_nat.simps [of n])
    next
      case False
      with 1 d [of "n mod 10"] show ?thesis by (auto simp: show_nat.simps [of n])
    qed
  qed
  then show ?thesis by (auto simp: show_i32_def)
qed

end
