(* ===== verification/Rk_System.thy ===== *)
theory Rk_System
  imports Rk_Prelude
begin

text \<open>
  The interface between the program and the operating system. Every system call the sources
  make (directly, through the \<open>nix\<close> and \<open>libc\<close> crates, or through \<open>std::fs\<close>) is a
  value of \<open>syscall\<close>; the kernel's answers are a parameter, the record \<open>machine\<close>, whose
  functions may depend on everything the process has done so far. A program is a function of the process
  state \<open>world\<close>, whose \<open>trace\<close> records each call with its answer, so that statements
  can speak about which effects happen, in which order, and which never do.
  A Rust computation ends in \<open>Ok\<close>, in an \<open>Err\<close> value, in a panic, or does not return.
\<close>

section \<open>Calls, answers, events\<close>

type_synonym fd = int
type_synonym errno = nat
type_synonym path = string
type_synonym addr = bytes

definition EAGAIN :: errno where "EAGAIN = 11"
definition ECHILD :: errno where "ECHILD = 10"
definition ETIMEDOUT :: errno where "ETIMEDOUT = 110"

datatype openmode = RdOnly | WrOnly | RdWr | CreatWr | WrAppend | CreateNew
datatype ftype = FDir | FFile | FLink | FOther
datatype msflag = MS_RDONLY | MS_NOSUID | MS_NODEV | MS_NOEXEC | MS_REC | MS_PRIVATE | MS_RELATIME | MS_BIND
  | MS_UNBINDABLE
datatype nsflag = CLONE_NEWNS | CLONE_NEWPID | CLONE_NEWUSER
datatype pollflag = POLLIN | POLLOUT
datatype sockopt = ReuseAddr | ReusePort

datatype (plugins only: code size) syscall =
    Getpwuid u32
  | Getgrgid u32
  | Metadata path
  | CreateDirAll path
  | Open openmode path
  | WriteAll fd bytes
  | Close fd
  | Readlink path
  | ReadDir path
  | Mount "path option" path "string option" "msflag set" "string option"
  | Unshare "nsflag set"
  | Clone "nsflag set"
  | PrctlSetName bytes
  | Kill u32
  | Ioctl fd nat int
  | Socketpair
  | Send fd bytes
  | Recv fd nat
  | Poll "fd list" "pollflag set" int
  | Sleep nat
  | SemOpen
  | SemTimedwait
  | SemPost
  | ClockGettime
  | Eprintln
  | Perror string
  | SocketDgram
  | Setsockopt fd sockopt
  | BindAbstract fd bytes
  | Recvfrom fd nat
  | Sendmsg fd "bytes list" "fd list" addr
  | WaitAny
  | Umount path
  | RemoveFile path
  | RemoveDirAll path
  | Command "string list"
  | Spawn "string list"
  | Geteuid
  | Read fd nat
  | Write fd bytes
  | Pipe
  | Fork
  | Malloc nat
  | BindAuto fd
  | Recvmsg fd nat
  | Setns fd
  | CloneParent
  | CloneFiles
  | Stat path
  | Fstat fd
  | Sendfile fd fd int
  | GetFl fd
  | SetFl fd "32 word"
  | Connect fd addr
  | Rmdir path
  | WaitPid "32 word"
  | PrctlGetName

datatype reply =
    RBool bool
  | RErr errno
  | RUnit
  | RNum int
  | RData bytes
  | RText string
  | RStat ftype
  | RDir "(errno + string \<times> bool) list"
  | RPair fd fd
  | RFrom bytes addr
  | RWait "u32 option"
  | RMsg bytes "fd list"
  | RSize ftype int

datatype event = Ev (ev_call: syscall) (ev_reply: reply)

definition ev_ok :: "event \<Rightarrow> bool" where
  "ev_ok e = (case ev_reply e of RErr n \<Rightarrow> False | _ \<Rightarrow> True)"

lemma ev_ok_simps [simp]:
  "ev_ok (Ev c (RBool b))" "\<not> ev_ok (Ev c (RErr n))" "ev_ok (Ev c RUnit)" "ev_ok (Ev c (RNum i))"
  "ev_ok (Ev c (RData d))" "ev_ok (Ev c (RText s))" "ev_ok (Ev c (RStat k))" "ev_ok (Ev c (RDir l))"
  "ev_ok (Ev c (RPair a z))" "ev_ok (Ev c (RFrom d x))" "ev_ok (Ev c (RWait q))" "ev_ok (Ev c (RMsg d fs))"
  "ev_ok (Ev c (RSize k i))"
  by (simp_all add: ev_ok_def)

text \<open>
  The machine: the kernel's answers, by the type of the answer, and the constants of the
  compilation target (width of \<open>usize\<close>, byte order, whether arithmetic overflow is checked,
  depth of the stack in frames of the logging routine).
\<close>

record machine =
  m_bool :: "event list \<Rightarrow> syscall \<Rightarrow> bool"
  m_unit :: "event list \<Rightarrow> syscall \<Rightarrow> errno + unit"
  m_num :: "event list \<Rightarrow> syscall \<Rightarrow> errno + int"
  m_data :: "event list \<Rightarrow> syscall \<Rightarrow> errno + bytes"
  m_text :: "event list \<Rightarrow> syscall \<Rightarrow> errno + string"
  m_stat :: "event list \<Rightarrow> syscall \<Rightarrow> errno + ftype"
  m_dir :: "event list \<Rightarrow> syscall \<Rightarrow> errno + (errno + string \<times> bool) list"
  m_pair :: "event list \<Rightarrow> syscall \<Rightarrow> errno + fd \<times> fd"
  m_from :: "event list \<Rightarrow> syscall \<Rightarrow> errno + bytes \<times> addr"
  m_wait :: "event list \<Rightarrow> syscall \<Rightarrow> errno + u32 option"
  m_msg :: "event list \<Rightarrow> syscall \<Rightarrow> errno + bytes \<times> fd list"
  m_size :: "event list \<Rightarrow> syscall \<Rightarrow> errno + ftype \<times> int"
  usize_bits :: nat
  overflow_checks :: bool
  big_endian :: bool
  stack_depth :: nat

record world =
  trace :: "event list"
  my_pid :: u32
  procname_ctr :: nat
  loop_master :: "fd option"
  sem_log :: bool

section \<open>Programs\<close>

datatype ('e, 'a) outcome = Ok 'a | Err 'e | Panic | Diverge

datatype ('e, 'a) io = IO (run: "world \<Rightarrow> ('e, 'a) outcome \<times> world")

definition ret :: "'a \<Rightarrow> ('e, 'a) io" where
  "ret a = IO (\<lambda>w. (Ok a, w))"

definition fail :: "'e \<Rightarrow> ('e, 'a) io" where
  "fail e = IO (\<lambda>w. (Err e, w))"

definition panic :: "('e, 'a) io" where
  "panic = IO (\<lambda>w. (Panic, w))"

definition diverge :: "('e, 'a) io" where
  "diverge = IO (\<lambda>w. (Diverge, w))"

text \<open>Reading and changing the process state (its statics).\<close>

definition with_world :: "(world \<Rightarrow> ('e, 'a) io) \<Rightarrow> ('e, 'a) io" where
  "with_world f = IO (\<lambda>w. run (f w) w)"

definition modify :: "(world \<Rightarrow> world) \<Rightarrow> ('e, unit) io" where
  "modify f = IO (\<lambda>w. (Ok (), f w))"

text \<open>\<open>bnd m f\<close>: run \<open>m\<close>, go on with its value; an error returns at once (\<open>?\<close>).\<close>

definition bnd :: "('e, 'a) io \<Rightarrow> ('a \<Rightarrow> ('e, 'b) io) \<Rightarrow> ('e, 'b) io" where
  "bnd m f = IO (\<lambda>w. case run m w of
      (Ok a, w') \<Rightarrow> run (f a) w'
    | (Err e, w') \<Rightarrow> (Err e, w')
    | (Panic, w') \<Rightarrow> (Panic, w')
    | (Diverge, w') \<Rightarrow> (Diverge, w'))"

definition seq :: "('e, 'a) io \<Rightarrow> ('e, 'b) io \<Rightarrow> ('e, 'b) io" where
  "seq m k = bnd m (\<lambda>_. k)"

text \<open>
  \<open>handle m h\<close>: \<open>match\<close> on a \<open>Result\<close>, the error branch given by \<open>h\<close>;
  \<open>on_err m h\<close>: \<open>map_err(|e| { h; e })\<close>; \<open>from_res\<close>: a plain \<open>Result\<close> as a program.
\<close>

definition handle :: "('e, 'a) io \<Rightarrow> ('e \<Rightarrow> ('f, 'a) io) \<Rightarrow> ('f, 'a) io" where
  "handle m h = IO (\<lambda>w. case run m w of
      (Ok a, w') \<Rightarrow> (Ok a, w')
    | (Err e, w') \<Rightarrow> run (h e) w'
    | (Panic, w') \<Rightarrow> (Panic, w')
    | (Diverge, w') \<Rightarrow> (Diverge, w'))"

definition on_err :: "('e, 'a) io \<Rightarrow> ('e, unit) io \<Rightarrow> ('e, 'a) io" where
  "on_err m h = handle m (\<lambda>e. seq h (fail e))"

definition map_err :: "('e \<Rightarrow> 'f) \<Rightarrow> ('e, 'a) io \<Rightarrow> ('f, 'a) io" where
  "map_err f m = handle m (\<lambda>e. fail (f e))"

fun from_res :: "('x \<Rightarrow> 'e) \<Rightarrow> 'x + 'a \<Rightarrow> ('e, 'a) io" where
  "from_res f (Inl x) = fail (f x)"
| "from_res f (Inr a) = ret a"

fun from_opt :: "'e \<Rightarrow> 'a option \<Rightarrow> ('e, 'a) io" where
  "from_opt e None = fail e"
| "from_opt e (Some a) = ret a"

fun for_each :: "('a \<Rightarrow> ('e, unit) io) \<Rightarrow> 'a list \<Rightarrow> ('e, unit) io" where
  "for_each f [] = ret ()"
| "for_each f (x # xs) = seq (f x) (for_each f xs)"

fun for_collect :: "('a \<Rightarrow> ('e, 'b) io) \<Rightarrow> 'a list \<Rightarrow> ('e, 'b list) io" where
  "for_collect f [] = ret []"
| "for_collect f (x # xs) = bnd (f x) (\<lambda>y. bnd (for_collect f xs) (\<lambda>ys. ret (y # ys)))"

section \<open>System calls as programs\<close>

definition emit :: "syscall \<Rightarrow> reply \<Rightarrow> world \<Rightarrow> world" where
  "emit c r w = w\<lparr>trace := trace w @ [Ev c r]\<rparr>"

definition res_reply :: "('a \<Rightarrow> reply) \<Rightarrow> errno + 'a \<Rightarrow> reply" where
  "res_reply f r = (case r of Inl e \<Rightarrow> RErr e | Inr a \<Rightarrow> f a)"

definition syscall_with ::
  "(event list \<Rightarrow> syscall \<Rightarrow> 'r) \<Rightarrow> ('r \<Rightarrow> reply) \<Rightarrow> syscall \<Rightarrow> ('e, 'r) io" where
  "syscall_with k f c = IO (\<lambda>w. let r = k (trace w) c in (Ok r, emit c (f r) w))"

definition sys_bool :: "machine \<Rightarrow> syscall \<Rightarrow> ('e, bool) io" where
  "sys_bool M = syscall_with (m_bool M) RBool"
definition sys_unit :: "machine \<Rightarrow> syscall \<Rightarrow> ('e, errno + unit) io" where
  "sys_unit M = syscall_with (m_unit M) (res_reply (\<lambda>_. RUnit))"
definition sys_num :: "machine \<Rightarrow> syscall \<Rightarrow> ('e, errno + int) io" where
  "sys_num M = syscall_with (m_num M) (res_reply RNum)"
definition sys_data :: "machine \<Rightarrow> syscall \<Rightarrow> ('e, errno + bytes) io" where
  "sys_data M = syscall_with (m_data M) (res_reply RData)"
definition sys_text :: "machine \<Rightarrow> syscall \<Rightarrow> ('e, errno + string) io" where
  "sys_text M = syscall_with (m_text M) (res_reply RText)"
definition sys_stat :: "machine \<Rightarrow> syscall \<Rightarrow> ('e, errno + ftype) io" where
  "sys_stat M = syscall_with (m_stat M) (res_reply RStat)"
definition sys_dir :: "machine \<Rightarrow> syscall \<Rightarrow> ('e, errno + (errno + string \<times> bool) list) io" where
  "sys_dir M = syscall_with (m_dir M) (res_reply RDir)"
definition sys_pair :: "machine \<Rightarrow> syscall \<Rightarrow> ('e, errno + fd \<times> fd) io" where
  "sys_pair M = syscall_with (m_pair M) (res_reply (\<lambda>(a, b). RPair a b))"
definition sys_from :: "machine \<Rightarrow> syscall \<Rightarrow> ('e, errno + bytes \<times> addr) io" where
  "sys_from M = syscall_with (m_from M) (res_reply (\<lambda>(d, a). RFrom d a))"
definition sys_msg :: "machine \<Rightarrow> syscall \<Rightarrow> ('e, errno + bytes \<times> fd list) io" where
  "sys_msg M = syscall_with (m_msg M) (res_reply (\<lambda>(d, fs). RMsg d fs))"
definition sys_size :: "machine \<Rightarrow> syscall \<Rightarrow> ('e, errno + ftype \<times> int) io" where
  "sys_size M = syscall_with (m_size M) (res_reply (\<lambda>(k, i). RSize k i))"
definition sys_wait :: "machine \<Rightarrow> syscall \<Rightarrow> ('e, errno + u32 option) io" where
  "sys_wait M = syscall_with (m_wait M) (res_reply RWait)"

lemmas sys_defs = sys_bool_def sys_unit_def sys_num_def sys_data_def sys_text_def sys_stat_def
  sys_dir_def sys_pair_def sys_from_def sys_wait_def sys_msg_def sys_size_def

lemmas prog_defs = ret_def fail_def panic_def diverge_def

section \<open>Laws of programs\<close>

text \<open>Running the combinators at a state.\<close>

lemma run_ret [simp]: "run (ret a) w = (Ok a, w)"
  and run_fail [simp]: "run (fail e) w = (Err e, w)"
  and run_panic [simp]: "run panic w = (Panic, w)"
  and run_diverge [simp]: "run diverge w = (Diverge, w)"
  and run_with_world [simp]: "run (with_world f) w = run (f w) w"
  and run_modify [simp]: "run (modify g) w = (Ok (), g w)"
  by (simp_all add: prog_defs with_world_def modify_def)

lemma run_bnd: "run (bnd m f) w = (case run m w of
      (Ok a, w') \<Rightarrow> run (f a) w'
    | (Err e, w') \<Rightarrow> (Err e, w')
    | (Panic, w') \<Rightarrow> (Panic, w')
    | (Diverge, w') \<Rightarrow> (Diverge, w'))"
  by (simp add: bnd_def)

lemma run_handle: "run (handle m h) w = (case run m w of
      (Ok a, w') \<Rightarrow> (Ok a, w')
    | (Err e, w') \<Rightarrow> run (h e) w'
    | (Panic, w') \<Rightarrow> (Panic, w')
    | (Diverge, w') \<Rightarrow> (Diverge, w'))"
  by (simp add: handle_def)

lemma run_bnd_Ok [simp]: "run m w = (Ok a, w') \<Longrightarrow> run (bnd m f) w = run (f a) w'"
  and run_bnd_Err [simp]: "run m w = (Err e, w') \<Longrightarrow> run (bnd m f) w = (Err e, w')"
  and run_bnd_Panic [simp]: "run m w = (Panic, w') \<Longrightarrow> run (bnd m f) w = (Panic, w')"
  and run_bnd_Diverge [simp]: "run m w = (Diverge, w') \<Longrightarrow> run (bnd m f) w = (Diverge, w')"
  by (simp_all add: run_bnd)

lemma run_handle_Ok [simp]: "run m w = (Ok a, w') \<Longrightarrow> run (handle m h) w = (Ok a, w')"
  and run_handle_Err [simp]: "run m w = (Err e, w') \<Longrightarrow> run (handle m h) w = run (h e) w'"
  and run_handle_Panic [simp]: "run m w = (Panic, w') \<Longrightarrow> run (handle m h) w = (Panic, w')"
  and run_handle_Diverge [simp]: "run m w = (Diverge, w') \<Longrightarrow> run (handle m h) w = (Diverge, w')"
  by (simp_all add: run_handle)

lemma run_syscall: "run (syscall_with k f c) w = (Ok (k (trace w) c), emit c (f (k (trace w) c)) w)"
  by (simp add: syscall_with_def Let_def)

lemma run_sys [simp]:
  "run (sys_bool M c) w = (Ok (m_bool M (trace w) c), emit c (RBool (m_bool M (trace w) c)) w)"
  "run (sys_unit M c) w = (Ok (m_unit M (trace w) c), emit c (res_reply (\<lambda>_. RUnit) (m_unit M (trace w) c)) w)"
  "run (sys_num M c) w = (Ok (m_num M (trace w) c), emit c (res_reply RNum (m_num M (trace w) c)) w)"
  "run (sys_data M c) w = (Ok (m_data M (trace w) c), emit c (res_reply RData (m_data M (trace w) c)) w)"
  "run (sys_text M c) w = (Ok (m_text M (trace w) c), emit c (res_reply RText (m_text M (trace w) c)) w)"
  "run (sys_stat M c) w = (Ok (m_stat M (trace w) c), emit c (res_reply RStat (m_stat M (trace w) c)) w)"
  "run (sys_dir M c) w = (Ok (m_dir M (trace w) c), emit c (res_reply RDir (m_dir M (trace w) c)) w)"
  "run (sys_pair M c) w
     = (Ok (m_pair M (trace w) c), emit c (res_reply (\<lambda>(a, b). RPair a b) (m_pair M (trace w) c)) w)"
  "run (sys_from M c) w
     = (Ok (m_from M (trace w) c), emit c (res_reply (\<lambda>(d, a). RFrom d a) (m_from M (trace w) c)) w)"
  "run (sys_msg M c) w
     = (Ok (m_msg M (trace w) c), emit c (res_reply (\<lambda>(d, fs). RMsg d fs) (m_msg M (trace w) c)) w)"
  "run (sys_size M c) w
     = (Ok (m_size M (trace w) c), emit c (res_reply (\<lambda>(k, i). RSize k i) (m_size M (trace w) c)) w)"
  "run (sys_wait M c) w = (Ok (m_wait M (trace w) c), emit c (res_reply RWait (m_wait M (trace w) c)) w)"
  by (simp_all add: sys_defs run_syscall)

lemma res_reply_simps [simp]: "res_reply f (Inl e) = RErr e" "res_reply f (Inr a) = f a"
  by (simp_all add: res_reply_def)

lemma io_eqI: "(\<And>w. run m w = run k w) \<Longrightarrow> m = k"
  by (cases m; cases k) auto

lemma bnd_ret [simp]: "bnd (ret a) f = f a"
  and bnd_fail [simp]: "bnd (fail e) f = fail e"
  and bnd_panic [simp]: "bnd panic f = panic"
  and bnd_diverge [simp]: "bnd diverge f = diverge"
  by (rule io_eqI; simp)+

lemma bnd_ret_right [simp]: "bnd m ret = m"
  by (rule io_eqI) (auto simp: run_bnd split: prod.splits outcome.splits)

lemma bnd_assoc: "bnd (bnd m f) g = bnd m (\<lambda>a. bnd (f a) g)"
  by (rule io_eqI) (auto simp: run_bnd split: prod.splits outcome.splits)

lemma seq_basic [simp]: "seq (ret a) k = k" "seq (fail e) k = fail e" "seq panic k = panic"
    "seq diverge k = diverge"
  by (simp_all add: seq_def)

lemma handle_ret [simp]: "handle (ret a) h = ret a"
  and handle_fail [simp]: "handle (fail e) h = h e"
  and handle_panic [simp]: "handle panic h = panic"
  and handle_diverge [simp]: "handle diverge h = diverge"
  by (rule io_eqI; simp)+

lemma bnd_Ok_iff:
  "run (bnd m f) w = (Ok b, w'') \<longleftrightarrow> (\<exists>a w'. run m w = (Ok a, w') \<and> run (f a) w' = (Ok b, w''))"
  by (auto simp: run_bnd split: prod.splits outcome.splits)

lemma bnd_Err_iff:
  "run (bnd m f) w = (Err e, w'') \<longleftrightarrow>
     run m w = (Err e, w'') \<or> (\<exists>a w'. run m w = (Ok a, w') \<and> run (f a) w' = (Err e, w''))"
  by (auto simp: run_bnd split: prod.splits outcome.splits)

lemma handle_Ok_iff:
  "run (handle m h) w = (Ok b, w'') \<longleftrightarrow>
     run m w = (Ok b, w'') \<or> (\<exists>e w'. run m w = (Err e, w') \<and> run (h e) w' = (Ok b, w''))"
  by (auto simp: run_handle split: prod.splits outcome.splits)

lemma handle_Err_iff:
  "run (handle m h) w = (Err e, w'') \<longleftrightarrow>
     (\<exists>e' w'. run m w = (Err e', w') \<and> run (h e') w' = (Err e, w''))"
  by (auto simp: run_handle split: prod.splits outcome.splits)

lemma seq_Ok_iff:
  "run (seq m k) w = (Ok b, w'') \<longleftrightarrow> (\<exists>a w'. run m w = (Ok a, w') \<and> run k w' = (Ok b, w''))"
  by (simp add: seq_def bnd_Ok_iff)

lemma seq_Err_iff:
  "run (seq m k) w = (Err e, w'') \<longleftrightarrow>
     run m w = (Err e, w'') \<or> (\<exists>a w'. run m w = (Ok a, w') \<and> run k w' = (Err e, w''))"
  by (simp add: seq_def bnd_Err_iff)

lemma map_err_Ok_iff: "run (map_err f m) w = (Ok a, w') \<longleftrightarrow> run m w = (Ok a, w')"
  by (simp add: map_err_def handle_Ok_iff)

lemma map_err_Err_iff: "run (map_err f m) w = (Err e, w') \<longleftrightarrow> (\<exists>x. run m w = (Err x, w') \<and> e = f x)"
  by (auto simp: map_err_def handle_Err_iff)

lemma on_err_Ok_iff: "run (on_err m h) w = (Ok a, w') \<longleftrightarrow> run m w = (Ok a, w')"
  by (simp add: on_err_def handle_Ok_iff seq_Ok_iff)

lemma run_case_sum:
  "run (case r of Inl x \<Rightarrow> f x | Inr y \<Rightarrow> g y) w = z \<longleftrightarrow>
     (\<exists>x. r = Inl x \<and> run (f x) w = z) \<or> (\<exists>y. r = Inr y \<and> run (g y) w = z)"
  by (cases r) auto

lemma run_case_option:
  "run (case r of None \<Rightarrow> f | Some y \<Rightarrow> g y) w = z \<longleftrightarrow>
     (r = None \<and> run f w = z) \<or> (\<exists>y. r = Some y \<and> run (g y) w = z)"
  by (cases r) auto

lemma run_if:
  "run (if b then f else g) w = z \<longleftrightarrow> (b \<and> run f w = z) \<or> (\<not> b \<and> run g w = z)"
  by auto

lemmas run_cases = run_case_sum run_case_option run_if

lemmas run_iffs = bnd_Ok_iff bnd_Err_iff handle_Ok_iff handle_Err_iff seq_Ok_iff seq_Err_iff
  map_err_Ok_iff map_err_Err_iff on_err_Ok_iff

lemma run_seq_Ok [simp]: "run m w = (Ok a, w') \<Longrightarrow> run (seq m k) w = run k w'"
  and run_seq_Err [simp]: "run m w = (Err e, w') \<Longrightarrow> run (seq m k) w = (Err e, w')"
  and run_seq_Panic [simp]: "run m w = (Panic, w') \<Longrightarrow> run (seq m k) w = (Panic, w')"
  and run_seq_Diverge [simp]: "run m w = (Diverge, w') \<Longrightarrow> run (seq m k) w = (Diverge, w')"
  by (simp_all add: seq_def)

lemma from_res_Ok_iff: "run (from_res f r) w = (Ok a, w') \<longleftrightarrow> r = Inr a \<and> w' = w"
  by (cases r) auto

lemma from_res_Err_iff: "run (from_res f r) w = (Err e, w') \<longleftrightarrow> (\<exists>x. r = Inl x \<and> e = f x) \<and> w' = w"
  by (cases r) auto

lemma from_opt_Ok_iff: "run (from_opt e x) w = (Ok a, w') \<longleftrightarrow> x = Some a \<and> w' = w"
  by (cases x) auto

lemma emit_sel [simp]:
  "trace (emit c r w) = trace w @ [Ev c r]"
  "my_pid (emit c r w) = my_pid w"
  "procname_ctr (emit c r w) = procname_ctr w"
  "loop_master (emit c r w) = loop_master w"
  "sem_log (emit c r w) = sem_log w"
  by (simp_all add: emit_def)

section \<open>Which calls a program makes\<close>

text \<open>
  \<open>emits P m\<close>: whatever the machine answers, \<open>m\<close> only adds events to the trace, and
  every call it makes satisfies \<open>P\<close>. The rules of \<open>emits_intros\<close> follow the syntax of a
  program, so that a component's effect discipline is proved by one \<open>auto\<close>.
\<close>

definition emits :: "(syscall \<Rightarrow> bool) \<Rightarrow> ('e, 'a) io \<Rightarrow> bool" where
  "emits P m \<longleftrightarrow>
     (\<forall>w. \<exists>es. trace (snd (run m w)) = trace w @ es \<and> (\<forall>e \<in> set es. P (ev_call e)))"

named_theorems emits_intros \<open>rules that follow the syntax of a program\<close>

lemma emitsI:
  "(\<And>w r w'. run m w = (r, w') \<Longrightarrow>
      \<exists>es. trace w' = trace w @ es \<and> (\<forall>e \<in> set es. P (ev_call e))) \<Longrightarrow> emits P m"
  unfolding emits_def by (metis prod.collapse)

lemma emitsD:
  "emits P m \<Longrightarrow> run m w = (r, w') \<Longrightarrow>
    \<exists>es. trace w' = trace w @ es \<and> (\<forall>e \<in> set es. P (ev_call e))"
  unfolding emits_def by (metis snd_conv)

lemma emits_mono: "emits P m \<Longrightarrow> (\<And>c. P c \<Longrightarrow> Q c) \<Longrightarrow> emits Q m"
  unfolding emits_def by blast

lemma emits_ret [emits_intros]: "emits P (ret a)"
  and emits_fail [emits_intros]: "emits P (fail e)"
  and emits_panic [emits_intros]: "emits P panic"
  and emits_diverge [emits_intros]: "emits P diverge"
  by (simp_all add: emits_def)

lemma emits_with_world [emits_intros]: "(\<And>w. emits P (f w)) \<Longrightarrow> emits P (with_world f)"
  by (simp add: emits_def)

lemma emits_modify [emits_intros]: "(\<And>w. trace (f w) = trace w) \<Longrightarrow> emits P (modify f)"
  by (simp add: emits_def)

lemma emits_bnd [emits_intros]:
  assumes "emits P m" and "\<And>a. emits P (f a)"
  shows "emits P (bnd m f)"
proof (rule emitsI)
  fix w r w''
  assume run: "run (bnd m f) w = (r, w'')"
  obtain q w' where m: "run m w = (q, w')" by (cases "run m w")
  obtain es where es: "trace w' = trace w @ es" "\<forall>e \<in> set es. P (ev_call e)"
    using emitsD [OF assms(1) m] by blast
  show "\<exists>es. trace w'' = trace w @ es \<and> (\<forall>e \<in> set es. P (ev_call e))"
  proof (cases q)
    case (Ok a)
    with m run have "run (f a) w' = (r, w'')" by simp
    then obtain es' where "trace w'' = trace w' @ es'" "\<forall>e \<in> set es'. P (ev_call e)"
      using emitsD [OF assms(2)] by blast
    with es show ?thesis by (intro exI [of _ "es @ es'"]) auto
  qed (use m run es in auto)
qed

lemma emits_handle [emits_intros]:
  assumes "emits P m" and "\<And>e. emits P (h e)"
  shows "emits P (handle m h)"
proof (rule emitsI)
  fix w r w''
  assume run: "run (handle m h) w = (r, w'')"
  obtain q w' where m: "run m w = (q, w')" by (cases "run m w")
  obtain es where es: "trace w' = trace w @ es" "\<forall>e \<in> set es. P (ev_call e)"
    using emitsD [OF assms(1) m] by blast
  show "\<exists>es. trace w'' = trace w @ es \<and> (\<forall>e \<in> set es. P (ev_call e))"
  proof (cases q)
    case (Err x)
    with m run have "run (h x) w' = (r, w'')" by simp
    then obtain es' where "trace w'' = trace w' @ es'" "\<forall>e \<in> set es'. P (ev_call e)"
      using emitsD [OF assms(2)] by blast
    with es show ?thesis by (intro exI [of _ "es @ es'"]) auto
  qed (use m run es in auto)
qed

lemma emits_seq [emits_intros]: "emits P m \<Longrightarrow> emits P k \<Longrightarrow> emits P (seq m k)"
  by (simp add: seq_def emits_bnd)

lemma emits_on_err [emits_intros]: "emits P m \<Longrightarrow> emits P h \<Longrightarrow> emits P (on_err m h)"
  by (simp add: on_err_def emits_handle emits_seq emits_fail)

lemma emits_map_err [emits_intros]: "emits P m \<Longrightarrow> emits P (map_err f m)"
  by (simp add: map_err_def emits_handle emits_fail)

lemma emits_from_res [emits_intros]: "emits P (from_res f r)"
  by (cases r) (simp_all add: emits_ret emits_fail)

lemma emits_from_opt [emits_intros]: "emits P (from_opt e r)"
  by (cases r) (simp_all add: emits_ret emits_fail)

lemma emits_syscall: "P c \<Longrightarrow> emits P (syscall_with k f c)"
  by (simp add: emits_def run_syscall)

lemma emits_sys [emits_intros]:
  "P c \<Longrightarrow> emits P (sys_bool M c)"
  "P c \<Longrightarrow> emits P (sys_unit M c)"
  "P c \<Longrightarrow> emits P (sys_num M c)"
  "P c \<Longrightarrow> emits P (sys_data M c)"
  "P c \<Longrightarrow> emits P (sys_text M c)"
  "P c \<Longrightarrow> emits P (sys_stat M c)"
  "P c \<Longrightarrow> emits P (sys_dir M c)"
  "P c \<Longrightarrow> emits P (sys_pair M c)"
  "P c \<Longrightarrow> emits P (sys_from M c)"
  "P c \<Longrightarrow> emits P (sys_msg M c)"
  "P c \<Longrightarrow> emits P (sys_size M c)"
  "P c \<Longrightarrow> emits P (sys_wait M c)"
  by (simp_all add: sys_defs emits_syscall)

lemma emits_if [emits_intros]:
  "(b \<Longrightarrow> emits P m) \<Longrightarrow> (\<not> b \<Longrightarrow> emits P k) \<Longrightarrow> emits P (if b then m else k)"
  by simp

lemma emits_for_each [emits_intros]:
  "(\<And>x. x \<in> set xs \<Longrightarrow> emits P (f x)) \<Longrightarrow> emits P (for_each f xs)"
  by (induction xs) (simp_all add: emits_ret emits_seq)

lemma emits_for_collect [emits_intros]:
  "(\<And>x. x \<in> set xs \<Longrightarrow> emits P (f x)) \<Longrightarrow> emits P (for_collect f xs)"
  by (induction xs) (simp_all add: emits_ret emits_bnd)

lemma emits_case_sum [emits_intros]:
  "(\<And>x. emits P (f x)) \<Longrightarrow> (\<And>y. emits P (g y)) \<Longrightarrow> emits P (case s of Inl x \<Rightarrow> f x | Inr y \<Rightarrow> g y)"
  by (cases s) simp_all

lemma emits_case_option [emits_intros]:
  "emits P f \<Longrightarrow> (\<And>y. emits P (g y)) \<Longrightarrow> emits P (case s of None \<Rightarrow> f | Some y \<Rightarrow> g y)"
  by (cases s) simp_all

lemma emits_case_prod [emits_intros]:
  "(\<And>x y. emits P (f x y)) \<Longrightarrow> emits P (case s of (x, y) \<Rightarrow> f x y)"
  by (cases s) simp_all

section \<open>Programs that never return an error, or never return\<close>

definition no_err :: "('e, 'a) io \<Rightarrow> bool" where
  "no_err m \<longleftrightarrow> (\<forall>w e. fst (run m w) \<noteq> Err e)"

named_theorems no_err_intros \<open>rules that follow the syntax of a program\<close>

lemma no_errI: "(\<And>w e w'. run m w = (Err e, w') \<Longrightarrow> False) \<Longrightarrow> no_err m"
  unfolding no_err_def by (metis prod.collapse)

lemma no_errD: "no_err m \<Longrightarrow> run m w \<noteq> (Err e, w')"
  unfolding no_err_def by (metis fst_conv)

lemma no_err_bnd [no_err_intros]: "no_err m \<Longrightarrow> (\<And>a. no_err (f a)) \<Longrightarrow> no_err (bnd m f)"
  by (rule no_errI) (auto simp: bnd_Err_iff dest: no_errD)

lemma no_err_seq [no_err_intros]: "no_err m \<Longrightarrow> no_err k \<Longrightarrow> no_err (seq m k)"
  by (simp add: seq_def no_err_bnd)

lemma no_err_basic [no_err_intros]: "no_err (ret a)" "no_err panic" "no_err diverge" "no_err (modify f)"
  by (simp_all add: no_err_def)

lemma no_err_sys [no_err_intros]:
  "no_err (sys_bool M c)" "no_err (sys_unit M c)" "no_err (sys_num M c)" "no_err (sys_data M c)"
  "no_err (sys_text M c)" "no_err (sys_stat M c)" "no_err (sys_dir M c)" "no_err (sys_pair M c)"
  "no_err (sys_from M c)" "no_err (sys_wait M c)" "no_err (sys_msg M c)"
  "no_err (sys_size M c)"
  by (simp_all add: no_err_def)

lemma no_err_handle [no_err_intros]: "(\<And>e. no_err (h e)) \<Longrightarrow> no_err (handle m h)"
  by (rule no_errI) (auto simp: handle_Err_iff dest: no_errD)

lemma no_err_with_world [no_err_intros]: "(\<And>w. no_err (f w)) \<Longrightarrow> no_err (with_world f)"
  by (simp add: no_err_def)

lemma no_err_if [no_err_intros]: "no_err m \<Longrightarrow> no_err k \<Longrightarrow> no_err (if b then m else k)"
  by simp

lemma no_err_case_sum [no_err_intros]:
  "(\<And>x. no_err (f x)) \<Longrightarrow> (\<And>y. no_err (g y)) \<Longrightarrow> no_err (case s of Inl x \<Rightarrow> f x | Inr y \<Rightarrow> g y)"
  by (cases s) simp_all

lemma no_err_for_each [no_err_intros]: "(\<And>x. no_err (f x)) \<Longrightarrow> no_err (for_each f xs)"
  by (induction xs) (auto intro: no_err_intros)

definition never_returns :: "('e, 'a) io \<Rightarrow> bool" where
  "never_returns m \<longleftrightarrow> (\<forall>w. fst (run m w) = Panic \<or> fst (run m w) = Diverge)"

text \<open>Programs that neither panic nor hang: they return a value or an error.\<close>

definition settles :: "('e, 'a) io \<Rightarrow> bool" where
  "settles m \<longleftrightarrow> (\<forall>w. fst (run m w) \<noteq> Panic \<and> fst (run m w) \<noteq> Diverge)"

named_theorems settles_intros \<open>rules that follow the syntax of a program\<close>

lemma settlesI:
  "(\<And>w w'. run m w = (Panic, w') \<Longrightarrow> False) \<Longrightarrow> (\<And>w w'. run m w = (Diverge, w') \<Longrightarrow> False) \<Longrightarrow> settles m"
  unfolding settles_def by (metis prod.collapse)

lemma settlesD:
  "settles m \<Longrightarrow> run m w \<noteq> (Panic, w')" "settles m \<Longrightarrow> run m w \<noteq> (Diverge, w')"
  unfolding settles_def by (metis fst_conv)+

lemma settles_bnd [settles_intros]:
  assumes "settles m" and "\<And>a. settles (f a)"
  shows "settles (bnd m f)"
  using settlesD [OF assms(1)] settlesD [OF assms(2)]
  by (intro settlesI) (auto simp: run_bnd split: prod.splits outcome.splits)

lemma settles_handle [settles_intros]:
  assumes "settles m" and "\<And>e. settles (h e)"
  shows "settles (handle m h)"
  using settlesD [OF assms(1)] settlesD [OF assms(2)]
  by (intro settlesI) (auto simp: run_handle split: prod.splits outcome.splits)

lemma settles_basic [settles_intros]: "settles (ret a)" "settles (fail e)" "settles (modify f)"
  by (simp_all add: settles_def)

lemma settles_seq [settles_intros]: "settles m \<Longrightarrow> settles k \<Longrightarrow> settles (seq m k)"
  by (simp add: seq_def settles_bnd)

lemma settles_on_err [settles_intros]: "settles m \<Longrightarrow> settles h \<Longrightarrow> settles (on_err m h)"
  unfolding on_err_def by (intro settles_intros)

lemma settles_map_err [settles_intros]: "settles m \<Longrightarrow> settles (map_err f m)"
  unfolding map_err_def by (intro settles_intros)

lemma settles_with_world [settles_intros]: "(\<And>w. settles (f w)) \<Longrightarrow> settles (with_world f)"
  by (simp add: settles_def)

lemma settles_from_res [settles_intros]: "settles (from_res f r)"
  and settles_from_opt [settles_intros]: "settles (from_opt e x)"
  by (cases r; simp add: settles_def) (cases x; simp add: settles_def)

lemma settles_sys [settles_intros]:
  "settles (sys_bool M c)" "settles (sys_unit M c)" "settles (sys_num M c)" "settles (sys_data M c)"
  "settles (sys_text M c)" "settles (sys_stat M c)" "settles (sys_dir M c)" "settles (sys_pair M c)"
  "settles (sys_from M c)" "settles (sys_wait M c)" "settles (sys_msg M c)"
  "settles (sys_size M c)"
  by (simp_all add: settles_def)

lemma settles_if [settles_intros]: "settles m \<Longrightarrow> settles k \<Longrightarrow> settles (if b then m else k)"
  by simp

lemma settles_case_sum [settles_intros]:
  "(\<And>x. settles (f x)) \<Longrightarrow> (\<And>y. settles (g y)) \<Longrightarrow> settles (case s of Inl x \<Rightarrow> f x | Inr y \<Rightarrow> g y)"
  by (cases s) simp_all

lemma settles_case_option [settles_intros]:
  "settles f \<Longrightarrow> (\<And>y. settles (g y)) \<Longrightarrow> settles (case s of None \<Rightarrow> f | Some y \<Rightarrow> g y)"
  by (cases s) simp_all

lemma settles_for_each [settles_intros]: "(\<And>x. settles (f x)) \<Longrightarrow> settles (for_each f xs)"
  by (induction xs) (auto intro: settles_intros)

lemma settles_for_collect [settles_intros]: "(\<And>x. settles (f x)) \<Longrightarrow> settles (for_collect f xs)"
  by (induction xs) (auto intro: settles_intros)

text \<open>The calls made from a state on.\<close>

definition new_calls :: "world \<Rightarrow> world \<Rightarrow> syscall list" where
  "new_calls w w' = map ev_call (drop (length (trace w)) (trace w'))"

lemma new_calls_same [simp]: "new_calls w w = []"
  by (simp add: new_calls_def)

lemma new_calls_ext: "trace w' = trace w @ es \<Longrightarrow> new_calls w w' = map ev_call es"
  by (simp add: new_calls_def)

lemma emits_new_calls: "emits P m \<Longrightarrow> run m w = (r, w') \<Longrightarrow> \<forall>c \<in> set (new_calls w w'). P c"
  using emitsD [of P m w r w'] by (auto simp: new_calls_def)

section \<open>Open descriptors\<close>

text \<open>The descriptors a trace leaves open: opened by a call of the trace and not closed since.\<close>

definition fd_step :: "fd set \<Rightarrow> event \<Rightarrow> fd set" where
  "fd_step S e = (case ev_call e of
      Open md p \<Rightarrow> (case ev_reply e of RNum n \<Rightarrow> insert n S | _ \<Rightarrow> S)
    | SocketDgram \<Rightarrow> (case ev_reply e of RNum n \<Rightarrow> insert n S | _ \<Rightarrow> S)
    | Socketpair \<Rightarrow> (case ev_reply e of RPair a b \<Rightarrow> insert a (insert b S) | _ \<Rightarrow> S)
    | Pipe \<Rightarrow> (case ev_reply e of RPair a b \<Rightarrow> insert a (insert b S) | _ \<Rightarrow> S)
    | Recvmsg f n \<Rightarrow> (case ev_reply e of RMsg d fs \<Rightarrow> S \<union> set fs | _ \<Rightarrow> S)
    | Close n \<Rightarrow> S - {n}
    | _ \<Rightarrow> S)"

definition open_fds :: "event list \<Rightarrow> fd set" where
  "open_fds t = foldl fd_step {} t"

lemma open_fds_Nil [simp]: "open_fds [] = {}"
  by (simp add: open_fds_def)

lemma open_fds_snoc [simp]: "open_fds (t @ [e]) = fd_step (open_fds t) e"
  by (simp add: open_fds_def)

section \<open>Observations of a trace\<close>

text \<open>
  An observation reads a list of facts off a trace, event by event. \<open>observes obs m Q F\<close>: a run
  of \<open>m\<close> adds a list to the observation that satisfies \<open>Q\<close> with its value when it
  returns normally, and \<open>F\<close> otherwise. The rules compose such statements along a program.
\<close>

definition observes ::
  "(event list \<Rightarrow> 'o list) \<Rightarrow> ('e, 'a) io \<Rightarrow> ('a \<Rightarrow> 'o list \<Rightarrow> bool) \<Rightarrow> ('o list \<Rightarrow> bool) \<Rightarrow> bool"
where
  "observes obs m Q F \<longleftrightarrow>
     (\<forall>w r w'. run m w = (r, w') \<longrightarrow>
        (\<exists>xs. obs (trace w') = obs (trace w) @ xs \<and> (case r of Ok a \<Rightarrow> Q a xs | _ \<Rightarrow> F xs)))"

locale observation =
  fixes obs :: "event list \<Rightarrow> 'o list"
  assumes obs_append: "obs (s @ t) = obs s @ obs t"
begin

lemma obs_Nil: "obs [] = []"
  using obs_append [of "[]" "[]"] by simp

lemma obs_silent: "(\<And>e. e \<in> set es \<Longrightarrow> obs [e] = []) \<Longrightarrow> obs es = []"
proof (induction es)
  case Nil
  then show ?case by (simp add: obs_Nil)
next
  case (Cons e es)
  then have "obs [e] = []" "obs es = []" by simp_all
  then show ?case using obs_append [of "[e]" es] by simp
qed

lemma obs_silent_run:
  assumes "emits P m" and "\<And>e. P (ev_call e) \<Longrightarrow> obs [e] = []" and "run m w = (r, w')"
  shows "obs (trace w') = obs (trace w)"
proof -
  obtain es where "trace w' = trace w @ es" "\<forall>e \<in> set es. P (ev_call e)"
    using emitsD [OF assms(1,3)] by blast
  with assms(2) obs_silent [of es] show ?thesis by (simp add: obs_append)
qed

lemma observesI:
  "(\<And>w r w'. run m w = (r, w') \<Longrightarrow>
     \<exists>xs. obs (trace w') = obs (trace w) @ xs \<and> (case r of Ok a \<Rightarrow> Q a xs | _ \<Rightarrow> F xs))
   \<Longrightarrow> observes obs m Q F"
  by (simp add: observes_def)

lemma observesD:
  "observes obs m Q F \<Longrightarrow> run m w = (r, w') \<Longrightarrow>
     \<exists>xs. obs (trace w') = obs (trace w) @ xs \<and> (case r of Ok a \<Rightarrow> Q a xs | _ \<Rightarrow> F xs)"
  by (simp add: observes_def)

lemma observes_weaken:
  assumes "observes obs m Q F" and "\<And>a xs. Q a xs \<Longrightarrow> Q' a xs" and "\<And>xs. F xs \<Longrightarrow> F' xs"
  shows "observes obs m Q' F'"
proof (rule observesI)
  fix w r w'
  assume "run m w = (r, w')"
  then obtain xs where "obs (trace w') = obs (trace w) @ xs"
      and "case r of Ok a \<Rightarrow> Q a xs | _ \<Rightarrow> F xs"
    using observesD [OF assms(1)] by blast
  with assms(2,3) show "\<exists>xs. obs (trace w') = obs (trace w) @ xs \<and> (case r of Ok a \<Rightarrow> Q' a xs | _ \<Rightarrow> F' xs)"
    by (cases r) auto
qed

lemma observes_ret: "Q a [] \<Longrightarrow> observes obs (ret a) Q F"
  and observes_fail: "F [] \<Longrightarrow> observes obs (fail e) Q F"
  and observes_panic: "F [] \<Longrightarrow> observes obs panic Q F"
  by (auto intro!: observesI)

lemma observes_silent:
  assumes "emits P m" and "\<And>e. P (ev_call e) \<Longrightarrow> obs [e] = []" and "\<And>a. Q a []" and "F []"
  shows "observes obs m Q F"
proof (rule observesI)
  fix w r w'
  assume "run m w = (r, w')"
  then have "obs (trace w') = obs (trace w)"
    using assms(1,2) obs_silent_run by blast
  with assms(3,4) show "\<exists>xs. obs (trace w') = obs (trace w) @ xs \<and> (case r of Ok a \<Rightarrow> Q a xs | _ \<Rightarrow> F xs)"
    by (cases r) auto
qed

lemma observes_bnd:
  assumes m: "observes obs m Q F"
    and f: "\<And>a xs. Q a xs \<Longrightarrow> observes obs (f a) (\<lambda>b ys. Q' b (xs @ ys)) (\<lambda>ys. F' (xs @ ys))"
    and F: "\<And>xs. F xs \<Longrightarrow> F' xs"
  shows "observes obs (bnd m f) Q' F'"
proof (rule observesI)
  fix w r w''
  assume run: "run (bnd m f) w = (r, w'')"
  obtain q w' where q: "run m w = (q, w')" by (cases "run m w")
  then obtain xs where xs: "obs (trace w') = obs (trace w) @ xs"
      and Q: "case q of Ok a \<Rightarrow> Q a xs | _ \<Rightarrow> F xs"
    using observesD [OF m] by blast
  show "\<exists>xs. obs (trace w'') = obs (trace w) @ xs \<and> (case r of Ok b \<Rightarrow> Q' b xs | _ \<Rightarrow> F' xs)"
  proof (cases q)
    case (Ok a)
    with run q have "run (f a) w' = (r, w'')" by simp
    moreover from Ok Q have "Q a xs" by simp
    ultimately obtain ys where "obs (trace w'') = obs (trace w') @ ys"
        and "case r of Ok b \<Rightarrow> Q' b (xs @ ys) | _ \<Rightarrow> F' (xs @ ys)"
      using observesD [OF f] by blast
    with xs show ?thesis by (intro exI [of _ "xs @ ys"]) simp
  qed (use run q xs Q F in auto)
qed

lemma observes_seq:
  assumes "observes obs m Q F"
    and "\<And>a xs. Q a xs \<Longrightarrow> observes obs k (\<lambda>b ys. Q' b (xs @ ys)) (\<lambda>ys. F' (xs @ ys))"
    and "\<And>xs. F xs \<Longrightarrow> F' xs"
  shows "observes obs (seq m k) Q' F'"
  unfolding seq_def using assms by (rule observes_bnd)

lemma observes_handle:
  assumes m: "observes obs m Q F"
    and h: "\<And>e xs. F xs \<Longrightarrow> observes obs (h e) (\<lambda>b ys. Q' b (xs @ ys)) (\<lambda>ys. F' (xs @ ys))"
    and Q: "\<And>a xs. Q a xs \<Longrightarrow> Q' a xs"
    and F: "\<And>xs. F xs \<Longrightarrow> F' xs"
  shows "observes obs (handle m h) Q' F'"
proof (rule observesI)
  fix w r w''
  assume run: "run (handle m h) w = (r, w'')"
  obtain q w' where q: "run m w = (q, w')" by (cases "run m w")
  then obtain xs where xs: "obs (trace w') = obs (trace w) @ xs"
      and Qx: "case q of Ok a \<Rightarrow> Q a xs | _ \<Rightarrow> F xs"
    using observesD [OF m] by blast
  show "\<exists>xs. obs (trace w'') = obs (trace w) @ xs \<and> (case r of Ok b \<Rightarrow> Q' b xs | _ \<Rightarrow> F' xs)"
  proof (cases q)
    case (Err e)
    with run q have "run (h e) w' = (r, w'')" by simp
    moreover from Err Qx have "F xs" by simp
    ultimately obtain ys where "obs (trace w'') = obs (trace w') @ ys"
        and "case r of Ok b \<Rightarrow> Q' b (xs @ ys) | _ \<Rightarrow> F' (xs @ ys)"
      using observesD [OF h] by blast
    with xs show ?thesis by (intro exI [of _ "xs @ ys"]) simp
  qed (use run q xs Qx Q F in auto)
qed

text \<open>A loop that observes at most one fact per element, in the order of the list.\<close>

lemma observes_for_each:
  assumes "\<And>x. x \<in> set xs \<Longrightarrow> observes obs (f x) (\<lambda>_ ys. ys = [g x]) (\<lambda>ys. ys = [])"
  shows "observes obs (for_each f xs) (\<lambda>_ ys. ys = map g xs)
     (\<lambda>ys. \<exists>n < length xs. ys = map g (take n xs))"
  using assms
proof (induction xs)
  case Nil
  then show ?case by (simp add: observes_ret)
next
  case (Cons x xs)
  show ?case
    unfolding for_each.simps
  proof (rule observes_seq)
    show "observes obs (f x) (\<lambda>_ ys. ys = [g x]) (\<lambda>ys. ys = [])"
      using Cons.prems by simp
  next
    fix a :: unit and ys
    assume ys: "ys = [g x]"
    show "observes obs (for_each f xs) (\<lambda>_ zs. ys @ zs = map g (x # xs))
        (\<lambda>zs. \<exists>n<length (x # xs). ys @ zs = map g (take n (x # xs)))"
    proof (rule observes_weaken)
      show "observes obs (for_each f xs) (\<lambda>_ ys. ys = map g xs)
          (\<lambda>ys. \<exists>n<length xs. ys = map g (take n xs))"
        using Cons by simp
      fix zs
      assume "\<exists>n<length xs. zs = map g (take n xs)"
      then obtain n where "n < length xs" "zs = map g (take n xs)" by blast
      with ys show "\<exists>n<length (x # xs). ys @ zs = map g (take n (x # xs))"
        by (intro exI [of _ "Suc n"]) simp
    qed (simp add: ys)
  qed (intro exI [of _ 0], simp)
qed

end

text \<open>Observations given event by event.\<close>

lemma map_filter_append [simp]:
  "List.map_filter f (xs @ ys) = List.map_filter f xs @ List.map_filter f ys"
  by (simp add: List.map_filter_def)

lemma map_filter_single [simp]:
  "List.map_filter f [x] = (case f x of None \<Rightarrow> [] | Some y \<Rightarrow> [y])"
  by (simp add: List.map_filter_def split: option.split)

end
