(* ===== verification/Rk_Sample.thy ===== *)
theory Rk_Sample
  imports Rk_System
begin

text \<open>
  A concrete machine on which the model is evaluated: a 64-bit little-endian target whose kernel knows
  every user, holds package files at \<open>/p\<close> and \<open>/tmp/.xxxxxx_pkg\<close> and directories elsewhere, gives out fresh
  descriptors, and lets every call and every command succeed.
\<close>

definition sample_stat :: "syscall \<Rightarrow> errno + ftype" where
  "sample_stat c = (case c of Metadata q \<Rightarrow> Inr (if q = ''/p'' \<or> q = ''/tmp/.xxxxxx_pkg'' then FFile else FDir) | _ \<Rightarrow> Inr FOther)"

definition fd_weight :: "event \<Rightarrow> int" where
  "fd_weight e = (case ev_reply e of RNum n \<Rightarrow> \<bar>n\<bar> | RPair a b \<Rightarrow> \<bar>a\<bar> + \<bar>b\<bar> | RMsg d fs \<Rightarrow> sum_list (map abs fs) | _ \<Rightarrow> 0)"

definition next_fd :: "event list \<Rightarrow> fd" where
  "next_fd t = 1 + sum_list (map fd_weight t)"

lemma next_fd_snoc: "next_fd (t @ [e]) = next_fd t + fd_weight e"
  by (simp add: next_fd_def)

lemma sum_abs_nonneg: "0 \<le> sum_list (map abs xs)" for xs :: "int list"
  by (induction xs) auto

lemma below_sum_abs: "x \<in> set xs \<Longrightarrow> x \<le> sum_list (map abs xs)" for x :: int
proof (induction xs)
  case (Cons y ys)
  have "x = y \<or> x \<le> sum_list (map abs ys)" using Cons by auto
  with sum_abs_nonneg [of ys] show ?case by (simp only: list.map sum_list.Cons) linarith
qed simp

lemma fd_weight_nonneg: "0 \<le> fd_weight e"
  using sum_abs_nonneg by (auto simp: fd_weight_def split: reply.split)

lemma fd_step_weight: "x \<in> fd_step S e \<Longrightarrow> x \<in> S \<or> x \<le> fd_weight e"
  using below_sum_abs by (auto simp: fd_step_def fd_weight_def split: syscall.splits reply.splits)

lemma open_fds_below: "x \<in> open_fds t \<Longrightarrow> x < next_fd t"
proof (induction t rule: rev_induct)
  case (snoc e t)
  have "0 \<le> sum_list (map fd_weight t)" by (intro sum_list_nonneg) (auto simp: fd_weight_nonneg)
  then show ?case
    using snoc fd_step_weight [of x "open_fds t" e] fd_weight_nonneg [of e]
    by (fastforce simp: next_fd_snoc next_fd_def)
qed simp

definition sample_num :: "event list \<Rightarrow> syscall \<Rightarrow> errno + int" where
  "sample_num t c = (case c of
       Open md q \<Rightarrow> Inr (next_fd t)
     | SocketDgram \<Rightarrow> Inr (next_fd t)
     | Clone fl \<Rightarrow> Inr 4242
     | Command args \<Rightarrow> Inr 0
     | _ \<Rightarrow> Inr 1)"

definition sample :: machine where
  "sample = \<lparr>m_bool = \<lambda>t c. True, m_unit = \<lambda>t c. Inr (), m_num = sample_num,
     m_data = \<lambda>t c. Inl EAGAIN, m_text = \<lambda>t c. Inr ''pid:[4026531836]'',
     m_stat = \<lambda>t c. sample_stat c, m_dir = \<lambda>t c. Inr [], m_pair = \<lambda>t c. Inr (3, 4),
     m_from = \<lambda>t c. Inr ([], []), m_wait = \<lambda>t c. Inl ECHILD, m_msg = \<lambda>t c. Inl EAGAIN,
     m_size = \<lambda>t c. Inr (FFile, 0),
     usize_bits = 64, overflow_checks = False, big_endian = False, stack_depth = 8\<rparr>"

definition start :: world where
  "start = \<lparr>trace = [], my_pid = 1000, procname_ctr = 2 ^ 64 - 1, loop_master = None, sem_log = False\<rparr>"

lemma sample_sel [simp]:
  "m_bool sample t c = True" "m_unit sample t c = Inr ()" "m_num sample t c = sample_num t c"
  "m_data sample t c = Inl EAGAIN" "m_text sample t c = Inr ''pid:[4026531836]''"
  "m_stat sample t c = sample_stat c" "m_dir sample t c = Inr []" "m_pair sample t c = Inr (3, 4)"
  "m_wait sample t c = Inl ECHILD" "m_msg sample t c = Inl EAGAIN" "usize_bits sample = 64" "\<not> overflow_checks sample"
  "\<not> big_endian sample" "stack_depth sample = 8"
  by (simp_all add: sample_def)

lemma start_sel [simp]:
  "trace start = []" "my_pid start = 1000" "procname_ctr start = 18446744073709551615"
  "loop_master start = None" "\<not> sem_log start"
  by (simp_all add: start_def)

lemma sample_num_simps [simp]:
  "sample_num t (Open md q) = Inr (next_fd t)"
  "sample_num t SocketDgram = Inr (next_fd t)"
  "sample_num t (Clone fl) = Inr 4242"
  "sample_num t (Command args) = Inr 0"
  "sample_stat (Metadata q) = Inr (if q = ''/p'' \<or> q = ''/tmp/.xxxxxx_pkg'' then FFile else FDir)"
  by (simp_all add: sample_num_def sample_stat_def)

end
