(* ===== verification/Rk_Log.thy ===== *)
theory Rk_Log
  imports Rk_Sample
begin

text \<open>
  Errors of the core crate (\<open>core/src/err.rs\<close>), the error-handling macros
  (\<open>core/src/utils/macros.rs\<close>) and the logging routine \<open>p\<close> with the named semaphore it
  serialises on (\<open>core/src/utils/mod.rs\<close>). An error value keeps its root cause; the chain
  of file and line texts around it is diagnostic only.
\<close>

section \<open>Errors\<close>

datatype core_error =
    Nix errno
  | IoErr errno
  | Sucess
  | SetProcName
  | GetProcName
  | MntProc
  | MntLoop
  | MntOverlay
  | UnshareUser
  | UidInvalid
  | GidInvalid
  | PathInvalid
  | Unknown
  | EmptyValue
  | OptionNone
  | InvalidPath
  | GuardDup

type_synonym 'a core_io = "(core_error, 'a) io"

section \<open>The log semaphore\<close>

text \<open>
  The routines are mutually recursive: a failing semaphore call dies through \<open>pdie\<close>, which
  logs, which takes the semaphore again. They take the logging routine as the argument \<open>lp\<close>;
  \<open>p_at\<close> ties the knot for a given depth of the stack, and running out of stack is \<open>Diverge\<close>.
\<close>

definition perror :: "machine \<Rightarrow> string \<Rightarrow> ('e, unit) io" where
  "perror M prompt =
     seq (sys_unit M (Perror (CHR 0x1B # ''[31;01m'' @ prompt @ CHR 0x1B # ''[00m''))) (ret ())"

text \<open>
  First use of \<open>SEM_LOG\<close> opens the semaphore; a failure there dies through \<open>pdie\<close>,
  which waits for the very initialisation it is part of.
\<close>

definition sem_log_deref :: "machine \<Rightarrow> ('e, unit) io" where
  "sem_log_deref M = with_world (\<lambda>w.
     if sem_log w then ret ()
     else bnd (sys_unit M SemOpen) (\<lambda>r. case r of
         Inl e \<Rightarrow> seq (perror M ''sem_open'') diverge
       | Inr _ \<Rightarrow> modify (\<lambda>w. w\<lparr>sem_log := True\<rparr>)))"

definition get_clocktime :: "machine \<Rightarrow> ('e, unit) io \<Rightarrow> ('e, unit) io" where
  "get_clocktime M lp = bnd (sys_unit M ClockGettime) (\<lambda>r. case r of Inl e \<Rightarrow> lp | Inr _ \<Rightarrow> ret ())"

definition sem_get :: "machine \<Rightarrow> ('e, unit) io \<Rightarrow> ('e, unit) io" where
  "sem_get M lp =
     seq (get_clocktime M lp)
       (bnd (sys_unit M SemTimedwait) (\<lambda>r. case r of
          Inl e \<Rightarrow> if e \<noteq> ETIMEDOUT then seq lp panic else ret ()
        | Inr _ \<Rightarrow> ret ()))"

definition sem_put :: "machine \<Rightarrow> ('e, unit) io \<Rightarrow> ('e, unit) io" where
  "sem_put M lp =
     bnd (sys_unit M SemPost) (\<lambda>r. case r of Inl e \<Rightarrow> seq lp panic | Inr _ \<Rightarrow> ret ())"

definition get_pidns :: "machine \<Rightarrow> u32 \<Rightarrow> string core_io" where
  "get_pidns M pid =
     bnd (sys_text M (Readlink (''/proc/'' @ show_u32 pid @ ''/ns/pid''))) (from_res IoErr)"

section \<open>Logging\<close>

definition log_line :: "machine \<Rightarrow> ('e, unit) io \<Rightarrow> ('e, unit) io" where
  "log_line M lp =
     seq (sem_log_deref M)
       (seq (sem_get M lp)
         (seq (with_world (\<lambda>w. handle (get_pidns M (my_pid w)) (\<lambda>e. panic)))
           (seq (sys_unit M Eprintln)
             (sem_put M lp))))"

primrec p_at :: "nat \<Rightarrow> machine \<Rightarrow> ('e, unit) io" where
  "p_at 0 M = diverge"
| "p_at (Suc n) M = log_line M (p_at n M)"

definition p :: "machine \<Rightarrow> ('e, unit) io" where
  "p M = p_at (stack_depth M) M"

definition pdie :: "machine \<Rightarrow> ('e, 'a) io" where
  "pdie M = seq (p M) panic"

text \<open>\<open>_info!\<close> logs an error and goes on; \<open>pnk!\<close> logs it and panics.\<close>

definition info :: "machine \<Rightarrow> ('e, 'a) io \<Rightarrow> ('f, unit) io" where
  "info M ops = handle (bnd (map_err (\<lambda>_. ()) ops) (\<lambda>_. ret ())) (\<lambda>_. p M)"

definition pnk :: "machine \<Rightarrow> ('e, 'a) io \<Rightarrow> ('f, 'a) io" where
  "pnk M ops = handle ops (\<lambda>_. pdie M)"

section \<open>Facts about logging\<close>

fun log_call :: "syscall \<Rightarrow> bool" where
  "log_call SemOpen = True"
| "log_call SemTimedwait = True"
| "log_call SemPost = True"
| "log_call ClockGettime = True"
| "log_call Eprintln = True"
| "log_call (Perror s) = True"
| "log_call (Readlink s) = True"
| "log_call c = False"

lemma emits_sem_log_deref: "emits log_call (sem_log_deref M)"
  by (auto simp: sem_log_deref_def perror_def intro!: emits_intros)

lemma emits_log_line: "emits log_call lp \<Longrightarrow> emits log_call (log_line M lp)"
  by (auto simp: log_line_def sem_get_def sem_put_def get_clocktime_def get_pidns_def
      intro!: emits_intros emits_sem_log_deref)

lemma emits_p_at: "emits log_call (p_at n M)"
  by (induction n) (simp_all add: emits_diverge emits_log_line)

lemma emits_p: "emits log_call (p M)"
  by (simp add: p_def emits_p_at)

lemma emits_pdie: "emits log_call (pdie M)"
  by (simp add: pdie_def emits_seq emits_panic emits_p)

lemma emits_p_mono [emits_intros]: "(\<And>c. log_call c \<Longrightarrow> P c) \<Longrightarrow> emits P (p M)"
  by (rule emits_mono [OF emits_p])

lemma emits_pdie_mono [emits_intros]: "(\<And>c. log_call c \<Longrightarrow> P c) \<Longrightarrow> emits P (pdie M)"
  by (rule emits_mono [OF emits_pdie])

lemma emits_info [emits_intros]:
  "emits P ops \<Longrightarrow> (\<And>c. log_call c \<Longrightarrow> P c) \<Longrightarrow> emits P (info M ops)"
  by (simp add: info_def emits_handle emits_bnd emits_map_err emits_ret emits_p_mono)

lemma emits_pnk [emits_intros]:
  "emits P ops \<Longrightarrow> (\<And>c. log_call c \<Longrightarrow> P c) \<Longrightarrow> emits P (pnk M ops)"
  by (simp add: pnk_def emits_handle emits_pdie_mono)

text \<open>\<open>p\<close> never returns an error value, and \<open>pdie\<close> never returns.\<close>

lemma no_err_p_at: "no_err (p_at n M)"
  by (induction n)
    (auto simp: log_line_def sem_get_def sem_put_def get_clocktime_def sem_log_deref_def perror_def
      intro!: no_err_intros)

lemma no_err_p [no_err_intros]: "no_err (p M)"
  by (simp add: p_def no_err_p_at)

lemma pdie_cases: "fst (run (pdie M :: ('e, 'a) io) w) = Panic \<or> fst (run (pdie M :: ('e, 'a) io) w) = Diverge"
proof -
  obtain r w' where r: "run (p M :: ('e, unit) io) w = (r, w')"
    by (cases "run (p M :: ('e, unit) io) w")
  show ?thesis
  proof (cases r)
    case (Err e)
    with r no_errD [OF no_err_p, of M w e w'] show ?thesis by simp
  qed (use r in \<open>auto simp: pdie_def\<close>)
qed

lemma pdie_not_Ok [simp]: "run (pdie M) w = (Ok a, w') \<longleftrightarrow> False"
  and pdie_not_Err [simp]: "run (pdie M) w = (Err e, w') \<longleftrightarrow> False"
  by (metis pdie_cases fst_conv outcome.distinct)+

lemma never_returns_pdie: "never_returns (pdie M)"
  by (simp add: never_returns_def pdie_cases)

lemma no_err_pdie [no_err_intros]: "no_err (pdie M)"
  by (rule no_errI) simp

lemma pnk_Ok_iff: "run (pnk M ops) w = (Ok a, w') \<longleftrightarrow> run ops w = (Ok a, w')"
  by (simp add: pnk_def handle_Ok_iff)

lemma pnk_not_Err [simp]: "run (pnk M ops) w = (Err e, w') \<longleftrightarrow> False"
  by (simp add: pnk_def handle_Err_iff)

lemma no_err_pnk [no_err_intros]: "no_err (pnk M ops)"
  by (rule no_errI) simp

lemma no_err_info [no_err_intros]: "no_err (info M ops)"
  unfolding info_def by (intro no_err_handle no_err_p)

section \<open>Does logging return\<close>

lemma p_returns:
  assumes "0 < stack_depth M"
    and "\<And>t. m_unit M t SemOpen = Inr ()" and "\<And>t. m_unit M t ClockGettime = Inr ()"
    and "\<And>t. m_unit M t SemTimedwait \<in> {Inr (), Inl ETIMEDOUT}" and "\<And>t. m_unit M t SemPost = Inr ()"
    and "\<And>t q. \<exists>s. m_text M t (Readlink q) = Inr s"
  shows "\<exists>w'. run (p M :: ('e, unit) io) w = (Ok (), w') \<and> sem_log w'"
proof -
  obtain n where n: "stack_depth M = Suc n" using assms(1) by (cases "stack_depth M") auto
  have open_sem: "\<exists>w1. run (sem_log_deref M :: ('e, unit) io) w = (Ok (), w1) \<and> sem_log w1" for w
    using assms(2) by (cases "sem_log w") (simp_all add: sem_log_deref_def run_bnd)
  have get: "\<exists>w1. run (sem_get M lp :: ('e, unit) io) w = (Ok (), w1) \<and> sem_log w1" if "sem_log w" for w lp
    using assms(4) [of "trace w @ [Ev ClockGettime RUnit]"] assms(3) that
    by (auto simp: sem_get_def get_clocktime_def run_bnd seq_def)
  have pidns: "\<exists>w1. run (with_world (\<lambda>w. handle (get_pidns M (my_pid w)) (\<lambda>e. panic)) :: ('e, string) io) w
      = (Ok s, w1) \<and> sem_log w1" if "sem_log w" "m_text M (trace w) (Readlink (''/proc/'' @ show_u32 (my_pid w) @ ''/ns/pid'')) = Inr s" for w s
    using that by (simp add: get_pidns_def run_bnd run_handle)
  obtain w1 where w1: "run (sem_log_deref M :: ('e, unit) io) w = (Ok (), w1)" "sem_log w1"
    using open_sem by blast
  obtain w2 where w2: "run (sem_get M (p_at n M) :: ('e, unit) io) w1 = (Ok (), w2)" "sem_log w2"
    using get [OF w1(2)] by blast
  obtain s where "m_text M (trace w2) (Readlink (''/proc/'' @ show_u32 (my_pid w2) @ ''/ns/pid'')) = Inr s"
    using assms(6) by blast
  then obtain w3 where w3: "run (with_world (\<lambda>w. handle (get_pidns M (my_pid w)) (\<lambda>e. panic)) :: ('e, string) io) w2
      = (Ok s, w3)" "sem_log w3"
    using pidns [OF w2(2)] by blast
  show ?thesis
    using w1 w2 w3 assms(5) by (auto simp: p_def n log_line_def sem_put_def run_bnd)
qed

text \<open>
  Logging returns. With a kernel on which the semaphore can be opened and posted, the wait for
  it ends (by getting it or by the two-second timeout), the clock is read and the name of the pid
  namespace is read, \<open>p\<close> returns, with one frame of stack.
\<close>

lemma logging_returns:
  assumes "0 < stack_depth M"
    and "\<And>t. m_unit M t SemOpen = Inr ()" and "\<And>t. m_unit M t ClockGettime = Inr ()"
    and "\<And>t. m_unit M t SemTimedwait \<in> {Inr (), Inl ETIMEDOUT}" and "\<And>t. m_unit M t SemPost = Inr ()"
    and "\<And>t q. \<exists>s. m_text M t (Readlink q) = Inr s"
  shows "\<exists>w'. run (p M :: ('e, unit) io) w = (Ok (), w') \<and> sem_log w'"
  using assms by (rule p_returns)

lemma logging_returns_instance:
  "\<exists>w'. run (p sample :: (core_error, unit) io) start = (Ok (), w') \<and> sem_log w'"
  by (rule logging_returns) simp_all

text \<open>
  C40: Logging recurses without end when the semaphore fails. If \<open>sem_timedwait\<close> fails with anything but a
  timeout, \<open>sem_get\<close> dies through \<open>pdie\<close>, which logs, which takes the semaphore: no stack is
  deep enough, and nothing is ever printed.
\<close>

theorem logging_recurses:
  assumes "\<And>t. m_unit M t SemOpen = Inr ()" and "\<And>t. m_unit M t ClockGettime = Inr ()"
    and "\<And>t. m_unit M t SemTimedwait = Inl e" and "e \<noteq> ETIMEDOUT"
  shows "fst (run (p M :: ('e, unit) io) w) = Diverge
    \<and> Eprintln \<notin> set (new_calls w (snd (run (p M :: ('e, unit) io) w)))"
proof -
  have "\<exists>w' es. run (p_at n M :: ('e, unit) io) w = (Diverge, w') \<and> trace w' = trace w @ es
      \<and> Eprintln \<notin> ev_call ` set es" for n
  proof (induction n arbitrary: w)
    case (Suc n)
    obtain w1 es1 where w1: "run (sem_log_deref M :: ('e, unit) io) w = (Ok (), w1)"
        "trace w1 = trace w @ es1" "Eprintln \<notin> ev_call ` set es1"
      using assms(1) by (cases "sem_log w") (simp_all add: sem_log_deref_def run_bnd)
    define w2 where "w2 = emit SemTimedwait (RErr e) (emit ClockGettime RUnit w1)"
    obtain w3 es3 where w3: "run (p_at n M :: ('e, unit) io) w2 = (Diverge, w3)"
        "trace w3 = trace w2 @ es3" "Eprintln \<notin> ev_call ` set es3"
      using Suc.IH by blast
    have "run (sem_get M (p_at n M) :: ('e, unit) io) w1 = (Diverge, w3)"
      using assms(2-4) w3(1) by (simp add: sem_get_def get_clocktime_def run_bnd seq_def w2_def)
    with w1 w3 show ?case by (simp add: log_line_def w2_def image_Un)
  qed simp
  from this [of "stack_depth M"] show ?thesis by (auto simp: p_def new_calls_ext)
qed

theorem logging_recurses_witness:
  "fst (run (p (sample\<lparr>m_unit := \<lambda>t c. if c = SemTimedwait then Inl 4 else Inr ()\<rparr>) :: (core_error, unit) io) start) = Diverge"
  by (rule conjunct1 [OF logging_recurses [where e = 4]]) (simp_all add: ETIMEDOUT_def)

end
