(* ===== verification/Rk_Utils.thy ===== *)
theory Rk_Utils
  imports Rk_Log
begin

text \<open>
  The helpers of \<open>core/src/utils/mod.rs\<close> beside logging: the datagram socket pair, the
  receive with a timeout, mounting, sleeping and killing. A receive buffer is passed in and returned
  as a value; its length never changes.
\<close>

definition kill_SIGKILL :: "machine \<Rightarrow> u32 \<Rightarrow> ('e, unit) io" where
  "kill_SIGKILL M pid = seq (sys_unit M (Kill pid)) (ret ())"

definition unix_dgram_socketpair :: "machine \<Rightarrow> (fd \<times> fd) core_io" where
  "unix_dgram_socketpair M = bnd (sys_pair M Socketpair) (from_res Nix)"

definition mountx ::
  "machine \<Rightarrow> path option \<Rightarrow> path \<Rightarrow> string option \<Rightarrow> msflag set \<Rightarrow> string option \<Rightarrow> unit core_io"
where
  "mountx M src dst fstype flags data =
     bnd (sys_unit M (Mount src dst fstype flags data)) (from_res Nix)"

definition mount_dynfs_proc :: "machine \<Rightarrow> unit core_io" where
  "mount_dynfs_proc M =
     mountx M (Some ''proc'') ''/proc'' (Some ''proc'') {MS_NODEV, MS_NOEXEC, MS_NOSUID, MS_RELATIME} None"

definition sleep :: "machine \<Rightarrow> nat \<Rightarrow> ('e, unit) io" where
  "sleep M secs = seq (sys_unit M (Sleep secs)) (ret ())"

text \<open>
  \<open>poll_any\<close>: the timeout in milliseconds is an \<open>i32\<close> product. The number of ready
  descriptors is dropped: a timeout (0) is not an error.
\<close>

definition poll_any :: "machine \<Rightarrow> fd list \<Rightarrow> pollflag set \<Rightarrow> u32 \<Rightarrow> unit core_io" where
  "poll_any M fds flags timeout_secs =
     (if overflow_checks M \<and> sint timeout_secs * 1000 \<notin> {- (2 ^ 31)..<2 ^ 31} then panic
      else bnd (sys_num M (Poll fds flags (sint (timeout_secs * 1000)))) (\<lambda>r. seq (from_res Nix r) (ret ())))"

definition poll_in :: "machine \<Rightarrow> fd list \<Rightarrow> u32 \<Rightarrow> unit core_io" where
  "poll_in M fds timeout_secs = poll_any M fds {POLLIN} timeout_secs"

text \<open>Two variants that are compiled only under a configuration key.\<close>

definition poll_out :: "machine \<Rightarrow> fd list \<Rightarrow> u32 \<Rightarrow> unit core_io" where
  "poll_out M fds timeout_secs = poll_any M fds {POLLOUT} timeout_secs"

definition poll_io :: "machine \<Rightarrow> fd list \<Rightarrow> u32 \<Rightarrow> unit core_io" where
  "poll_io M fds timeout_secs = poll_any M fds {POLLIN, POLLOUT} timeout_secs"

definition fill :: "bytes \<Rightarrow> bytes \<Rightarrow> bytes" where
  "fill buf d = take (length buf) d @ drop (length d) buf"

definition recv_dontwait :: "machine \<Rightarrow> fd \<Rightarrow> bytes \<Rightarrow> (core_error, errno + bytes) io" where
  "recv_dontwait M fd buf =
     bnd (sys_data M (Recv fd (length buf))) (\<lambda>r. ret (map_sum id (fill buf) r))"

definition recv_timed :: "machine \<Rightarrow> fd \<Rightarrow> bytes \<Rightarrow> u32 \<Rightarrow> bytes core_io" where
  "recv_timed M fd buf timeout_secs =
     bnd (recv_dontwait M fd buf) (\<lambda>r. case r of
         Inr buf' \<Rightarrow> ret buf'
       | Inl e \<Rightarrow>
           if e = EAGAIN
           then seq (poll_in M [fd] timeout_secs) (bnd (recv_dontwait M fd buf) (from_res Nix))
           else fail Unknown)"

section \<open>Facts\<close>

lemma length_fill [simp]: "length (fill buf d) = length buf"
  by (simp add: fill_def)

lemma fill_exact [simp]: "length d = length buf \<Longrightarrow> fill buf d = d"
  by (simp add: fill_def)

lemma run_kill_SIGKILL [simp]:
  "run (kill_SIGKILL M pid) w
     = (Ok (), emit (Kill pid) (res_reply (\<lambda>_. RUnit) (m_unit M (trace w) (Kill pid))) w)"
  by (simp add: kill_SIGKILL_def)

lemma run_sleep [simp]:
  "run (sleep M n) w
     = (Ok (), emit (Sleep n) (res_reply (\<lambda>_. RUnit) (m_unit M (trace w) (Sleep n))) w)"
  by (simp add: sleep_def)

lemma mountx_Ok_iff:
  "run (mountx M src dst fs fl d) w = (Ok u, w') \<longleftrightarrow>
     m_unit M (trace w) (Mount src dst fs fl d) = Inr ()
     \<and> w' = emit (Mount src dst fs fl d) RUnit w"
  by (auto simp: mountx_def run_iffs from_res_Ok_iff)

lemma mountx_Err_iff:
  "run (mountx M src dst fs fl d) w = (Err e, w') \<longleftrightarrow>
     (\<exists>n. m_unit M (trace w) (Mount src dst fs fl d) = Inl n \<and> e = Nix n
        \<and> w' = emit (Mount src dst fs fl d) (RErr n) w)"
  by (auto simp: mountx_def run_iffs from_res_Err_iff)

lemma emits_utils [emits_intros]:
  "P (Kill pid) \<Longrightarrow> emits P (kill_SIGKILL M pid)"
  "P Socketpair \<Longrightarrow> emits P (unix_dgram_socketpair M)"
  "P (Mount src dst fs fl d) \<Longrightarrow> emits P (mountx M src dst fs fl d)"
  "P (Sleep n) \<Longrightarrow> emits P (sleep M n)"
  by (auto simp: kill_SIGKILL_def unix_dgram_socketpair_def mountx_def sleep_def intro!: emits_intros)

lemma emits_mount_dynfs_proc [emits_intros]:
  "(\<And>src dst fs fl d. P (Mount src dst fs fl d)) \<Longrightarrow> emits P (mount_dynfs_proc M)"
  by (simp add: mount_dynfs_proc_def emits_utils)

lemma emits_recv_timed [emits_intros]:
  "(\<And>n. P (Recv fd n)) \<Longrightarrow> (\<And>fds fl n. P (Poll fds fl n)) \<Longrightarrow> emits P (recv_timed M fd buf secs)"
  by (auto simp: recv_timed_def recv_dontwait_def poll_in_def poll_any_def intro!: emits_intros)

lemma recv_dontwait_length:
  "run (recv_dontwait M fd buf) v = (Ok (Inr b), v') \<Longrightarrow> length b = length buf"
  by (cases "m_data M (trace v) (Recv fd (length buf))") (auto simp: recv_dontwait_def)

lemma recv_timed_length:
  "run (recv_timed M fd buf secs) w = (Ok buf', w') \<Longrightarrow> length buf' = length buf"
  by (auto simp: recv_timed_def run_iffs run_cases from_res_Ok_iff dest: recv_dontwait_length)

text \<open>
  What \<open>poll\<close> found is dropped: the three variants return in the same way whether a descriptor is ready or the
  time is over, on a timeout that fits.
\<close>

lemma poll_any_blind:
  assumes "sint secs * 1000 \<in> {- (2 ^ 31)..<2 ^ 31}" and "m_num M (trace w) (Poll fds fl (sint (secs * 1000))) = Inr n"
  shows "fst (run (poll_any M fds fl secs) w) = Ok ()"
  using assms by (simp add: poll_any_def run_bnd seq_def)

text \<open>
  The receive with a timeout waits at most once, for the given time; what it returns is what
  the second receive gives, and it fails exactly where no datagram is there by then.
\<close>

lemma run_recv_timed:
  assumes "\<not> overflow_checks M \<or> sint secs * 1000 \<in> {- (2 ^ 31)..<2 ^ 31}"
  shows "run (recv_timed M fd buf secs) w =
    (let c = Recv fd (length buf); r1 = m_data M (trace w) c; w1 = emit c (res_reply RData r1) w
     in case r1 of
          Inr d \<Rightarrow> (Ok (fill buf d), w1)
        | Inl e \<Rightarrow>
            if e \<noteq> EAGAIN then (Err Unknown, w1)
            else
              let q = Poll [fd] {POLLIN} (sint (secs * 1000)); r2 = m_num M (trace w1) q;
                  w2 = emit q (res_reply RNum r2) w1
              in case r2 of
                   Inl e \<Rightarrow> (Err (Nix e), w2)
                 | Inr _ \<Rightarrow>
                     let r3 = m_data M (trace w2) c; w3 = emit c (res_reply RData r3) w2
                     in case r3 of Inl e \<Rightarrow> (Err (Nix e), w3) | Inr d \<Rightarrow> (Ok (fill buf d), w3))"
  using assms
  by (auto simp: recv_timed_def recv_dontwait_def poll_in_def poll_any_def run_bnd seq_def Let_def
      split: sum.splits)

lemma poll_two_seconds [simp]: "sint (2 * 1000 :: u32) = 2000" "sint (2 :: u32) = 2"
  by simp_all

text \<open>
  The receive with a timeout is bounded. Whatever the kernel answers, it makes at most two receives on the
  given descriptor and one poll of it, for the given time, and never writes outside its buffer; a
  machine of default build returns a value or an error.
\<close>

lemma recv_timed_bounded:
  assumes "run (recv_timed M fd buf secs) w = (r, w')" and "\<not> overflow_checks M"
  shows "new_calls w w' \<in> {[Recv fd (length buf)],
        [Recv fd (length buf), Poll [fd] {POLLIN} (sint (secs * 1000))],
        [Recv fd (length buf), Poll [fd] {POLLIN} (sint (secs * 1000)), Recv fd (length buf)]}
    \<and> r \<noteq> Panic \<and> r \<noteq> Diverge \<and> (\<forall>b. r = Ok b \<longrightarrow> length b = length buf)"
  using assms(1) run_recv_timed [of M secs fd buf w] assms(2)
  by (auto simp: Let_def new_calls_ext split: sum.splits if_splits)

lemma recv_timed_bounded_instance:
  "\<exists>r w'. run (recv_timed sample 3 [0, 0, 0, 0] 2) start = (r, w') \<and> r \<noteq> Panic \<and> r \<noteq> Diverge"
proof -
  obtain r w' where "run (recv_timed sample 3 [0, 0, 0, 0] 2) start = (r, w')"
    by (cases "run (recv_timed sample 3 [0, 0, 0, 0] 2) start")
  with recv_timed_bounded [OF this] show ?thesis by simp
qed

end
