(* ===== verification/Rk_Loop.thy ===== *)
theory Rk_Loop
  imports Rk_Utils
begin

text \<open>
  Loop devices (\<open>core/src/loop/mod.rs\<close>, \<open>core/src/loop/metal.rs\<close>): the four ioctls with
  their request numbers, the lazily opened control device \<open>LOOP_MASTER\<close>, and the operations on
  top of them. A loop id is an \<open>i32\<close>.
\<close>

definition LOOP_SET_FD :: nat where "LOOP_SET_FD = 19456"
definition LOOP_CLR_FD :: nat where "LOOP_CLR_FD = 19457"
definition LOOP_CTL_GET_FREE :: nat where "LOOP_CTL_GET_FREE = 19586"
definition LOOP_CTL_REMOVE :: nat where "LOOP_CTL_REMOVE = 19585"

lemmas loop_requests = LOOP_SET_FD_def LOOP_CLR_FD_def LOOP_CTL_GET_FREE_def LOOP_CTL_REMOVE_def

section \<open>The ioctls\<close>

definition loop_ctl_open :: "machine \<Rightarrow> fd core_io" where
  "loop_ctl_open M = bnd (sys_num M (Open RdWr ''/dev/loop-control'')) (from_res IoErr)"

text \<open>Compiled only under a configuration key, and called by nothing.\<close>

definition loop_open :: "machine \<Rightarrow> i32 \<Rightarrow> fd core_io" where
  "loop_open M lid = bnd (sys_num M (Open RdOnly (''/dev/loop'' @ show_i32 lid))) (from_res IoErr)"

definition loop_ctl_get_free :: "machine \<Rightarrow> fd \<Rightarrow> i32 core_io" where
  "loop_ctl_get_free M loop_ctl_fd =
     bnd (sys_num M (Ioctl loop_ctl_fd LOOP_CTL_GET_FREE 0)) (\<lambda>r. from_res Nix (map_sum id word_of_int r))"

definition loop_bind :: "machine \<Rightarrow> fd \<Rightarrow> fd \<Rightarrow> unit core_io" where
  "loop_bind M loop_fd backing_fd =
     bnd (sys_num M (Ioctl loop_fd LOOP_SET_FD backing_fd)) (\<lambda>r. from_res Nix (map_sum id (\<lambda>_. ()) r))"

definition metal_loop_unbind :: "machine \<Rightarrow> fd \<Rightarrow> unit core_io" where
  "metal_loop_unbind M loop_fd =
     bnd (sys_num M (Ioctl loop_fd LOOP_CLR_FD 0)) (\<lambda>r. from_res Nix (map_sum id (\<lambda>_. ()) r))"

definition metal_loop_ctl_remove :: "machine \<Rightarrow> fd \<Rightarrow> i32 \<Rightarrow> unit core_io" where
  "metal_loop_ctl_remove M loop_ctl_fd lid =
     bnd (sys_num M (Ioctl loop_ctl_fd LOOP_CTL_REMOVE (sint lid)))
       (\<lambda>r. from_res Nix (map_sum id (\<lambda>_. ()) r))"

section \<open>Operations on loop devices\<close>

text \<open>The control device is opened at the first use in a process and kept open.\<close>

definition LOOP_MASTER :: "machine \<Rightarrow> ('e, fd) io" where
  "LOOP_MASTER M = with_world (\<lambda>w. case loop_master w of
       Some fd \<Rightarrow> ret fd
     | None \<Rightarrow> bnd (pnk M (loop_ctl_open M))
         (\<lambda>fd. seq (modify (\<lambda>w. w\<lparr>loop_master := Some fd\<rparr>)) (ret fd)))"

definition loop_dev_path :: "i32 \<Rightarrow> path" where
  "loop_dev_path lid = ''/dev/loop'' @ show_i32 lid"

definition bind_pkg :: "machine \<Rightarrow> fd \<Rightarrow> fd \<Rightarrow> unit core_io" where
  "bind_pkg M loop_fd backing_fd = loop_bind M loop_fd backing_fd"

definition get_loop_dev :: "machine \<Rightarrow> (path \<times> i32) core_io" where
  "get_loop_dev M =
     bnd (LOOP_MASTER M) (\<lambda>ctl. bnd (loop_ctl_get_free M ctl) (\<lambda>lid. ret (loop_dev_path lid, lid)))"

definition loop_unbind :: "machine \<Rightarrow> fd \<Rightarrow> unit core_io" where
  "loop_unbind M loop_fd = metal_loop_unbind M loop_fd"

definition loop_ctl_remove :: "machine \<Rightarrow> fd \<Rightarrow> i32 \<Rightarrow> unit core_io" where
  "loop_ctl_remove M loop_ctl_fd lid = metal_loop_ctl_remove M loop_ctl_fd lid"

definition loop_destroy :: "machine \<Rightarrow> i32 \<Rightarrow> unit core_io" where
  "loop_destroy M lid = bnd (LOOP_MASTER M) (\<lambda>ctl. loop_ctl_remove M ctl lid)"

section \<open>Facts\<close>

lemma show_i32_inj: "show_i32 x = show_i32 y \<longleftrightarrow> x = y"
proof -
  have neg: "hd (show_i32 z) = CHR ''-'' \<longleftrightarrow> sint z < 0" for z :: i32
  proof (cases "sint z < 0")
    case False
    obtain c cs where "show_nat (nat (sint z)) = c # cs"
      using show_nat_nonempty by (cases "show_nat (nat (sint z))") auto
    with False show_nat_plain [of c "nat (sint z)"] show ?thesis
      by (simp add: show_i32_def)
  qed (simp add: show_i32_def)
  have bnd: "nat (sint z) < 2 ^ 32" "nat (- sint z) < 2 ^ 32" for z :: i32
    using sint_range_size [of z] by (auto simp: word_size)
  have "sint x = sint y" if eq: "show_i32 x = show_i32 y"
  proof -
    from eq neg have sgn: "sint x < 0 \<longleftrightarrow> sint y < 0" by metis
    show ?thesis
    proof (cases "sint x < 0")
      case True
      with sgn eq have "show_nat (nat (- sint x)) = show_nat (nat (- sint y))"
        by (simp add: show_i32_def)
      with bnd have "nat (- sint x) = nat (- sint y)"
        by (simp only: show_nat_inj_bounded)
      with True sgn show ?thesis by simp
    next
      case False
      with sgn eq have "show_nat (nat (sint x)) = show_nat (nat (sint y))"
        by (simp add: show_i32_def)
      with bnd have "nat (sint x) = nat (sint y)"
        by (simp only: show_nat_inj_bounded)
      with False sgn show ?thesis by simp
    qed
  qed
  then show ?thesis by (auto intro: signed_word_eqI)
qed

lemma loop_dev_path_inj: "loop_dev_path x = loop_dev_path y \<longleftrightarrow> x = y"
  by (simp add: loop_dev_path_def show_i32_inj)

fun loop_call :: "syscall \<Rightarrow> bool" where
  "loop_call (Ioctl fd r a) = True"
| "loop_call (Open md q) = True"
| "loop_call c = log_call c"

lemma emits_LOOP_MASTER [emits_intros]:
  "P (Open RdWr ''/dev/loop-control'') \<Longrightarrow> (\<And>c. log_call c \<Longrightarrow> P c) \<Longrightarrow> emits P (LOOP_MASTER M)"
  by (auto simp: LOOP_MASTER_def loop_ctl_open_def intro!: emits_intros)

lemma emits_loop [emits_intros]:
  "(\<And>a. P (Ioctl fd LOOP_SET_FD a)) \<Longrightarrow> emits P (bind_pkg M fd bk)"
  "(\<And>a. P (Ioctl fd LOOP_CLR_FD a)) \<Longrightarrow> emits P (loop_unbind M fd)"
  by (auto simp: bind_pkg_def loop_bind_def loop_unbind_def metal_loop_unbind_def intro!: emits_intros)

lemma emits_get_loop_dev [emits_intros]:
  "P (Open RdWr ''/dev/loop-control'') \<Longrightarrow> (\<And>fd a. P (Ioctl fd LOOP_CTL_GET_FREE a)) \<Longrightarrow>
   (\<And>c. log_call c \<Longrightarrow> P c) \<Longrightarrow> emits P (get_loop_dev M)"
  by (auto simp: get_loop_dev_def loop_ctl_get_free_def intro!: emits_intros)

lemma emits_loop_destroy [emits_intros]:
  "P (Open RdWr ''/dev/loop-control'') \<Longrightarrow> (\<And>fd a. P (Ioctl fd LOOP_CTL_REMOVE a)) \<Longrightarrow>
   (\<And>c. log_call c \<Longrightarrow> P c) \<Longrightarrow> emits P (loop_destroy M lid)"
  by (auto simp: loop_destroy_def loop_ctl_remove_def metal_loop_ctl_remove_def intro!: emits_intros)

lemma LOOP_MASTER_opened [simp]: "loop_master w = Some fd \<Longrightarrow> run (LOOP_MASTER M) w = (Ok fd, w)"
  by (simp add: LOOP_MASTER_def)

lemma LOOP_MASTER_Ok_keeps:
  "run (LOOP_MASTER M) w = (Ok fd, w') \<Longrightarrow> loop_master w' = Some fd"
  by (auto simp: LOOP_MASTER_def run_iffs pnk_Ok_iff split: option.splits)

lemma LOOP_MASTER_not_Err [simp]: "run (LOOP_MASTER M) w = (Err e, w') \<longleftrightarrow> False"
  by (auto simp: LOOP_MASTER_def run_iffs split: option.splits)

end
