(* ===== verification/Rk_Cfg.thy ===== *)
theory Rk_Cfg
  imports Rk_Loop
begin

text \<open>
  The configuration record \<open>RockerCfg\<close> of \<open>core/src/master.rs\<close>: its construction with the
  checks of the caller's values, the process-wide counter the guard names come from, and the name
  a guard gives itself. The guard's stack, whose contents are never read, is its size.
\<close>

section \<open>The record and its construction\<close>

definition STACK_SIZ :: nat where "STACK_SIZ = 2 * 1024 * 1024 div 16 * 16"

record rocker_cfg =
  app_id :: u32
  uid :: u32
  gid :: "u32 option"
  app_pkg_path :: path
  app_exec_dir :: path
  app_data_dir :: path
  app_overlay_dirs :: "path list"
  guard_pid :: "u32 option"
  guard_pname :: u128
  guard_stack :: "nat option"
  guard_loop_id :: "i32 option"

text \<open>\<open>GUARD_PROCNAME\<close> starts at the largest \<open>usize\<close>; \<open>fetch_sub\<close> returns the old value and wraps.\<close>

definition procname_init :: "machine \<Rightarrow> nat" where
  "procname_init M = 2 ^ usize_bits M - 1"

definition procname_next :: "machine \<Rightarrow> nat \<Rightarrow> nat" where
  "procname_next M c = (c + (2 ^ usize_bits M - 1)) mod 2 ^ usize_bits M"

definition fetch_sub_procname :: "machine \<Rightarrow> ('e, nat) io" where
  "fetch_sub_procname M = with_world (\<lambda>w.
     seq (modify (\<lambda>w. w\<lparr>procname_ctr := procname_next M (procname_ctr w)\<rparr>)) (ret (procname_ctr w)))"

definition check_uid :: "machine \<Rightarrow> rocker_cfg \<Rightarrow> unit core_io" where
  "check_uid M cfg =
     bnd (sys_bool M (Getpwuid (uid cfg))) (\<lambda>known. if \<not> known then fail UidInvalid else ret ())"

definition check_gid :: "machine \<Rightarrow> rocker_cfg \<Rightarrow> unit core_io" where
  "check_gid M cfg = (case gid cfg of
       None \<Rightarrow> ret ()
     | Some g \<Rightarrow> bnd (sys_bool M (Getgrgid g)) (\<lambda>known. if \<not> known then fail UidInvalid else ret ()))"

definition check_dir :: "machine \<Rightarrow> path \<Rightarrow> unit core_io" where
  "check_dir M q = bnd (sys_stat M (Metadata q)) (\<lambda>r. case r of
       Inr k \<Rightarrow> if k \<noteq> FDir then fail PathInvalid else ret ()
     | Inl _ \<Rightarrow> bnd (sys_unit M (CreateDirAll q)) (from_res IoErr))"

definition check_path :: "machine \<Rightarrow> rocker_cfg \<Rightarrow> unit core_io" where
  "check_path M cfg =
     seq (for_each (check_dir M) [app_exec_dir cfg, app_data_dir cfg])
       (bnd (sys_stat M (Metadata (app_pkg_path cfg))) (\<lambda>r.
          bnd (from_res IoErr r) (\<lambda>k. if k \<noteq> FFile then fail PathInvalid else ret ())))"

definition cfg_new ::
  "machine \<Rightarrow> u32 \<Rightarrow> u32 \<Rightarrow> u32 option \<Rightarrow> path \<Rightarrow> path \<Rightarrow> path \<Rightarrow> path list \<Rightarrow> rocker_cfg core_io"
where
  "cfg_new M aid u g pkg exe dat ovl =
     bnd (fetch_sub_procname M) (\<lambda>n.
       let cfg = \<lparr>app_id = aid, uid = u, gid = g, app_pkg_path = pkg, app_exec_dir = exe,
             app_data_dir = dat, app_overlay_dirs = ovl, guard_pid = None,
             guard_pname = word_of_nat n, guard_stack = None, guard_loop_id = None\<rparr>
       in seq (check_uid M cfg) (seq (check_gid M cfg) (seq (check_path M cfg) (ret cfg))))"

text \<open>A configuration on which the model is evaluated.\<close>

definition sample_cfg :: rocker_cfg where
  "sample_cfg = \<lparr>app_id = 7, uid = 1000, gid = Some 1000, app_pkg_path = ''/p'', app_exec_dir = ''/x'',
     app_data_dir = ''/d'', app_overlay_dirs = [''/usr''], guard_pid = None, guard_pname = 5,
     guard_stack = None, guard_loop_id = None\<rparr>"

section \<open>Getters\<close>

definition get_guard_pid :: "rocker_cfg \<Rightarrow> u32 core_io" where
  "get_guard_pid cfg = from_opt Unknown (guard_pid cfg)"

definition get_guard_pname :: "rocker_cfg \<Rightarrow> u128" where
  "get_guard_pname cfg = guard_pname cfg"

section \<open>The name a guard gives itself\<close>

definition guard_name_bytes :: "bool \<Rightarrow> u128 \<Rightarrow> bytes" where
  "guard_name_bytes be n =
     (map (\<lambda>b. if b = 0 then 1 else b) (u128_to_ne_bytes be n))[15 := 0]"

definition guard_set_self_name :: "machine \<Rightarrow> rocker_cfg \<Rightarrow> rocker_cfg core_io" where
  "guard_set_self_name M cfg =
     (let name = guard_name_bytes (big_endian M) (guard_pname cfg)
      in bnd (sys_unit M (PrctlSetName name)) (\<lambda>r. case r of
           Inl _ \<Rightarrow> fail SetProcName
         | Inr _ \<Rightarrow> ret (cfg\<lparr>guard_pname := u128_from_ne_bytes (big_endian M) name\<rparr>)))"

section \<open>Facts about construction\<close>

lemma check_dir_Ok_iff:
  "(\<exists>w'. run (check_dir M q) w = (Ok (), w')) \<longleftrightarrow>
     m_stat M (trace w) (Metadata q) = Inr FDir
     \<or> (\<exists>e. m_stat M (trace w) (Metadata q) = Inl e
          \<and> m_unit M (trace w @ [Ev (Metadata q) (RErr e)]) (CreateDirAll q) = Inr ())"
  by (auto simp: check_dir_def run_iffs run_cases from_res_Ok_iff)

fun cfg_call :: "syscall \<Rightarrow> bool" where
  "cfg_call (Getpwuid u) = True"
| "cfg_call (Getgrgid g) = True"
| "cfg_call (Metadata q) = True"
| "cfg_call (CreateDirAll q) = True"
| "cfg_call c = False"

lemma emits_checks [emits_intros]:
  "(\<And>u. P (Getpwuid u)) \<Longrightarrow> emits P (check_uid M cfg)"
  "(\<And>g. P (Getgrgid g)) \<Longrightarrow> emits P (check_gid M cfg)"
  "(\<And>q. P (Metadata q)) \<Longrightarrow> (\<And>q. P (CreateDirAll q)) \<Longrightarrow> emits P (check_dir M q)"
  "(\<And>q. P (Metadata q)) \<Longrightarrow> (\<And>q. P (CreateDirAll q)) \<Longrightarrow> emits P (check_path M cfg)"
  by (auto simp: check_uid_def check_gid_def check_dir_def check_path_def intro!: emits_intros
      simp del: for_each.simps)

lemma emits_fetch_sub_procname [emits_intros]: "emits P (fetch_sub_procname M)"
  by (auto simp: fetch_sub_procname_def intro!: emits_intros)

lemma emits_cfg_new [emits_intros]:
  "(\<And>c. cfg_call c \<Longrightarrow> P c) \<Longrightarrow> emits P (cfg_new M aid u g pkg exe dat ovl)"
  by (auto simp: cfg_new_def Let_def intro!: emits_intros)

lemma settles_checks [settles_intros]:
  "settles (check_uid M cfg)" "settles (check_gid M cfg)" "settles (check_dir M q)" "settles (check_path M cfg)"
proof -
  show dir: "settles (check_dir M q)" for q
    unfolding check_dir_def by (intro settles_intros)
  show "settles (check_uid M cfg)" "settles (check_gid M cfg)"
    unfolding check_uid_def check_gid_def by (intro settles_intros)+
  show "settles (check_path M cfg)"
    unfolding check_path_def by (intro settles_intros dir)
qed

lemma settles_cfg_new [settles_intros]: "settles (cfg_new M aid u g pkg exe dat ovl)"
  unfolding cfg_new_def fetch_sub_procname_def Let_def by (intro settles_intros)

lemma cfg_new_fields:
  assumes "run (cfg_new M aid u g pkg exe dat ovl) w = (Ok cfg, w')"
  shows "cfg = \<lparr>app_id = aid, uid = u, gid = g, app_pkg_path = pkg, app_exec_dir = exe,
      app_data_dir = dat, app_overlay_dirs = ovl, guard_pid = None,
      guard_pname = word_of_nat (procname_ctr w), guard_stack = None, guard_loop_id = None\<rparr>"
  using assms by (auto simp: cfg_new_def fetch_sub_procname_def run_iffs Let_def)

lemma check_uid_world: "run (check_uid M cfg) w = (r, w') \<Longrightarrow> procname_ctr w' = procname_ctr w"
  by (auto simp: check_uid_def run_bnd split: if_splits)

section \<open>Facts about names\<close>

lemma length_guard_name_bytes [simp]: "length (guard_name_bytes be n) = 16"
  by (simp add: guard_name_bytes_def)

lemma guard_name_text:
  "c_text (guard_name_bytes be n)
     = map (\<lambda>b. if b = 0 then 1 else b) (take 15 (u128_to_ne_bytes be n))"
proof -
  let ?bs = "u128_to_ne_bytes be n" and ?f = "\<lambda>b::u8. if b = 0 then 1 else b"
  have "guard_name_bytes be n = take 15 (map ?f ?bs) @ 0 # drop 16 (map ?f ?bs)"
    by (simp add: guard_name_bytes_def upd_conv_take_nth_drop)
  moreover have "0 \<notin> set (take 15 (map ?f ?bs))"
    by (auto simp: take_map)
  ultimately show ?thesis
    by (simp add: c_text_stop take_map)
qed

lemma length_guard_name_text: "length (c_text (guard_name_bytes be n)) = 15"
  by (simp add: guard_name_text)

text \<open>
  What a reader of a reply sees of a counter value: a \<open>usize\<close> of at most eight bytes fills the low
  half of the \<open>u128\<close>, so its text has at most eight bytes.
\<close>

lemma le_bytes_zero: "le_bytes n 0 = replicate n 0"
  by (induction n) auto

lemma le_bytes_add: "le_bytes (m + n) v = le_bytes m v @ le_bytes n (v div 256 ^ m)"
  by (induction m arbitrary: v) (auto simp: div_mult2_eq)

lemma u128_bytes_of_usize:
  assumes "c < 2 ^ 64"
  shows "u128_to_ne_bytes be (word_of_nat c)
    = (if be then replicate 8 0 @ rev (le_bytes 8 c) else le_bytes 8 c @ replicate 8 0)"
proof -
  have c: "unat (word_of_nat c :: u128) = c"
    using assms by (simp add: unsigned_of_nat take_bit_nat_eq_self)
  have "le_bytes 16 c = le_bytes 8 c @ le_bytes 8 (c div 256 ^ 8)"
    using le_bytes_add [of 8 8 c] by simp
  then have "le_bytes 16 c = le_bytes 8 c @ replicate 8 0"
    using assms by (simp add: le_bytes_zero)
  then show ?thesis
    by (simp add: u128_to_ne_bytes_def c ne_bytes_def)
qed

lemma length_c_text_le: "length (c_text (xs @ 0 # ys)) \<le> length xs"
proof -
  have "c_text (xs @ 0 # ys) = takeWhile (\<lambda>b. b \<noteq> 0) xs"
    by (induction xs) (auto simp: c_text_def)
  then show ?thesis by (simp add: length_takeWhile_le)
qed

lemma replicate_8: "(replicate 8 0 :: bytes) = 0 # replicate 7 0"
  by (simp add: numeral_eq_Suc)

lemma length_c_text_usize:
  assumes "c < 2 ^ 64"
  shows "length (c_text (u128_to_ne_bytes be (word_of_nat c))) \<le> 8"
proof (cases be)
  case True
  then have "u128_to_ne_bytes be (word_of_nat c) = [] @ 0 # replicate 7 0 @ rev (le_bytes 8 c)"
    using u128_bytes_of_usize [OF assms, of be] by (simp add: replicate_8)
  then show ?thesis using length_c_text_le [of "[]"] by simp
next
  case False
  then have "u128_to_ne_bytes be (word_of_nat c) = le_bytes 8 c @ 0 # replicate 7 0"
    using u128_bytes_of_usize [OF assms, of be] by (simp add: replicate_8)
  then show ?thesis using length_c_text_le [of "le_bytes 8 c"] by simp
qed

section \<open>The names over time\<close>

lemma le_bytes_numeral:
  "le_bytes (numeral k) v = word_of_nat (v mod 256) # le_bytes (pred_numeral k) (v div 256)"
  by (simp only: numeral_eq_Suc [of k] le_bytes.simps)

lemma list_update_numeral: "(x # xs)[numeral k := y] = x # xs[pred_numeral k := y]"
  by (simp add: numeral_eq_Suc [of k])

lemma iterate_add_mod:
  fixes c d n :: nat
  shows "c < n \<Longrightarrow> ((\<lambda>c. (c + d) mod n) ^^ k) c = (c + k * d) mod n"
proof (induction k)
  case (Suc k)
  then have "((\<lambda>c. (c + d) mod n) ^^ Suc k) c = ((c + k * d) mod n + d) mod n" by simp
  also have "\<dots> = (c + k * d + d) mod n" by (rule mod_add_left_eq)
  also have "c + k * d + d = c + Suc k * d" by simp
  finally show ?case .
qed simp

lemma procname_next_iterate:
  "c < 2 ^ usize_bits M \<Longrightarrow>
     ((procname_next M) ^^ k) c = (c + k * (2 ^ usize_bits M - 1)) mod 2 ^ usize_bits M"
  using iterate_add_mod [where c = c and n = "2 ^ usize_bits M" and d = "2 ^ usize_bits M - 1" and k = k]
  by (simp only: procname_next_def [abs_def])

text \<open>
  Construction numbers are not reused. Starting from any value of the counter, the values taken
  by fewer than two to the width of \<open>usize\<close> constructions are pairwise different, the wrap-around
  included.
\<close>

lemma procnames_distinct:
  assumes "c < 2 ^ usize_bits M" and "i < j" and "j < 2 ^ usize_bits M"
  shows "((procname_next M) ^^ i) c \<noteq> ((procname_next M) ^^ j) c"
proof
  define n where "n = (2 ^ usize_bits M :: nat)"
  define d where "d = n - 1"
  assume "((procname_next M) ^^ i) c = ((procname_next M) ^^ j) c"
  then have eq: "(c + j * d) mod n = (c + i * d) mod n"
    using assms(1) by (simp only: procname_next_iterate n_def d_def)
  have le: "c + i * d \<le> c + j * d" using assms(2) by simp
  have "n dvd (c + j * d) - (c + i * d)"
    using eq mod_eq_dvd_iff_nat [OF le] by blast
  also have "(c + j * d) - (c + i * d) = (j - i) * d"
    by (simp add: diff_mult_distrib)
  finally have "n dvd (j - i) * d" .
  moreover have "coprime n d"
    using coprime_diff_one_right_nat [of n] by (simp add: d_def n_def)
  ultimately have "n dvd j - i" by (simp add: coprime_dvd_mult_left_iff)
  then show False using assms(2,3) by (auto simp: n_def dest: dvd_imp_le)
qed

lemma procnames_distinct_instance:
  "((procname_next sample) ^^ 0) 0 \<noteq> ((procname_next sample) ^^ 1) 0"
  using procnames_distinct [of 0 sample 0 1] by simp

text \<open>
  For every counter value of a 64-bit program, the text of the reported name has at most eight
  bytes, that of the name the guard gives itself has fifteen.
\<close>

lemma reported_name_differs:
  assumes "c < 2 ^ 64"
  shows "c_text (u128_to_ne_bytes be (word_of_nat c)) \<noteq> c_text (guard_name_bytes be (word_of_nat c))"
  using length_c_text_usize [OF assms, of be] length_guard_name_text [of be "word_of_nat c"] by auto

text \<open>
  Two guards can have the same name: zero bytes of the number become ones, so on a
  little-endian target the 255th and the 256th guard of a server are named alike.
\<close>

lemma guard_names_collide:
  "guard_name_bytes False (word_of_nat ((procname_next (M\<lparr>usize_bits := 64\<rparr>) ^^ 254) (procname_init (M\<lparr>usize_bits := 64\<rparr>))))
   = guard_name_bytes False (word_of_nat ((procname_next (M\<lparr>usize_bits := 64\<rparr>) ^^ 255) (procname_init (M\<lparr>usize_bits := 64\<rparr>))))"
proof -
  let ?M = "M\<lparr>usize_bits := 64\<rparr>"
  have "(procname_next ?M ^^ 254) (procname_init ?M) = 18446744073709551361"
    "(procname_next ?M ^^ 255) (procname_init ?M) = 18446744073709551360"
    by (subst procname_next_iterate; simp add: procname_init_def)+
  moreover have "guard_name_bytes False (word_of_nat 18446744073709551361)
      = guard_name_bytes False (word_of_nat 18446744073709551360)"
    by (simp add: guard_name_bytes_def u128_to_ne_bytes_def ne_bytes_def le_bytes_numeral
        list_update_numeral unsigned_of_nat take_bit_nat_eq_self)
  ultimately show ?thesis by (simp only:)
qed

section \<open>Construction against its specification\<close>

text \<open>Two steps whose success does not depend on the state succeed together.\<close>

lemma seq_steady:
  assumes "\<And>v. (\<exists>v'. run m v = (Ok (), v')) \<longleftrightarrow> A" and "\<And>v. (\<exists>v'. run k v = (Ok b, v')) \<longleftrightarrow> B"
  shows "(\<exists>v'. run (seq m k) v = (Ok b, v')) \<longleftrightarrow> A \<and> B"
proof
  assume "\<exists>v'. run (seq m k) v = (Ok b, v')"
  then show "A \<and> B" using assms by (auto simp: seq_Ok_iff)
next
  assume "A \<and> B"
  then obtain v1 where "run m v = (Ok (), v1)" using assms(1) by blast
  with \<open>A \<and> B\<close> assms(2) [of v1] show "\<exists>v'. run (seq m k) v = (Ok b, v')" by simp
qed

text \<open>
  C22: Construction accepts exactly the valid configurations. On a kernel whose answers about users,
  groups and files are steady, \<open>RockerCfg::new\<close> succeeds if and only if the user and the group, if
  given, exist, the execution and data directories are directories or are missing and can be
  created, and the package is a regular file; then the record holds the caller's values, no guard,
  and the current value of the counter.
\<close>

theorem cfg_new_accepts:
  assumes "\<And>t. m_bool M t (Getpwuid u) = known_user" and "\<And>t i. m_bool M t (Getgrgid i) = known_group i"
    and "\<And>t q. m_stat M t (Metadata q) = st q" and "\<And>t q. m_unit M t (CreateDirAll q) = mk q"
  shows "(\<exists>w'. run (cfg_new M aid u g pkg exe dat ovl) w = (Ok cfg, w')) \<longleftrightarrow>
      known_user \<and> (\<forall>i. g = Some i \<longrightarrow> known_group i)
      \<and> (\<forall>q \<in> {exe, dat}. st q = Inr FDir \<or> ((\<exists>e. st q = Inl e) \<and> mk q = Inr ()))
      \<and> st pkg = Inr FFile
      \<and> cfg = \<lparr>app_id = aid, uid = u, gid = g, app_pkg_path = pkg, app_exec_dir = exe,
          app_data_dir = dat, app_overlay_dirs = ovl, guard_pid = None,
          guard_pname = word_of_nat (procname_ctr w), guard_stack = None, guard_loop_id = None\<rparr>"
proof -
  have dir: "(\<exists>v'. run (check_dir M q) v = (Ok (), v')) \<longleftrightarrow>
      st q = Inr FDir \<or> ((\<exists>e. st q = Inl e) \<and> mk q = Inr ())" for q v
    using assms(3,4) by (simp add: check_dir_Ok_iff)
  have usr: "(\<exists>v'. run (check_uid M c) v = (Ok (), v')) \<longleftrightarrow> known_user" if "uid c = u" for c v
    using assms(1) that by (auto simp: check_uid_def run_iffs run_cases)
  have grp: "(\<exists>v'. run (check_gid M c) v = (Ok (), v')) \<longleftrightarrow> (\<forall>i. g = Some i \<longrightarrow> known_group i)" if "gid c = g" for c v
    using assms(2) that by (cases g) (auto simp: check_gid_def run_iffs run_cases)
  have pth: "(\<exists>v'. run (check_path M c) v = (Ok (), v')) \<longleftrightarrow>
      (\<forall>q \<in> {exe, dat}. st q = Inr FDir \<or> ((\<exists>e. st q = Inl e) \<and> mk q = Inr ())) \<and> st pkg = Inr FFile"
    if "app_exec_dir c = exe" "app_data_dir c = dat" "app_pkg_path c = pkg" for c v
  proof -
    have pkg: "(\<exists>v'. run (bnd (sys_stat M (Metadata pkg)) (\<lambda>r. bnd (from_res IoErr r)
        (\<lambda>k. if k \<noteq> FFile then fail PathInvalid else ret ()))) x = (Ok (), v')) \<longleftrightarrow> st pkg = Inr FFile" for x
      using assms(3) by (cases "st pkg") (auto simp: run_bnd run_cases)
    have unit: "(\<exists>v'. run (ret () :: unit core_io) x = (Ok (), v')) \<longleftrightarrow> True" for x by simp
    show ?thesis
      unfolding check_path_def for_each.simps that
      by (subst seq_steady [OF seq_steady [OF dir seq_steady [OF dir unit]] pkg]) auto
  qed
  define c where "c = \<lparr>app_id = aid, uid = u, gid = g, app_pkg_path = pkg, app_exec_dir = exe,
      app_data_dir = dat, app_overlay_dirs = ovl, guard_pid = None,
      guard_pname = word_of_nat (procname_ctr w), guard_stack = None, guard_loop_id = None\<rparr>"
  have ok: "(\<exists>v'. run (ret c :: rocker_cfg core_io) v = (Ok cfg, v')) \<longleftrightarrow> cfg = c" for v by auto
  have "run (cfg_new M aid u g pkg exe dat ovl) w =
      run (seq (check_uid M c) (seq (check_gid M c) (seq (check_path M c) (ret c))))
        (w\<lparr>procname_ctr := procname_next M (procname_ctr w)\<rparr>)"
    by (simp add: cfg_new_def fetch_sub_procname_def run_bnd Let_def c_def)
  moreover have "uid c = u" "gid c = g" "app_exec_dir c = exe" "app_data_dir c = dat" "app_pkg_path c = pkg"
    by (simp_all add: c_def)
  note seq_steady [OF usr [OF this(1)] seq_steady [OF grp [OF this(2)] seq_steady [OF pth [OF this(3-5)] ok]]]
  ultimately show ?thesis by (simp add: c_def)
qed

theorem cfg_new_accepts_witness:
  "\<exists>w'. run (cfg_new sample 7 1000 (Some 1000) ''/p'' ''/x'' ''/d'' []) start
    = (Ok \<lparr>app_id = 7, uid = 1000, gid = Some 1000, app_pkg_path = ''/p'', app_exec_dir = ''/x'',
          app_data_dir = ''/d'', app_overlay_dirs = [], guard_pid = None,
          guard_pname = word_of_nat 18446744073709551615, guard_stack = None, guard_loop_id = None\<rparr>, w')"
  using cfg_new_accepts [of sample 1000 True "\<lambda>_. True" "\<lambda>q. Inr (if q = ''/p'' \<or> q = ''/tmp/.xxxxxx_pkg'' then FFile else FDir)" "\<lambda>_. Inr ()"
      7 "Some 1000" "''/p''" "''/x''" "''/d''" "[]" start]
  by simp

end
