(* ===== verification/Rk_Request.thy ===== *)
theory Rk_Request
  imports Rk_Cfg Rk_Sample
begin

text \<open>
  The server's reading of a request datagram (\<open>req_parse\<close> in \<open>rocker_server/src/main.rs\<close>)
  and its errors. A request is 22 integers (three ids, then the sizes of 19 paths) followed
  by the paths, each with its NUL; a size of zero means that the path is absent. Sizes are summed in
  \<open>usize\<close>, whose width and overflow behaviour are those of the target. A panic of the parsing
  code is a value, so that its absence is a theorem.
\<close>

section \<open>Errors and constants\<close>

datatype server_error =
    SrvUnknown
  | SrvNul
  | SrvUtf8
  | SrvNix errno
  | SrvCore core_error

definition INT_SIZ :: nat where "INT_SIZ = 4"

definition REQ_META_SIZ :: nat where "REQ_META_SIZ = INT_SIZ * 22"

section \<open>Arithmetic in usize\<close>

definition usize_add :: "machine \<Rightarrow> nat \<Rightarrow> nat \<Rightarrow> ('e, nat) outcome" where
  "usize_add M a b =
     (if a + b < 2 ^ usize_bits M then Ok (a + b)
      else if overflow_checks M then Panic
      else Ok ((a + b) mod 2 ^ usize_bits M))"

fun usize_sum :: "machine \<Rightarrow> nat \<Rightarrow> nat list \<Rightarrow> ('e, nat) outcome" where
  "usize_sum M acc [] = Ok acc"
| "usize_sum M acc (x # xs) = (case usize_add M acc x of
       Ok acc' \<Rightarrow> usize_sum M acc' xs | Err e \<Rightarrow> Err e | Panic \<Rightarrow> Panic | Diverge \<Rightarrow> Diverge)"

definition from_outcome :: "('e, 'a) outcome \<Rightarrow> ('e, 'a) io" where
  "from_outcome r = IO (\<lambda>w. (r, w))"

section \<open>Parsing\<close>

text \<open>The 22 integers, negative ones replaced by zero.\<close>

definition req_metas :: "bool \<Rightarrow> bytes \<Rightarrow> i32 list" where
  "req_metas be req = map (\<lambda>i.
     let v = i32_from_ne_bytes be (map (\<lambda>idx. req ! (i * INT_SIZ + idx)) [0..<INT_SIZ])
     in if sint v < 0 then 0 else v) [0..<22]"

text \<open>
  The loop over the sizes: \<open>l\<close> is \<open>u_idx\<close> on entry. A slice whose ends are out of order or
  beyond the request panics.
\<close>

fun req_paths :: "machine \<Rightarrow> bytes \<Rightarrow> nat \<Rightarrow> i32 list \<Rightarrow> (server_error, path list) outcome" where
  "req_paths M req l [] = Ok []"
| "req_paths M req l (i # is) = (case usize_add M l (unat i) of
       Ok u \<Rightarrow>
         if i = 0 then req_paths M req u is
         else if u < l \<or> length req < u then Panic
         else (case cstr_from_bytes_with_nul (take (u - l) (drop l req)) of
             None \<Rightarrow> Err SrvNul
           | Some bs \<Rightarrow>
               if \<not> utf8_valid bs then Err SrvUtf8
               else (case req_paths M req u is of
                   Ok ps \<Rightarrow> Ok (chars_of bs # ps)
                 | Err e \<Rightarrow> Err e | Panic \<Rightarrow> Panic | Diverge \<Rightarrow> Diverge))
     | Err e \<Rightarrow> Err e | Panic \<Rightarrow> Panic | Diverge \<Rightarrow> Diverge)"

definition split_off :: "nat \<Rightarrow> 'a list \<Rightarrow> ('e, 'a list \<times> 'a list) io" where
  "split_off n xs = (if length xs < n then panic else ret (take n xs, drop n xs))"

definition pop_unwrap :: "'a list \<Rightarrow> ('e, 'a \<times> 'a list) io" where
  "pop_unwrap xs = (if xs = [] then panic else ret (last xs, butlast xs))"

definition req_parse :: "machine \<Rightarrow> bytes \<Rightarrow> (server_error, rocker_cfg) io" where
  "req_parse M req =
     (if length req < REQ_META_SIZ then fail SrvUnknown
      else let metas = req_metas (big_endian M) req in
        bnd (from_outcome (usize_sum M 0 (map unat (drop 3 metas)))) (\<lambda>total.
          if length req - REQ_META_SIZ < total then fail SrvUnknown
          else if 0 \<in> set (take 6 metas) then fail SrvUnknown
          else let aid = metas ! 0; u = metas ! 1;
                   g = (if sint (metas ! 2) < 0 then None else Some (metas ! 2)) in
            bnd (from_outcome (req_paths M req REQ_META_SIZ (drop 3 metas))) (\<lambda>paths.
            bnd (split_off 3 paths) (\<lambda>(paths, overlay_dirs).
            bnd (pop_unwrap paths) (\<lambda>(app_data_dir, paths).
            bnd (pop_unwrap paths) (\<lambda>(app_exec_dir, paths).
            bnd (pop_unwrap paths) (\<lambda>(app_pkg_path, paths).
              map_err SrvCore
                (cfg_new M aid u g app_pkg_path app_exec_dir app_data_dir overlay_dirs))))))))"

section \<open>The layout of a request\<close>

text \<open>
  The reference layout, written without reference to the parser: the 22 integers in the byte
  order of the target, then each present path with its NUL.
\<close>

definition field_size :: "path option \<Rightarrow> i32" where
  "field_size q = (case q of None \<Rightarrow> 0 | Some s \<Rightarrow> word_of_nat (Suc (length s)))"

definition path_image :: "path \<Rightarrow> bytes" where
  "path_image s = bytes_of s @ [0]"

fun present :: "'a option list \<Rightarrow> 'a list" where
  "present [] = []"
| "present (None # qs) = present qs"
| "present (Some x # qs) = x # present qs"

definition req_wire :: "bool \<Rightarrow> i32 list \<Rightarrow> path option list \<Rightarrow> bytes" where
  "req_wire be ids qs =
     concat (map (i32_to_ne_bytes be) (ids @ map field_size qs))
     @ concat (map path_image (present qs))"

definition path_ok :: "path \<Rightarrow> bool" where
  "path_ok s \<longleftrightarrow> CHR 0x00 \<notin> set s \<and> utf8_valid (bytes_of s) \<and> Suc (length s) < 2 ^ 31"

lemma length_path_image [simp]: "length (path_image s) = Suc (length s)"
  by (simp add: path_image_def)

lemma unat_field_size: "path_ok s \<Longrightarrow> unat (field_size (Some s)) = Suc (length s)"
  by (simp add: field_size_def path_ok_def unsigned_of_nat take_bit_nat_eq_self
      del: of_nat_Suc)

lemma field_size_None [simp]: "field_size None = 0"
  by (simp add: field_size_def)

lemma wrap_sign:
  assumes "n < 4294967296"
  shows "(int n + 2147483648) mod 4294967296 - 2147483648
    = (if n < 2147483648 then int n else int n - 4294967296)"
proof (cases "n < 2147483648")
  case False
  have "(int n + 2147483648) mod 4294967296 = ((int n - 2147483648) + 4294967296) mod 4294967296"
    by (simp add: add.commute)
  also have "\<dots> = int n - 2147483648"
    using False assms by (simp only: mod_add_self2) simp
  finally show ?thesis using False by simp
qed simp

lemma sint_nonneg_iff: "0 \<le> sint (x :: 32 word) \<longleftrightarrow> unat x < 2147483648"
proof -
  have "sint x = (int (unat x) + 2147483648) mod 4294967296 - 2147483648"
    by (simp add: sint_uint signed_take_bit_eq_take_bit_shift take_bit_eq_mod)
  also have "\<dots> = (if unat x < 2147483648 then int (unat x) else int (unat x) - 4294967296)"
    by (rule wrap_sign [OF unat_u32_less])
  finally show ?thesis using unat_u32_less [of x] by (auto simp del: int_nat_eq nat_uint_eq of_nat_unat split: if_splits)
qed

lemma sint_small: "unat (x :: 32 word) < 2147483648 \<Longrightarrow> sint x = int (unat x)"
  using wrap_sign [OF unat_u32_less [of x]]
  by (simp add: sint_uint signed_take_bit_eq_take_bit_shift take_bit_eq_mod)

lemma sint_neg_iff: "sint (x :: 32 word) < 0 \<longleftrightarrow> 2147483648 \<le> unat x"
  using sint_nonneg_iff [of x] by linarith

section \<open>Reading the integers back\<close>

lemma concat_chunks_nth:
  assumes "\<forall>x \<in> set xs. length (f x) = n" and "i < length xs" and "k < n"
  shows "(concat (map f xs) @ r) ! (i * n + k) = f (xs ! i) ! k"
  using assms
proof (induction xs arbitrary: i)
  case Nil
  then show ?case by simp
next
  case (Cons x xs)
  then show ?case by (cases i) (auto simp: nth_append)
qed

lemma length_concat_i32: "length (concat (map (i32_to_ne_bytes be) xs)) = 4 * length xs"
  by (induction xs) auto

lemma req_metas_wire:
  assumes "length xs = 22"
  shows "req_metas be (concat (map (i32_to_ne_bytes be) xs) @ r)
    = map (\<lambda>v. if sint v < 0 then 0 else v) xs"
proof (rule nth_equalityI)
  fix i
  assume "i < length (req_metas be (concat (map (i32_to_ne_bytes be) xs) @ r))"
  then have i: "i < 22" by (simp add: req_metas_def)
  let ?req = "concat (map (i32_to_ne_bytes be) xs) @ r"
  have "map (\<lambda>k. ?req ! (i * INT_SIZ + k)) [0..<INT_SIZ] = i32_to_ne_bytes be (xs ! i)"
    by (rule nth_equalityI)
      (use i assms concat_chunks_nth [of xs "i32_to_ne_bytes be" 4] in \<open>simp_all add: INT_SIZ_def\<close>)
  with i assms show "req_metas be ?req ! i = map (\<lambda>v. if sint v < 0 then 0 else v) xs ! i"
    by (simp add: req_metas_def)
qed (simp add: req_metas_def assms)

lemma length_req_metas [simp]: "length (req_metas be req) = 22"
  by (simp add: req_metas_def)

lemma req_metas_nonneg: "v \<in> set (req_metas be req) \<Longrightarrow> unat v < 2147483648"
  by (auto simp: req_metas_def Let_def sint_neg_iff)

lemma i32_bytes_roundtrip:
  assumes "length bs = 4"
  shows "i32_to_ne_bytes be (i32_from_ne_bytes be bs) = bs"
proof -
  have "unat (word_of_nat (ne_val be bs) :: i32) = ne_val be bs"
    using ne_val_bound [of be bs] assms by (simp add: unsigned_of_nat take_bit_eq_mod)
  with assms show ?thesis
    by (simp add: i32_from_ne_bytes_def i32_to_ne_bytes_def ne_bytes_ne_val)
qed

section \<open>Sums and slices\<close>

lemma usize_add_small [simp]: "a + b < 2 ^ usize_bits M \<Longrightarrow> usize_add M a b = Ok (a + b)"
  by (simp add: usize_add_def)

lemma usize_sum_small: "acc + sum_list xs < 2 ^ usize_bits M \<Longrightarrow> usize_sum M acc xs = Ok (acc + sum_list xs)"
  by (induction xs arbitrary: acc) (auto simp: add.assoc)

lemma usize_add_not_Err [simp]: "usize_add M a b \<noteq> Err e" "usize_add M a b \<noteq> Diverge"
  by (simp_all add: usize_add_def)

lemma usize_sum_not_Err [simp]: "usize_sum M a xs \<noteq> Err e" "usize_sum M a xs \<noteq> Diverge"
  by (induction xs arbitrary: a) (auto split: outcome.splits)

lemma sum_list_bound: "(\<And>x. x \<in> set xs \<Longrightarrow> x < n) \<Longrightarrow> sum_list xs \<le> length xs * (n :: nat)"
  by (induction xs) (fastforce simp: less_imp_le add_mono)+

text \<open>Reading the paths of the reference layout.\<close>

lemma req_paths_wire:
  assumes "\<forall>s. Some s \<in> set qs \<longrightarrow> path_ok s"
    and "length pre + sum_list (map unat (map field_size qs)) < 2 ^ usize_bits M"
  shows "req_paths M (pre @ concat (map path_image (present qs)) @ junk) (length pre) (map field_size qs)
    = Ok (present qs)"
  using assms
proof (induction qs arbitrary: pre)
  case Nil
  then show ?case by simp
next
  case (Cons q qs)
  show ?case
  proof (cases q)
    case None
    with Cons show ?thesis by simp
  next
    case (Some s)
    with Cons.prems have s: "path_ok s" by simp
    let ?rest = "concat (map path_image (present qs)) @ junk"
    have u: "usize_add M (length pre) (unat (field_size q)) = (Ok (length (pre @ path_image s)) :: (server_error, nat) outcome)"
      using Cons.prems(2) Some s by (simp add: unat_field_size)
    have nz: "field_size q \<noteq> 0"
      using unat_field_size [OF s] Some by (metis nat.distinct(1) unsigned_0)
    have c: "cstr_from_bytes_with_nul (path_image s) = Some (bytes_of s)"
      using s by (simp add: path_image_def path_ok_def cstr_from_bytes_with_nul_text)
    have ih: "req_paths M ((pre @ path_image s) @ ?rest) (length (pre @ path_image s)) (map field_size qs)
        = Ok (present qs)"
      using Cons.prems Some s by (intro Cons.IH) (auto simp: unat_field_size)
    show ?thesis
      using u nz c ih s Some by (simp add: path_ok_def)
  qed
qed

text \<open>What a successful reading says of the request.\<close>

lemma req_paths_Ok:
  assumes "req_paths M req l is = Ok ps" and "l \<le> length req" and "length req < 2 ^ usize_bits M"
  shows "\<exists>junk. drop l req = concat (map path_image ps) @ junk"
    and "\<forall>s \<in> set ps. CHR 0x00 \<notin> set s \<and> utf8_valid (bytes_of s)"
    and "length ps = length (filter (\<lambda>i. i \<noteq> 0) is)"
proof -
  have "(\<exists>junk. drop l req = concat (map path_image ps) @ junk)
      \<and> (\<forall>s \<in> set ps. CHR 0x00 \<notin> set s \<and> utf8_valid (bytes_of s))
      \<and> length ps = length (filter (\<lambda>i. i \<noteq> 0) is)"
    using assms
  proof (induction "is" arbitrary: l ps)
    case Nil
    then show ?case by simp
  next
    case (Cons i "is")
    from Cons.prems obtain u where u: "usize_add M l (unat i) = (Ok u :: (server_error, nat) outcome)"
      by (cases "usize_add M l (unat i) :: (server_error, nat) outcome") auto
    show ?case
    proof (cases "i = 0")
      case True
      with u Cons.prems have "u = l" by simp
      with u True Cons.prems Cons.IH [of l ps] show ?thesis by simp
    next
      case False
      with u Cons.prems(1) obtain bs ps' where b: "l \<le> u" "u \<le> length req"
        and c: "cstr_from_bytes_with_nul (take (u - l) (drop l req)) = Some bs"
        and v: "utf8_valid bs" and r: "req_paths M req u is = Ok ps'" and ps: "ps = chars_of bs # ps'"
        by (auto split: outcome.splits option.splits if_splits)
      have t: "take (u - l) (drop l req) = path_image (chars_of bs)" and nz: "0 \<notin> set bs"
        using cstr_from_bytes_with_nul_Some [OF c] by (simp_all add: path_image_def)
      have "drop l req = path_image (chars_of bs) @ drop u req"
        using t b by (metis append_take_drop_id drop_drop le_add_diff_inverse2)
      moreover have "CHR 0x00 \<notin> set (chars_of bs)"
        using nz zero_in_bytes_of [of "chars_of bs"] by simp
      ultimately show ?thesis
        using Cons.IH [OF r b(2) Cons.prems(3)] ps v False by auto
    qed
  qed
  then show "\<exists>junk. drop l req = concat (map path_image ps) @ junk"
    and "\<forall>s \<in> set ps. CHR 0x00 \<notin> set s \<and> utf8_valid (bytes_of s)"
    and "length ps = length (filter (\<lambda>i. i \<noteq> 0) is)"
    by auto
qed

lemma req_paths_settles:
  assumes "l + sum_list (map unat is) \<le> length req" and "length req < 2 ^ usize_bits M"
  shows "req_paths M req l is \<noteq> Panic \<and> req_paths M req l is \<noteq> Diverge"
  using assms
proof (induction "is" arbitrary: l)
  case (Cons i "is")
  then have "usize_add M l (unat i) = (Ok (l + unat i) :: (server_error, nat) outcome)" by simp
  with Cons show ?case by (auto split: option.splits outcome.splits simp: add.assoc)
qed simp

section \<open>The parser against the layout\<close>

lemma from_outcome_simps [simp]:
  "bnd (from_outcome (Ok a)) f = f a"
  "bnd (from_outcome (Err e)) f = fail e"
  "bnd (from_outcome Panic) f = panic"
  "bnd (from_outcome Diverge) f = diverge"
  by (rule io_eqI; simp add: from_outcome_def bnd_def)+

lemma run_from_outcome [simp]: "run (from_outcome r) w = (r, w)"
  by (simp add: from_outcome_def)

lemma settles_from_outcome [settles_intros]:
  "r \<noteq> Panic \<Longrightarrow> r \<noteq> Diverge \<Longrightarrow> settles (from_outcome r)"
  by (simp add: settles_def from_outcome_def)

lemma length_present_images:
  "\<forall>s. Some s \<in> set qs \<longrightarrow> path_ok s \<Longrightarrow>
   length (concat (map path_image (present qs))) = sum_list (map unat (map field_size qs))"
  by (induction qs rule: present.induct) (auto simp: unat_field_size)

lemma sint_field_size: "q = None \<or> (\<exists>s. q = Some s \<and> path_ok s) \<Longrightarrow> \<not> sint (field_size q) < 0"
  by (auto simp: sint_neg_iff unat_field_size) (simp add: path_ok_def)

lemma field_size_nonzero: "path_ok s \<Longrightarrow> field_size (Some s) \<noteq> 0"
  by (metis unat_field_size nat.distinct(1) unsigned_0)

lemma req_metas_req_wire:
  assumes "length ids = 3" and "length qs = 19"
    and "\<forall>v \<in> set ids. 0 < sint v" and "\<forall>s. Some s \<in> set qs \<longrightarrow> path_ok s"
  shows "req_metas be (req_wire be ids qs @ junk) = ids @ map field_size qs"
proof -
  have "\<forall>q \<in> set qs. \<not> sint (field_size q) < 0"
    using assms(4) sint_field_size by (metis not_Some_eq)
  then have "map (\<lambda>v. if sint v < 0 then 0 else v) (ids @ map field_size qs) = ids @ map field_size qs"
    using assms(3) by (intro map_idI) fastforce
  then show ?thesis
    using assms(1,2) by (simp add: req_wire_def req_metas_wire del: map_append)
qed

lemma req_parse_layout:
  assumes "0 < sint aid" "0 < sint u" "0 < sint g"
    and "path_ok pkg" "path_ok exe" "path_ok dat"
    and "length ovl = 16" and "\<forall>s. Some s \<in> set ovl \<longrightarrow> path_ok s"
    and "88 + length (concat (map path_image ([pkg, exe, dat] @ present ovl))) < 2 ^ usize_bits M"
  shows "req_parse M (req_wire (big_endian M) [aid, u, g] ([Some pkg, Some exe, Some dat] @ ovl) @ junk)
    = map_err SrvCore (cfg_new M aid u (Some g) pkg exe dat (present ovl))"
proof -
  define qs where "qs = [Some pkg, Some exe, Some dat] @ ovl"
  define ids where "ids = [aid, u, g]"
  define req where "req = req_wire (big_endian M) ids qs @ junk"
  have ok: "\<forall>s. Some s \<in> set qs \<longrightarrow> path_ok s" and len: "length qs = 19"
    using assms by (auto simp: qs_def)
  have present: "present qs = [pkg, exe, dat] @ present ovl"
    by (simp add: qs_def)
  let ?sum = "sum_list (map unat (map field_size qs))"
  have metas: "req_metas (big_endian M) req = ids @ map field_size qs"
    using ok len assms unfolding req_def by (intro req_metas_req_wire) (auto simp: ids_def)
  have sum: "length (concat (map path_image (present qs))) = ?sum"
    by (rule length_present_images [OF ok])
  then have fit: "88 + ?sum < 2 ^ usize_bits M"
    using assms(9) by (simp only: present)
  have lreq: "length req = 88 + ?sum + length junk"
    using sum len by (simp add: req_def req_wire_def length_concat_i32 ids_def del: map_append map_map)
  define pre where "pre = concat (map (i32_to_ne_bytes (big_endian M)) (ids @ map field_size qs))"
  have pre: "length pre = 88"
    using len unfolding pre_def length_concat_i32 by (simp add: ids_def)
  have "req = pre @ concat (map path_image (present qs)) @ junk"
    by (simp add: req_def req_wire_def pre_def)
  then have paths: "req_paths M req 88 (map field_size qs) = Ok (present qs)"
    using req_paths_wire [of qs pre M junk] ok fit pre by simp
  have usum: "usize_sum M 0 (map unat (map field_size qs)) = (Ok ?sum :: (server_error, nat) outcome)"
    using usize_sum_small [of 0 "map unat (map field_size qs)" M] fit by simp
  have nz: "0 \<notin> set (take 6 (ids @ map field_size qs))"
    using assms(1-6) by (auto simp: ids_def qs_def field_size_nonzero)
  have "drop 3 (ids @ map field_size qs) = map field_size qs" by (simp add: ids_def)
  then have "req_parse M req = map_err SrvCore (cfg_new M aid u (Some g) pkg exe dat (present ovl))"
    using metas usum nz paths lreq assms(3) unfolding req_parse_def REQ_META_SIZ_def INT_SIZ_def
    by (simp add: Let_def split_off_def pop_unwrap_def present ids_def del: map_map)
  then show ?thesis by (simp add: req_def ids_def qs_def)
qed

lemma present_absent [simp]: "present (replicate n None) = []"
  by (induction n) auto

lemma sample_paths_ok: "path_ok ''/p''" "path_ok ''/x''" "path_ok ''/d''" "path_ok ''/usr''"
  by (simp_all add: path_ok_def bytes_of_def)

definition sample_req :: bytes where
  "sample_req = req_wire False [7, 1000, 1000]
     ([Some ''/p'', Some ''/x'', Some ''/d''] @ (Some ''/usr'' # replicate 15 None))"

lemma length_sample_req: "length sample_req < 2 ^ 64"
  by (simp add: sample_req_def req_wire_def length_concat sum_list_replicate)

text \<open>
  C20: Parsing inverts the layout. A request with three positive ids and 19 path slots, of which the
  first three are present, and with valid paths, is parsed to the call of \<open>RockerCfg::new\<close>
  on exactly these values, whatever follows it in the datagram, as long as its size fits in
  \<open>usize\<close>.
\<close>

theorem req_parse_wire:
  assumes "0 < sint aid" "0 < sint u" "0 < sint g"
    and "path_ok pkg" "path_ok exe" "path_ok dat"
    and "length ovl = 16" and "\<forall>s. Some s \<in> set ovl \<longrightarrow> path_ok s"
    and "88 + length (concat (map path_image ([pkg, exe, dat] @ present ovl))) < 2 ^ usize_bits M"
  shows "req_parse M (req_wire (big_endian M) [aid, u, g] ([Some pkg, Some exe, Some dat] @ ovl) @ junk)
    = map_err SrvCore (cfg_new M aid u (Some g) pkg exe dat (present ovl))"
  using assms by (rule req_parse_layout)

lemma map_nth_slice: "l + n \<le> length xs \<Longrightarrow> map (\<lambda>k. xs ! (l + k)) [0..<n] = take n (drop l xs)"
  by (rule nth_equalityI) auto

lemma req_metas_nth:
  assumes "i < 22" and "88 \<le> length req" and "req_metas be req ! i \<noteq> 0"
  shows "i32_to_ne_bytes be (req_metas be req ! i) = take 4 (drop (i * 4) req)"
proof -
  have "map (\<lambda>idx. req ! (i * INT_SIZ + idx)) [0..<INT_SIZ] = take 4 (drop (i * 4) req)"
    using map_nth_slice [of "i * 4" 4 req] assms(1,2) by (simp add: INT_SIZ_def)
  then have "req_metas be req ! i = i32_from_ne_bytes be (take 4 (drop (i * 4) req))"
    using assms(1,3) by (auto simp: req_metas_def Let_def split: if_splits)
  moreover have "length (take 4 (drop (i * 4) req)) = 4"
    using assms(1,2) by simp
  ultimately show ?thesis by (simp add: i32_bytes_roundtrip)
qed

text \<open>The first three sizes of an accepted request are not zero, so at least three paths follow.\<close>

lemma nonzero_sizes:
  fixes xs :: "i32 list"
  assumes "length xs = 22" and "0 \<notin> set (take 6 xs)"
  shows "3 \<le> length (filter (\<lambda>i. i \<noteq> 0) (drop 3 xs))" and "length (filter (\<lambda>i. i \<noteq> 0) (drop 3 xs)) \<le> 19"
proof -
  have "6 \<le> length xs" using assms(1) by simp
  then obtain a b c d e f ys where xs: "xs = a # b # c # d # e # f # ys"
    by (auto simp: eval_nat_numeral Suc_le_length_iff)
  with assms(2) show "3 \<le> length (filter (\<lambda>i. i \<noteq> 0) (drop 3 xs))" by auto
  show "length (filter (\<lambda>i. i \<noteq> 0) (drop 3 xs)) \<le> 19"
    using assms(1) length_filter_le [of "\<lambda>i. i \<noteq> 0" "drop 3 xs"] by simp
qed

lemma run_pops:
  "3 \<le> length ps \<Longrightarrow>
     bnd (split_off 3 ps) (\<lambda>(paths, ovl). bnd (pop_unwrap paths) (\<lambda>(d, paths).
       bnd (pop_unwrap paths) (\<lambda>(e, paths). bnd (pop_unwrap paths) (\<lambda>(k, paths). f k e d ovl))))
     = f (ps ! 0) (ps ! 1) (ps ! 2) (drop 3 ps)"
proof -
  assume "3 \<le> length ps"
  then obtain a b c ts where "ps = a # b # c # ts"
    by (auto simp: numeral_3_eq_3 Suc_le_length_iff)
  then show ?thesis
    by (simp add: split_off_def pop_unwrap_def numeral_2_eq_2)
qed

text \<open>
  The parser, when the sizes do not overflow: the guards in their order, then the paths, then
  construction.
\<close>

lemma req_parse_eq:
  fixes M req
  defines "metas \<equiv> req_metas (big_endian M) req"
  defines "ptot \<equiv> sum_list (map unat (drop 3 metas))"
  assumes "88 \<le> length req" and "ptot < 2 ^ usize_bits M" and "length req < 2 ^ usize_bits M"
  shows "req_parse M req =
    (if length req - 88 < ptot \<or> 0 \<in> set (take 6 metas) then fail SrvUnknown
     else (case req_paths M req 88 (drop 3 metas) of
         Ok ps \<Rightarrow> map_err SrvCore (cfg_new M (metas ! 0) (metas ! 1) (Some (metas ! 2))
                    (ps ! 0) (ps ! 1) (ps ! 2) (drop 3 ps))
       | Err e \<Rightarrow> fail e | Panic \<Rightarrow> panic | Diverge \<Rightarrow> diverge))"
proof -
  have usum: "usize_sum M 0 (map unat (drop 3 metas)) = (Ok ptot :: (server_error, nat) outcome)"
    using usize_sum_small [of 0 "map unat (drop 3 metas)" M] assms(4) by (simp add: ptot_def)
  have nn: "\<not> sint (metas ! 2) < 0"
    using req_metas_nonneg [of "metas ! 2" "big_endian M" req] by (simp add: metas_def sint_neg_iff)
  have siz: "REQ_META_SIZ = 88" by (simp add: REQ_META_SIZ_def INT_SIZ_def)
  show ?thesis
  proof (cases "length req - 88 < ptot \<or> 0 \<in> set (take 6 metas)")
    case True
    with usum assms(3) show ?thesis
      by (auto simp: req_parse_def siz metas_def [symmetric])
  next
    case False
    have paths: "3 \<le> length ps" if "req_paths M req 88 (drop 3 metas) = Ok ps" for ps
      using req_paths_Ok(3) [OF that] assms(3,5) nonzero_sizes(1) [of metas] False
      by (simp add: metas_def)
    show ?thesis
      using usum nn assms(3) False paths
      by (cases "req_paths M req 88 (drop 3 metas)")
        (simp_all add: req_parse_def siz metas_def [symmetric] Let_def run_pops)
  qed
qed

lemma req_parse_short: "length req < 88 \<Longrightarrow> req_parse M req = fail SrvUnknown"
  by (simp add: req_parse_def REQ_META_SIZ_def INT_SIZ_def)

lemma total_bound: "sum_list (map unat (drop 3 (req_metas be req))) \<le> 19 * 2147483648"
  using sum_list_bound [of "map unat (drop 3 (req_metas be req))" 2147483648]
  by (auto dest!: in_set_dropD req_metas_nonneg)

lemma usize64_fits:
  "usize_bits M = 64 \<Longrightarrow> sum_list (map unat (drop 3 (req_metas be req))) < 2 ^ usize_bits M"
  using total_bound [of be req] by (simp del: map_map)

theorem req_parse_wire_witness:
  "req_parse sample (req_wire False [7, 1000, 1000]
       ([Some ''/p'', Some ''/x'', Some ''/d''] @ (Some ''/usr'' # replicate 15 None)) @ [1])
    = map_err SrvCore (cfg_new sample 7 1000 (Some 1000) ''/p'' ''/x'' ''/d'' [''/usr''])"
  using req_parse_wire [of 7 1000 1000 "''/p''" "''/x''" "''/d''" "Some ''/usr'' # replicate 15 None" sample "[1]"]
  by (simp add: sample_paths_ok)

lemma req_metas_ids:
  assumes len: "88 \<le> length req" and guard: "0 \<notin> set (take 6 (req_metas be req))"
  shows "i < 6 \<Longrightarrow> 0 < sint (req_metas be req ! i)"
    and "take 12 req = i32_to_ne_bytes be (req_metas be req ! 0) @ i32_to_ne_bytes be (req_metas be req ! 1)
      @ i32_to_ne_bytes be (req_metas be req ! 2)"
proof -
  define metas where "metas = req_metas be req"
  have guard: "0 \<notin> set (take 6 metas)" using guard by (simp add: metas_def)
  have lm: "length metas = 22" by (simp add: metas_def)
  have nz: "metas ! i \<noteq> 0" if "i < 6" for i
    using guard that lm nth_mem [of i "take 6 metas"] by auto
  have pos: "0 < sint (metas ! i)" if "i < 6" for i
  proof -
    have "0 \<le> sint (metas ! i)"
      using req_metas_nonneg [of "metas ! i" be req] that lm by (simp add: metas_def sint_nonneg_iff)
    moreover have "sint (metas ! i) \<noteq> 0"
      using nz [OF that] signed_word_eqI [of "metas ! i" 0] by auto
    ultimately show ?thesis by linarith
  qed
  have bytes: "i32_to_ne_bytes be (metas ! i) = take 4 (drop (i * 4) req)" if "i < 6" for i
    using req_metas_nth [of i req be] nz [OF that] that len by (simp add: metas_def)
  have "take 12 req = take 4 (drop (0 * 4) req) @ take 4 (drop (1 * 4) req) @ take 4 (drop (2 * 4) req)"
    using take_add [of 4 8 req] take_add [of 4 4 "drop 4 req"] by simp
  then have ids: "take 12 req = i32_to_ne_bytes be (metas ! 0) @ i32_to_ne_bytes be (metas ! 1)
      @ i32_to_ne_bytes be (metas ! 2)"
    using bytes [of 0] bytes [of 1] bytes [of 2] by simp
  show "i < 6 \<Longrightarrow> 0 < sint (req_metas be req ! i)" using pos by (simp add: metas_def)
  show "take 12 req = i32_to_ne_bytes be (req_metas be req ! 0) @ i32_to_ne_bytes be (req_metas be req ! 1)
      @ i32_to_ne_bytes be (req_metas be req ! 2)" using ids by (simp add: metas_def)
qed

text \<open>The fields of a parsed configuration; both statements about sound parsing rest on it.\<close>

lemma req_sound:
  assumes "usize_bits M = 64" and "length req < 2 ^ 64"
    and "run (req_parse M req) w = (Ok cfg, w')"
  shows "\<exists>g junk. gid cfg = Some g \<and> 0 < sint (app_id cfg) \<and> 0 < sint (uid cfg) \<and> 0 < sint g
      \<and> take 12 req = i32_to_ne_bytes (big_endian M) (app_id cfg)
          @ i32_to_ne_bytes (big_endian M) (uid cfg) @ i32_to_ne_bytes (big_endian M) g
      \<and> drop 88 req = concat (map path_image
          ([app_pkg_path cfg, app_exec_dir cfg, app_data_dir cfg] @ app_overlay_dirs cfg)) @ junk
      \<and> (\<forall>s \<in> set ([app_pkg_path cfg, app_exec_dir cfg, app_data_dir cfg] @ app_overlay_dirs cfg).
          CHR 0x00 \<notin> set s \<and> utf8_valid (bytes_of s))
      \<and> length (app_overlay_dirs cfg) \<le> 16 \<and> guard_loop_id cfg = None"
proof -
  let ?be = "big_endian M"
  define metas where "metas = req_metas ?be req"
  have len: "88 \<le> length req"
    using assms(3) req_parse_short [of req M] by (auto simp: not_less [symmetric])
  from assms(3) obtain ps where guard: "0 \<notin> set (take 6 metas)"
    and ps: "req_paths M req 88 (drop 3 metas) = Ok ps"
    and new: "run (cfg_new M (metas ! 0) (metas ! 1) (Some (metas ! 2))
                (ps ! 0) (ps ! 1) (ps ! 2) (drop 3 ps)) w = (Ok cfg, w')"
    using req_parse_eq [of req M] len usize64_fits [OF assms(1)] assms(1,2)
    by (auto simp: metas_def map_err_Ok_iff split: if_splits outcome.splits)
  have lps: "3 \<le> length ps" "length ps \<le> 19"
    using req_paths_Ok(3) [OF ps] len assms(1,2) nonzero_sizes [of metas] guard
    by (simp_all add: metas_def)
  have eq: "[ps ! 0, ps ! 1, ps ! 2] @ drop 3 ps = ps"
    using lps(1) by (auto simp: eval_nat_numeral Suc_le_length_iff)
  note pos = req_metas_ids(1) [OF len guard [unfolded metas_def], folded metas_def]
  note ids = req_metas_ids(2) [OF len guard [unfolded metas_def], folded metas_def]
  obtain junk where junk: "drop 88 req = concat (map path_image ps) @ junk"
    using req_paths_Ok(1) [OF ps] len assms(1,2) by auto
  have valid: "\<forall>s \<in> set ps. CHR 0x00 \<notin> set s \<and> utf8_valid (bytes_of s)"
    using req_paths_Ok(2) [OF ps] len assms(1,2) by auto
  have cfg: "app_id cfg = metas ! 0" "uid cfg = metas ! 1" "gid cfg = Some (metas ! 2)"
    "[app_pkg_path cfg, app_exec_dir cfg, app_data_dir cfg] @ app_overlay_dirs cfg = ps"
    "app_overlay_dirs cfg = drop 3 ps" "guard_loop_id cfg = None"
    using cfg_new_fields [OF new] eq by simp_all
  show ?thesis
    unfolding cfg(4) using valid ids junk pos [of 0] pos [of 1] pos [of 2] cfg(1-3,5,6) lps
    by (intro exI [of _ "metas ! 2"] exI [of _ junk]) simp
qed

text \<open>
  C18: Parsing is sound. On a 64-bit target, whatever the datagram, a configuration that
  comes out of it has positive user and group ids, each equal to the bytes of its field, always has a
  group id, and its paths, without inner NUL and valid UTF-8, are exactly the bytes that
  follow the integers, at most 16 of them overlay directories.
\<close>

theorem req_parse_sound:
  assumes "usize_bits M = 64" and "length req < 2 ^ 64"
    and "run (req_parse M req) w = (Ok cfg, w')"
  shows "\<exists>g junk.
      gid cfg = Some g \<and> 0 < sint (app_id cfg) \<and> 0 < sint (uid cfg) \<and> 0 < sint g
      \<and> take 12 req = i32_to_ne_bytes (big_endian M) (app_id cfg)
          @ i32_to_ne_bytes (big_endian M) (uid cfg) @ i32_to_ne_bytes (big_endian M) g
      \<and> drop 88 req = concat (map path_image
          ([app_pkg_path cfg, app_exec_dir cfg, app_data_dir cfg] @ app_overlay_dirs cfg)) @ junk
      \<and> (\<forall>s \<in> {app_pkg_path cfg, app_exec_dir cfg, app_data_dir cfg} \<union> set (app_overlay_dirs cfg).
          CHR 0x00 \<notin> set s \<and> utf8_valid (bytes_of s))
      \<and> length (app_overlay_dirs cfg) \<le> 16"
proof -
  have "set ([app_pkg_path cfg, app_exec_dir cfg, app_data_dir cfg] @ app_overlay_dirs cfg)
      = {app_pkg_path cfg, app_exec_dir cfg, app_data_dir cfg} \<union> set (app_overlay_dirs cfg)" by auto
  with req_sound [OF assms] show ?thesis by (simp only:) blast
qed

text \<open>
  On a 64-bit target the parser never panics and never hangs: every datagram of any length and
  content gets a value or an error.
\<close>

lemma req_parse_settles:
  assumes "usize_bits M = 64" and "length req < 2 ^ 64"
  shows "settles (req_parse M req)"
proof (cases "88 \<le> length req")
  case False
  then show ?thesis by (simp add: req_parse_short settles_basic)
next
  case True
  let ?metas = "req_metas (big_endian M) req"
  have "req_paths M req 88 (drop 3 ?metas) \<noteq> Panic \<and> req_paths M req 88 (drop 3 ?metas) \<noteq> Diverge"
    if "\<not> length req - 88 < sum_list (map unat (drop 3 ?metas))"
    using that True assms by (intro req_paths_settles) simp_all
  then show ?thesis
    using req_parse_eq [OF True usize64_fits [OF assms(1)]] assms
    by (auto split: outcome.split simp: settles_basic settles_map_err settles_cfg_new)
qed

lemma req_parse_settles_instance: "settles (req_parse sample sample_req)"
  by (rule req_parse_settles) (simp_all add: length_sample_req [simplified])

text \<open>
  On a 32-bit target a datagram of 88 bytes makes the parser panic, with or without overflow
  checks: the sizes sum to two to the 32, which passes the size check as zero, and the first
  path is then sliced out of range.
\<close>

lemma req_parse_overflow32:
  "run (req_parse (M\<lparr>usize_bits := 32\<rparr>)
      (concat (map (i32_to_ne_bytes (big_endian M))
        ([1, 1, 1, 0x7FFFFFFF, 0x7FFFFFFF, 2] @ replicate 16 0)))) w = (Panic, w)"
proof -
  let ?M = "M\<lparr>usize_bits := 32\<rparr>" and ?be = "big_endian M"
  let ?xs = "[1, 1, 1, 0x7FFFFFFF, 0x7FFFFFFF, 2] @ replicate 16 0 :: i32 list"
  let ?req = "concat (map (i32_to_ne_bytes ?be) ?xs)"
  have metas: "req_metas ?be ?req = ?xs"
    using req_metas_wire [of ?xs ?be "[]"] by (simp add: numeral_eq_Suc)
  have len: "length ?req = 88"
    using length_concat_i32 [of ?be ?xs] by simp
  have drop: "drop 3 ?xs = [0x7FFFFFFF, 0x7FFFFFFF, 2] @ replicate 16 0" by simp
  have take: "take 6 ?xs = [1, 1, 1, 0x7FFFFFFF, 0x7FFFFFFF, 2]" by simp
  have nth: "?xs ! 2 = 1" by simp
  have zeros: "usize_sum ?M a (replicate n 0) = (Ok a :: (server_error, nat) outcome)" if "a < 4294967296" for a n
    using usize_sum_small [of a "replicate n 0" ?M] that by (simp add: sum_list_replicate)
  show ?thesis
  proof (cases "overflow_checks M")
    case True
    have "usize_sum ?M 0 (map unat (drop 3 ?xs)) = (Panic :: (server_error, nat) outcome)"
      unfolding drop using True by (simp add: usize_add_def)
    then show ?thesis
      using len metas by (simp add: req_parse_def REQ_META_SIZ_def INT_SIZ_def del: concat.simps list.map)
  next
    case False
    have "usize_sum ?M 0 (map unat (drop 3 ?xs)) = (Ok 0 :: (server_error, nat) outcome)"
      unfolding drop using False zeros by (simp add: usize_add_def)
    moreover have "req_paths ?M ?req 88 (drop 3 ?xs) = Panic"
      unfolding drop using len by (simp add: usize_add_def del: concat.simps list.map)
    ultimately show ?thesis
      using len metas nth take by (simp add: req_parse_def REQ_META_SIZ_def INT_SIZ_def del: concat.simps list.map)
  qed
qed

lemma sample_req_run:
  "\<exists>cfg w'. run (req_parse sample sample_req) start = (Ok cfg, w')"
proof -
  have "req_parse sample sample_req = map_err SrvCore (cfg_new sample 7 1000 (Some 1000) ''/p'' ''/x'' ''/d'' [''/usr''])"
    using req_parse_layout [of 7 1000 1000 "''/p''" "''/x''" "''/d''" "Some ''/usr'' # replicate 15 None" sample "[]"]
    by (simp add: sample_paths_ok sample_req_def)
  then show ?thesis
    by (simp add: map_err_def run_handle cfg_new_def check_uid_def check_gid_def check_path_def check_dir_def
        fetch_sub_procname_def run_bnd seq_def Let_def)
qed

theorem req_parse_sound_witness:
  "\<exists>cfg w' g. run (req_parse sample sample_req) start = (Ok cfg, w') \<and> gid cfg = Some g
     \<and> 0 < sint (uid cfg) \<and> length (app_overlay_dirs cfg) \<le> 16"
proof -
  obtain cfg w' where r: "run (req_parse sample sample_req) start = (Ok cfg, w')"
    using sample_req_run by blast
  from req_parse_sound [OF _ length_sample_req r] r show ?thesis by auto
qed

lemma req_paths_Err: "req_paths M req l is = Err e \<Longrightarrow> e = SrvNul \<or> e = SrvUtf8"
  by (induction M req l "is" rule: req_paths.induct)
    (auto split: outcome.splits option.splits if_splits)

text \<open>
  C37: What the guards of the parser reject. On a 64-bit target the error \<open>Unknown\<close> of the server is
  returned exactly for a datagram shorter than its 22 integers, or than the sizes it announces, or
  with an id or one of the three required sizes not positive; and a request that fails before
  construction has made no system call and used no name.
\<close>

theorem req_parse_rejects:
  assumes "usize_bits M = 64" and "length req < 2 ^ 64"
  shows "(run (req_parse M req) w = (Err SrvUnknown, w) \<longleftrightarrow>
        length req < 88
        \<or> length req < 88 + sum_list (map unat (drop 3 (req_metas (big_endian M) req)))
        \<or> (\<exists>i < 6. \<not> 0 < sint (req_metas (big_endian M) req ! i)))
    \<and> (\<forall>e w'. run (req_parse M req) w = (Err e, w') \<and> (\<forall>c. e \<noteq> SrvCore c) \<longrightarrow> w' = w)"
proof (cases "88 \<le> length req")
  case False
  then show ?thesis by (auto simp: req_parse_short)
next
  case True
  let ?metas = "req_metas (big_endian M) req"
  have "0 \<in> set (take 6 ?metas) \<longleftrightarrow> (\<exists>i < 6. ?metas ! i = 0)"
    by (auto simp: in_set_conv_nth)
  moreover have "?metas ! i = 0 \<longleftrightarrow> \<not> 0 < sint (?metas ! i)" if "i < 6" for i
  proof -
    have "0 \<le> sint (?metas ! i)"
      using req_metas_nonneg [of "?metas ! i" "big_endian M" req] that by (simp add: sint_nonneg_iff)
    then show ?thesis using signed_word_eqI [of "?metas ! i" 0] by auto
  qed
  ultimately have zero: "0 \<in> set (take 6 ?metas) \<longleftrightarrow> (\<exists>i < 6. \<not> 0 < sint (?metas ! i))" by auto
  have "req_paths M req 88 (drop 3 ?metas) \<noteq> Err SrvUnknown"
    using req_paths_Err by blast
  then show ?thesis
    using req_parse_eq [OF True usize64_fits [OF assms(1)]] assms True
    by (auto simp: zero map_err_Err_iff split: outcome.split)
qed

theorem req_parse_rejects_witness:
  "run (req_parse sample []) start = (Err SrvUnknown, start)"
  using req_parse_rejects [of sample "[]" start] by simp

end
