(* ===== verification/Rk_Client.thy ===== *)
theory Rk_Client
  imports Rk_Request
begin

text \<open>
  The client side: the C library (\<open>librocker_client/src/lib.c\<close>), which lays out a request,
  sends it, reads the reply, enters the namespaces and starts the application, and the Rust
  wrapper over it (\<open>librocker_client_wrapper/src/client_ffi\<close>). A \<open>char *\<close> is \<open>None\<close>
  for NULL, or the bytes before its NUL. The kernel of the client is the record \<open>client_env\<close>.
\<close>

section \<open>The structs shared by both languages (metal.rs, lib.h)\<close>

record metal_request =
  rq_app_id :: i32
  rq_uid :: i32
  rq_gid :: i32
  rq_pkg_path :: "bytes option"
  rq_exec_dir :: "bytes option"
  rq_data_dir :: "bytes option"
  rq_overlay_dirs :: "bytes option list"

record metal_result =
  err_no :: i32
  rs_app_pid :: i32
  rs_guard_pid :: i32
  rs_guard_pname :: bytes

definition ROCKER_ERR_success :: i32 where "ROCKER_ERR_success = 0"
definition ROCKER_ERR_sys :: i32 where "ROCKER_ERR_sys = 1"
definition ROCKER_ERR_param_invalid :: i32 where "ROCKER_ERR_param_invalid = 2"
definition ROCKER_ERR_server_unaddr_invalid :: i32 where "ROCKER_ERR_server_unaddr_invalid = 3"
definition ROCKER_ERR_gen_local_addr_failed :: i32 where "ROCKER_ERR_gen_local_addr_failed = 4"
definition ROCKER_ERR_send_req_failed :: i32 where "ROCKER_ERR_send_req_failed = 5"
definition ROCKER_ERR_recv_resp_failed :: i32 where "ROCKER_ERR_recv_resp_failed = 6"
definition ROCKER_ERR_rocker_build_failed :: i32 where "ROCKER_ERR_rocker_build_failed = 7"
definition ROCKER_ERR_enter_rocker_failed :: i32 where "ROCKER_ERR_enter_rocker_failed = 8"
definition ROCKER_ERR_app_exec_failed :: i32 where "ROCKER_ERR_app_exec_failed = 9"
definition ROCKER_ERR_get_guardname_failed :: i32 where "ROCKER_ERR_get_guardname_failed = 10"

lemmas rocker_err_defs = ROCKER_ERR_success_def ROCKER_ERR_sys_def ROCKER_ERR_param_invalid_def
  ROCKER_ERR_server_unaddr_invalid_def ROCKER_ERR_gen_local_addr_failed_def
  ROCKER_ERR_send_req_failed_def ROCKER_ERR_recv_resp_failed_def ROCKER_ERR_rocker_build_failed_def
  ROCKER_ERR_enter_rocker_failed_def ROCKER_ERR_app_exec_failed_def ROCKER_ERR_get_guardname_failed_def

section \<open>Laying out a request in C\<close>

text \<open>
  \<open>strlen_\<close> of NULL is the largest \<open>size_t\<close>, which \<open>strlen___\<close> wraps to zero; the size is then
  stored in an \<open>int32_t\<close>. Each part is \<open>iov_len\<close> bytes at its pointer, NUL included.
\<close>

definition c_strlen :: "nat \<Rightarrow> bytes option \<Rightarrow> nat" where
  "c_strlen bits s = (case s of None \<Rightarrow> 2 ^ bits - 1 | Some t \<Rightarrow> length t)"

definition strlen_nul :: "nat \<Rightarrow> bytes option \<Rightarrow> nat" where
  "strlen_nul bits s = (let len = c_strlen bits s in if 0 < len then (1 + len) mod 2 ^ bits else 0)"

definition c_iov :: "bytes option \<Rightarrow> i32 \<Rightarrow> bytes" where
  "c_iov s len = (case s of None \<Rightarrow> [] | Some t \<Rightarrow> take (nat (sint len)) (t @ [0]))"

definition ROCKER_parse_request :: "bool \<Rightarrow> nat \<Rightarrow> metal_request \<Rightarrow> bytes list" where
  "ROCKER_parse_request be bits req =
     (let size = (\<lambda>s. word_of_nat (strlen_nul bits s));
          paths = [rq_pkg_path req, rq_exec_dir req, rq_data_dir req] @ rq_overlay_dirs req;
          meta = [rq_app_id req, rq_uid req, rq_gid req] @ map size paths
      in concat (map (i32_to_ne_bytes be) meta) # map (\<lambda>s. c_iov s (size s)) paths)"

section \<open>Entering a rocker in C\<close>

record client_env =
  ce_pipe :: bool
  ce_fork :: bool
  ce_pipe_full :: bool
  ce_genaddr :: bool
  ce_autobound :: bool
  ce_sendmsg :: "bytes list \<Rightarrow> bool"
  ce_recv_fd :: "(bytes \<times> fd list) option"
  ce_setns :: "fd \<Rightarrow> bool"
  ce_clone :: i32

definition Rocker_result_new :: metal_result where
  "Rocker_result_new = \<lparr>err_no = ROCKER_ERR_success, rs_app_pid = 0, rs_guard_pid = - 1,
     rs_guard_pname = replicate 16 0\<rparr>"

text \<open>\<open>setns\<close> on each descriptor in turn, up to the first failure: the ones entered, and success.\<close>

fun enter_ns :: "(fd \<Rightarrow> bool) \<Rightarrow> fd list \<Rightarrow> fd list \<times> bool" where
  "enter_ns setns [] = ([], True)"
| "enter_ns setns (fd # fds) =
     (if setns fd then (case enter_ns setns fds of (es, ok) \<Rightarrow> (fd # es, ok)) else ([], False))"

text \<open>
  The reply is scattered over the pid and the name of the result; what it does not reach keeps its
  initial bytes. The descriptor buffer starts zeroed, and a reply without a control
  message leaves none.
\<close>

definition scatter_reply :: "bool \<Rightarrow> bytes \<Rightarrow> metal_result \<Rightarrow> metal_result" where
  "scatter_reply be d jr =
     (let buf = i32_to_ne_bytes be (rs_guard_pid jr) @ rs_guard_pname jr;
          buf = take 20 d @ drop (length (take 20 d)) buf
      in jr\<lparr>rs_guard_pid := i32_from_ne_bytes be (take 4 buf), rs_guard_pname := drop 4 buf\<rparr>)"

definition ROCKER_enter_rocker_inner ::
  "bool \<Rightarrow> nat \<Rightarrow> client_env \<Rightarrow> metal_request \<Rightarrow> metal_result \<times> fd list" where
  "ROCKER_enter_rocker_inner be bits env req =
     (let jr = Rocker_result_new in
      if \<not> ce_genaddr env then (jr\<lparr>err_no := ROCKER_ERR_server_unaddr_invalid\<rparr>, [])
      else if \<not> ce_autobound env then (jr\<lparr>err_no := ROCKER_ERR_gen_local_addr_failed\<rparr>, [])
      else if \<not> ce_sendmsg env (ROCKER_parse_request be bits req)
        then (jr\<lparr>err_no := ROCKER_ERR_send_req_failed\<rparr>, [])
      else (case ce_recv_fd env of
          None \<Rightarrow> (jr\<lparr>err_no := ROCKER_ERR_recv_resp_failed\<rparr>, [])
        | Some (d, fds) \<Rightarrow>
            let jr = scatter_reply be d jr in
            if sint (rs_guard_pid jr) < 0 \<or> fds = [] then (jr\<lparr>err_no := ROCKER_ERR_rocker_build_failed\<rparr>, [])
            else (case enter_ns (ce_setns env) (take 3 (fds @ replicate 3 0)) of
                (es, False) \<Rightarrow> (jr\<lparr>err_no := ROCKER_ERR_enter_rocker_failed\<rparr>, es)
              | (es, True) \<Rightarrow>
                  let jr = jr\<lparr>rs_app_pid := ce_clone env\<rparr> in
                  if sint (ce_clone env) < 0 then (jr\<lparr>err_no := ROCKER_ERR_app_exec_failed\<rparr>, es)
                  else (jr, es))))"

definition ROCKER_enter_rocker :: "bool \<Rightarrow> nat \<Rightarrow> client_env \<Rightarrow> metal_request \<Rightarrow> metal_result" where
  "ROCKER_enter_rocker be bits env req =
     (if \<not> ce_pipe env then Rocker_result_new\<lparr>err_no := ROCKER_ERR_sys\<rparr>
      else if \<not> ce_fork env then Rocker_result_new\<lparr>err_no := ROCKER_ERR_sys\<rparr>
      else if \<not> ce_pipe_full env then Rocker_result_new\<lparr>err_no := ROCKER_ERR_sys\<rparr>
      else fst (ROCKER_enter_rocker_inner be bits env req))"

section \<open>The Rust wrapper\<close>

datatype wrapper_error =
    WUnknown
  | RockerSys
  | RockerParam
  | RockerServerUnaddr
  | RockerGenLocalAddr
  | RockerSendReq
  | RockerRecvResp
  | RockerBuildRocker
  | RockerEnterRocker
  | RockerAppExec
  | RockerGetGuardname
  | WNul
  | WCStr

record rocker_request =
  w_app_id :: u32
  w_uid :: u32
  w_gid :: "u32 option"
  w_pkg_path :: string
  w_exec_dir :: string
  w_data_dir :: string
  w_overlay_dirs :: "string list"

record rocker_result =
  app_pid :: u32
  res_guard_pid :: u32
  res_guard_pname :: string

definition rocker_request_new :: rocker_request where
  "rocker_request_new = \<lparr>w_app_id = 0, w_uid = 0, w_gid = None, w_pkg_path = [], w_exec_dir = [],
     w_data_dir = [], w_overlay_dirs = []\<rparr>"

definition res_convert :: "metal_result \<Rightarrow> wrapper_error + metal_result" where
  "res_convert res =
     (let v = err_no res in
      if v = ROCKER_ERR_success then Inr res
      else if v = ROCKER_ERR_sys then Inl RockerSys
      else if v = ROCKER_ERR_param_invalid then Inl RockerParam
      else if v = ROCKER_ERR_server_unaddr_invalid then Inl RockerServerUnaddr
      else if v = ROCKER_ERR_gen_local_addr_failed then Inl RockerGenLocalAddr
      else if v = ROCKER_ERR_send_req_failed then Inl RockerSendReq
      else if v = ROCKER_ERR_recv_resp_failed then Inl RockerRecvResp
      else if v = ROCKER_ERR_rocker_build_failed then Inl RockerBuildRocker
      else if v = ROCKER_ERR_enter_rocker_failed then Inl RockerEnterRocker
      else if v = ROCKER_ERR_app_exec_failed then Inl RockerAppExec
      else if v = ROCKER_ERR_get_guardname_failed then Inl RockerGetGuardname
      else Inl WUnknown)"

text \<open>
  \<open>String::from_utf8_lossy\<close>: each maximal invalid piece becomes U+FFFD, the bytes EF BF BD.
\<close>

definition utf8_3ok :: "u8 \<Rightarrow> u8 \<Rightarrow> bool" where
  "utf8_3ok b c \<longleftrightarrow> utf8_cont c \<and> (b = 0xE0 \<longrightarrow> 0xA0 \<le> c) \<and> (b = 0xED \<longrightarrow> c \<le> 0x9F)"

definition utf8_4ok :: "u8 \<Rightarrow> u8 \<Rightarrow> bool" where
  "utf8_4ok b c \<longleftrightarrow> utf8_cont c \<and> (b = 0xF0 \<longrightarrow> 0x90 \<le> c) \<and> (b = 0xF4 \<longrightarrow> c \<le> 0x8F)"

text \<open>The number of bytes of the first piece, and whether it is a character.\<close>

definition utf8_piece :: "u8 \<Rightarrow> bytes \<Rightarrow> nat \<times> bool" where
  "utf8_piece b bs =
     (if b < 0x80 then (1, True)
      else if 0xC2 \<le> b \<and> b \<le> 0xDF then
        (case bs of c # r \<Rightarrow> if utf8_cont c then (2, True) else (1, False) | [] \<Rightarrow> (1, False))
      else if 0xE0 \<le> b \<and> b \<le> 0xEF then
        (case bs of
           c # r \<Rightarrow> if \<not> utf8_3ok b c then (1, False)
             else (case r of d # s \<Rightarrow> if utf8_cont d then (3, True) else (2, False) | [] \<Rightarrow> (2, False))
         | [] \<Rightarrow> (1, False))
      else if 0xF0 \<le> b \<and> b \<le> 0xF4 then
        (case bs of
           c # r \<Rightarrow> if \<not> utf8_4ok b c then (1, False)
             else (case r of
                 d # s \<Rightarrow> if \<not> utf8_cont d then (2, False)
                   else (case s of e # t \<Rightarrow> if utf8_cont e then (4, True) else (3, False) | [] \<Rightarrow> (3, False))
               | [] \<Rightarrow> (2, False))
         | [] \<Rightarrow> (1, False))
      else (1, False))"

lemma utf8_piece_pos: "0 < fst (utf8_piece b bs)"
  by (auto simp: utf8_piece_def split: list.splits if_splits)

function utf8_lossy :: "bytes \<Rightarrow> bytes" where
  "utf8_lossy [] = []"
| "utf8_lossy (b # bs) = (case utf8_piece b bs of
       (n, ok) \<Rightarrow> (if ok then take n (b # bs) else [0xEF, 0xBF, 0xBD]) @ utf8_lossy (drop n (b # bs)))"
  by pat_completeness auto

termination
proof (relation "measure length")
  fix b :: u8 and bs n ok
  assume "(n, ok) = utf8_piece b bs"
  then have "0 < n" using utf8_piece_pos [of b bs] by (metis fst_conv)
  then show "(drop n (b # bs), b # bs) \<in> measure length" by simp
qed simp

text \<open>The name of a result: its bytes before the first NUL, read back as a C string.\<close>

definition result_name :: "bytes \<Rightarrow> wrapper_error + string" where
  "result_name name =
     (case cstr_from_bytes_with_nul (takeWhile (\<lambda>b. b \<noteq> 0) name @ [0]) of
        None \<Rightarrow> Inl WCStr
      | Some bs \<Rightarrow> Inr (chars_of (utf8_lossy bs)))"

text \<open>
  The struct handed to C: strings as C strings, a missing group as \<open>- 1\<close>, and the overlay
  directories zipped into the 16 slots, which drops any beyond.
\<close>

fun cstring_all :: "string list \<Rightarrow> bytes list option" where
  "cstring_all [] = Some []"
| "cstring_all (s # ss) = (case cstring_new s of
       None \<Rightarrow> None | Some b \<Rightarrow> map_option (\<lambda>bs. b # bs) (cstring_all ss))"

fun zip_slots :: "'a option list \<Rightarrow> 'a list \<Rightarrow> 'a option list" where
  "zip_slots (slot # slots) (x # xs) = Some x # zip_slots slots xs"
| "zip_slots slots xs = slots"

definition metal_request_of :: "rocker_request \<Rightarrow> wrapper_error + metal_request" where
  "metal_request_of r = (case cstring_new (w_pkg_path r) of None \<Rightarrow> Inl WNul | Some pkg \<Rightarrow>
     (case cstring_new (w_exec_dir r) of None \<Rightarrow> Inl WNul | Some exe \<Rightarrow>
     (case cstring_new (w_data_dir r) of None \<Rightarrow> Inl WNul | Some dat \<Rightarrow>
     (case cstring_all (w_overlay_dirs r) of None \<Rightarrow> Inl WNul | Some ovl \<Rightarrow>
       Inr \<lparr>rq_app_id = w_app_id r, rq_uid = w_uid r,
            rq_gid = (case w_gid r of None \<Rightarrow> - 1 | Some g \<Rightarrow> g),
            rq_pkg_path = Some pkg, rq_exec_dir = Some exe, rq_data_dir = Some dat,
            rq_overlay_dirs = zip_slots (replicate 16 None) ovl\<rparr>))))"

definition enter_rocker :: "bool \<Rightarrow> nat \<Rightarrow> client_env \<Rightarrow> rocker_request \<Rightarrow> wrapper_error + rocker_result" where
  "enter_rocker be bits env r = (case metal_request_of r of
       Inl e \<Rightarrow> Inl e
     | Inr rq \<Rightarrow> (case res_convert (ROCKER_enter_rocker be bits env rq) of
         Inl e \<Rightarrow> Inl e
       | Inr res \<Rightarrow> (case result_name (rs_guard_pname res) of
           Inl e \<Rightarrow> Inl e
         | Inr name \<Rightarrow> Inr \<lparr>app_pid = rs_app_pid res, res_guard_pid = rs_guard_pid res,
             res_guard_pname = name\<rparr>)))"

section \<open>Facts about text\<close>

lemma utf8_branches:
  fixes b :: u8
  obtains "b < 0x80"
    | "\<not> b < 0x80" "0xC2 \<le> b \<and> b \<le> 0xDF"
    | "\<not> b < 0x80" "\<not> (0xC2 \<le> b \<and> b \<le> 0xDF)" "0xE0 \<le> b \<and> b \<le> 0xEF"
    | "\<not> b < 0x80" "\<not> (0xC2 \<le> b \<and> b \<le> 0xDF)" "\<not> (0xE0 \<le> b \<and> b \<le> 0xEF)" "0xF0 \<le> b \<and> b \<le> 0xF4"
    | "\<not> b < 0x80" "\<not> (0xC2 \<le> b \<and> b \<le> 0xDF)" "\<not> (0xE0 \<le> b \<and> b \<le> 0xEF)" "\<not> (0xF0 \<le> b \<and> b \<le> 0xF4)"
  by blast

text \<open>The branches of the validity test and of the pieces, one equation each.\<close>

lemma utf8_valid_branch:
  "b < 0x80 \<Longrightarrow> utf8_valid (b # bs) = utf8_valid bs"
  "\<lbrakk>\<not> b < 0x80; 0xC2 \<le> b \<and> b \<le> 0xDF\<rbrakk> \<Longrightarrow>
     utf8_valid (b # bs) = (case bs of c # r \<Rightarrow> utf8_cont c \<and> utf8_valid r | _ \<Rightarrow> False)"
  "\<lbrakk>\<not> b < 0x80; \<not> (0xC2 \<le> b \<and> b \<le> 0xDF); 0xE0 \<le> b \<and> b \<le> 0xEF\<rbrakk> \<Longrightarrow>
     utf8_valid (b # bs) = (case bs of c # d # r \<Rightarrow> utf8_3ok b c \<and> utf8_cont d \<and> utf8_valid r | _ \<Rightarrow> False)"
  "\<lbrakk>\<not> b < 0x80; \<not> (0xC2 \<le> b \<and> b \<le> 0xDF); \<not> (0xE0 \<le> b \<and> b \<le> 0xEF); 0xF0 \<le> b \<and> b \<le> 0xF4\<rbrakk> \<Longrightarrow>
     utf8_valid (b # bs) =
       (case bs of c # d # e # r \<Rightarrow> utf8_4ok b c \<and> utf8_cont d \<and> utf8_cont e \<and> utf8_valid r | _ \<Rightarrow> False)"
  "\<lbrakk>\<not> b < 0x80; \<not> (0xC2 \<le> b \<and> b \<le> 0xDF); \<not> (0xE0 \<le> b \<and> b \<le> 0xEF); \<not> (0xF0 \<le> b \<and> b \<le> 0xF4)\<rbrakk> \<Longrightarrow>
     utf8_valid (b # bs) = False"
  by (simp_all only: utf8_valid.simps if_True if_False simp_thms utf8_3ok_def utf8_4ok_def conj_assoc)

lemma utf8_piece_branch:
  "b < 0x80 \<Longrightarrow> utf8_piece b bs = (1, True)"
  "\<lbrakk>\<not> b < 0x80; 0xC2 \<le> b \<and> b \<le> 0xDF\<rbrakk> \<Longrightarrow> utf8_piece b bs =
     (case bs of c # r \<Rightarrow> if utf8_cont c then (2, True) else (1, False) | [] \<Rightarrow> (1, False))"
  "\<lbrakk>\<not> b < 0x80; \<not> (0xC2 \<le> b \<and> b \<le> 0xDF); 0xE0 \<le> b \<and> b \<le> 0xEF\<rbrakk> \<Longrightarrow> utf8_piece b bs =
     (case bs of
        c # r \<Rightarrow> if \<not> utf8_3ok b c then (1, False)
          else (case r of d # s \<Rightarrow> if utf8_cont d then (3, True) else (2, False) | [] \<Rightarrow> (2, False))
      | [] \<Rightarrow> (1, False))"
  "\<lbrakk>\<not> b < 0x80; \<not> (0xC2 \<le> b \<and> b \<le> 0xDF); \<not> (0xE0 \<le> b \<and> b \<le> 0xEF); 0xF0 \<le> b \<and> b \<le> 0xF4\<rbrakk> \<Longrightarrow> utf8_piece b bs =
     (case bs of
        c # r \<Rightarrow> if \<not> utf8_4ok b c then (1, False)
          else (case r of
              d # s \<Rightarrow> if \<not> utf8_cont d then (2, False)
                else (case s of e # t \<Rightarrow> if utf8_cont e then (4, True) else (3, False) | [] \<Rightarrow> (3, False))
            | [] \<Rightarrow> (2, False))
      | [] \<Rightarrow> (1, False))"
  "\<lbrakk>\<not> b < 0x80; \<not> (0xC2 \<le> b \<and> b \<le> 0xDF); \<not> (0xE0 \<le> b \<and> b \<le> 0xEF); \<not> (0xF0 \<le> b \<and> b \<le> 0xF4)\<rbrakk> \<Longrightarrow>
     utf8_piece b bs = (1, False)"
  by (simp_all only: utf8_piece_def if_True if_False simp_thms)

lemma utf8_valid_piece:
  "utf8_valid (b # bs) \<longleftrightarrow> snd (utf8_piece b bs) \<and> utf8_valid (drop (fst (utf8_piece b bs)) (b # bs))"
  by (cases rule: utf8_branches [of b])
    (auto simp del: utf8_valid.simps(2) simp: utf8_valid_branch utf8_piece_branch split: list.splits)

lemma utf8_valid_app_piece:
  "snd (utf8_piece b bs) \<Longrightarrow> utf8_valid r \<Longrightarrow> utf8_valid (take (fst (utf8_piece b bs)) (b # bs) @ r)"
  by (cases rule: utf8_branches [of b])
    (auto simp del: utf8_valid.simps(2) simp: utf8_valid_branch utf8_piece_branch split: list.splits if_splits)

lemma utf8_lossy_valid [simp]: "utf8_valid bs \<Longrightarrow> utf8_lossy bs = bs"
proof (induction bs rule: utf8_lossy.induct)
  case (2 b bs)
  obtain n ok where n: "utf8_piece b bs = (n, ok)" by (cases "utf8_piece b bs")
  with "2.prems" have "ok" "utf8_valid (drop n (b # bs))"
    using utf8_valid_piece [of b bs] by simp_all
  with "2.IH" [OF n [symmetric]] n show ?case by simp
qed simp

lemma utf8_valid_lossy: "utf8_valid (utf8_lossy bs)"
proof (induction bs rule: utf8_lossy.induct)
  case (2 b bs)
  obtain n ok where n: "utf8_piece b bs = (n, ok)" by (cases "utf8_piece b bs")
  have r: "utf8_valid (utf8_lossy (drop n (b # bs)))" by (rule "2.IH" [OF n [symmetric]])
  show ?case
  proof (cases ok)
    case True
    with r n utf8_valid_app_piece [of b bs] show ?thesis by simp
  next
    case False
    with r n show ?thesis by (simp add: utf8_cont_def)
  qed
qed simp

lemma takeWhile_nz: "0 \<notin> set (takeWhile (\<lambda>b. b \<noteq> 0) (xs :: bytes))"
  by (induction xs) auto

lemma result_name_eq: "result_name name = Inr (chars_of (utf8_lossy (c_text name)))"
  by (simp add: result_name_def c_text_def cstr_from_bytes_with_nul_text [OF takeWhile_nz])

section \<open>The client's layout is the reference layout\<close>

definition slot :: "string \<Rightarrow> string option" where
  "slot s = (if s = [] then None else Some s)"

definition overlay_slots :: "string list \<Rightarrow> string option list" where
  "overlay_slots ds = map slot (take 16 ds) @ replicate (16 - length ds) None"

lemma cstring_all_plain: "\<forall>s \<in> set ss. CHR 0x00 \<notin> set s \<Longrightarrow> cstring_all ss = Some (map bytes_of ss)"
  by (induction ss) (simp_all add: cstring_new_def)

lemma zip_slots_replicate:
  "zip_slots (replicate n None) xs = map Some (take n xs) @ replicate (n - length xs) None"
  by (induction n arbitrary: xs) (case_tac [2] xs, auto)

lemma length_overlay_slots [simp]: "length (overlay_slots ds) = 16"
  by (simp add: overlay_slots_def)

definition str_ok :: "string \<Rightarrow> bool" where
  "str_ok s \<longleftrightarrow> CHR 0x00 \<notin> set s \<and> Suc (length s) < 2 ^ 31"

lemma strlen_slot:
  assumes "32 \<le> bits" and "str_ok s"
  shows "(word_of_nat (strlen_nul bits (Some (bytes_of s))) :: i32) = field_size (slot s)"
proof -
  have "(2::nat) ^ 31 \<le> 2 ^ bits" using assms(1) by (intro power_increasing) auto
  with assms(2) show ?thesis
    by (auto simp: strlen_nul_def c_strlen_def slot_def field_size_def str_ok_def Let_def mod_less)
qed

lemma strlen_null: "strlen_nul bits None = 0"
  by (simp add: strlen_nul_def c_strlen_def Let_def)

lemma c_iov_slot:
  assumes "str_ok s"
  shows "c_iov (Some (bytes_of s)) (field_size (slot s)) = (if s = [] then [] else path_image s)"
proof (cases "s = []")
  case False
  let ?n = "word_of_nat (Suc (length s)) :: 32 word"
  have "unat ?n = Suc (length s)"
    using assms by (simp add: str_ok_def unsigned_of_nat take_bit_nat_eq_self del: of_nat_Suc)
  then have "nat (sint ?n) = Suc (length s)"
    using assms sint_small [of ?n] by (simp add: str_ok_def)
  with False show ?thesis by (simp add: c_iov_def slot_def field_size_def path_image_def)
qed (simp add: c_iov_def slot_def)

lemma iov_paths:
  assumes "32 \<le> bits" and "\<forall>s. Some s \<in> set ps \<longrightarrow> str_ok s"
  shows "map (\<lambda>s. word_of_nat (strlen_nul bits s)) (map (map_option bytes_of) ps)
      = map field_size (map (\<lambda>q. Option.bind q slot) ps)"
    and "concat (map (\<lambda>s. c_iov s (word_of_nat (strlen_nul bits s))) (map (map_option bytes_of) ps))
      = concat (map path_image (present (map (\<lambda>q. Option.bind q slot) ps)))"
proof -
  have "(word_of_nat (strlen_nul bits (map_option bytes_of p)) :: i32) = field_size (Option.bind p slot)
      \<and> c_iov (map_option bytes_of p) (field_size (Option.bind p slot))
        = concat (map path_image (present [Option.bind p slot]))" if "p \<in> set ps" for p
  proof (cases p)
    case None
    then show ?thesis by (simp add: strlen_null c_iov_def)
  next
    case (Some s)
    with that assms(2) have "str_ok s" by simp
    with Some show ?thesis
      using strlen_slot [OF assms(1), of s] c_iov_slot [of s] by (simp add: slot_def)
  qed
  note each = this
  then show "map (\<lambda>s. word_of_nat (strlen_nul bits s)) (map (map_option bytes_of) ps)
      = map field_size (map (\<lambda>q. Option.bind q slot) ps)" by simp
  have app: "present (xs @ ys) = present xs @ present ys" for xs ys :: "string option list"
    by (induction xs rule: present.induct) auto
  from each show "concat (map (\<lambda>s. c_iov s (word_of_nat (strlen_nul bits s))) (map (map_option bytes_of) ps))
      = concat (map path_image (present (map (\<lambda>q. Option.bind q slot) ps)))"
  proof (induction ps)
    case (Cons p ps)
    then show ?case using app [of "[Option.bind p slot]" "map (\<lambda>q. Option.bind q slot) ps"] by simp
  qed simp
qed

lemma parse_request_wire:
  assumes "32 \<le> bits" and rq: "metal_request_of r = Inr rq"
    and "str_ok (w_pkg_path r)" "str_ok (w_exec_dir r)" "str_ok (w_data_dir r)"
    and "\<forall>s \<in> set (w_overlay_dirs r). str_ok s"
  shows "concat (ROCKER_parse_request be bits rq)
    = req_wire be [w_app_id r, w_uid r, case w_gid r of None \<Rightarrow> - 1 | Some g \<Rightarrow> g]
        ([slot (w_pkg_path r), slot (w_exec_dir r), slot (w_data_dir r)] @ overlay_slots (w_overlay_dirs r))"
proof -
  define ds where "ds = w_overlay_dirs r"
  define ps where "ps = [Some (w_pkg_path r), Some (w_exec_dir r), Some (w_data_dir r)]
      @ map Some (take 16 ds) @ replicate (16 - length ds) None"
  have "cstring_all ds = Some (map bytes_of ds)"
    using assms(6) by (intro cstring_all_plain) (auto simp: ds_def str_ok_def)
  then have req: "rq_app_id rq = w_app_id r" "rq_uid rq = w_uid r"
      "rq_gid rq = (case w_gid r of None \<Rightarrow> - 1 | Some g \<Rightarrow> g)"
      "[rq_pkg_path rq, rq_exec_dir rq, rq_data_dir rq] @ rq_overlay_dirs rq = map (map_option bytes_of) ps"
    using rq assms(3-5)
    by (auto simp: metal_request_of_def ds_def ps_def str_ok_def zip_slots_replicate take_map)
  have ok: "\<forall>s. Some s \<in> set ps \<longrightarrow> str_ok s"
    using assms(3-6) by (auto simp: ps_def ds_def dest: in_set_takeD)
  have slots: "map (\<lambda>q. Option.bind q slot) ps
      = [slot (w_pkg_path r), slot (w_exec_dir r), slot (w_data_dir r)] @ overlay_slots ds"
    by (simp add: ps_def overlay_slots_def)
  show ?thesis
    using iov_paths [OF assms(1) ok] slots
    unfolding ROCKER_parse_request_def Let_def req req_wire_def ds_def
    by (simp del: map_map)
qed

section \<open>The request codec\<close>

text \<open>
  The interface between client and server is a codec over datagrams: the meaning of a valid request is
  read back, and a datagram cut short is refused. The locale has the consequences; it is
  interpreted on the client's layout and the server's parser.
\<close>

locale request_codec =
  fixes encode :: "'r \<Rightarrow> bytes" and valid :: "'r \<Rightarrow> bool"
    and decode :: "bytes \<Rightarrow> 's" and meaning :: "'r \<Rightarrow> 's" and refused :: 's
  assumes decode_encode: "valid r \<Longrightarrow> decode (encode r) = meaning r"
    and decode_cut: "valid r \<Longrightarrow> n < length (encode r) \<Longrightarrow> decode (take n (encode r)) = refused"
begin

lemma decode_buffer:
  "valid r \<Longrightarrow> decode (take n (encode r)) = (if length (encode r) \<le> n then meaning r else refused)"
  using decode_encode decode_cut [of r n] by simp

lemma never_misread: "valid r \<Longrightarrow> decode (take n (encode r)) \<in> {meaning r, refused}"
  by (simp add: decode_buffer)

lemma meaning_unique: "valid r \<Longrightarrow> valid q \<Longrightarrow> encode r = encode q \<Longrightarrow> meaning r = meaning q"
  by (metis decode_encode)

end

text \<open>What a client sends for a request, when it is a request for new rockers at all.\<close>

definition client_datagram :: "bool \<Rightarrow> nat \<Rightarrow> rocker_request \<Rightarrow> bytes" where
  "client_datagram be bits r = (case metal_request_of r of
       Inl e \<Rightarrow> [] | Inr rq \<Rightarrow> concat (ROCKER_parse_request be bits rq))"

definition request_ok :: "rocker_request \<Rightarrow> bool" where
  "request_ok r \<longleftrightarrow>
     0 < sint (w_app_id r) \<and> 0 < sint (w_uid r) \<and> (\<exists>g. w_gid r = Some g \<and> 0 < sint g)
     \<and> (\<forall>s \<in> {w_pkg_path r, w_exec_dir r, w_data_dir r}. s \<noteq> [] \<and> path_ok s)
     \<and> (\<forall>s \<in> set (w_overlay_dirs r). path_ok s)"

text \<open>What the server makes of it: the overlay directories are the first 16, without empty ones.\<close>

definition request_meaning :: "machine \<Rightarrow> rocker_request \<Rightarrow> (server_error, rocker_cfg) io" where
  "request_meaning M r = map_err SrvCore (cfg_new M (w_app_id r) (w_uid r) (w_gid r)
     (w_pkg_path r) (w_exec_dir r) (w_data_dir r) (filter (\<lambda>s. s \<noteq> []) (take 16 (w_overlay_dirs r))))"

lemma present_overlay_slots: "present (overlay_slots ds) = filter (\<lambda>s. s \<noteq> []) (take 16 ds)"
proof -
  have "present (map slot xs @ replicate n None) = filter (\<lambda>s. s \<noteq> []) xs" for xs n
    by (induction xs) (auto simp: slot_def)
  then show ?thesis by (simp add: overlay_slots_def)
qed

lemma datagram_wire:
  assumes "32 \<le> bits" and "request_ok r"
  shows "client_datagram be bits r = req_wire be [w_app_id r, w_uid r, the (w_gid r)]
    ([Some (w_pkg_path r), Some (w_exec_dir r), Some (w_data_dir r)] @ overlay_slots (w_overlay_dirs r))"
proof -
  have str: "str_ok s" if "path_ok s" for s
    using that by (simp add: path_ok_def str_ok_def)
  have nul: "\<forall>s \<in> set (w_overlay_dirs r). CHR 0x00 \<notin> set s"
    using assms(2) by (auto simp: request_ok_def path_ok_def)
  then obtain rq where rq: "metal_request_of r = Inr rq"
    using assms(2) cstring_all_plain [OF nul] by (auto simp: metal_request_of_def request_ok_def path_ok_def)
  then show ?thesis
    using parse_request_wire [OF assms(1) rq] assms(2) str
    by (auto simp: client_datagram_def request_ok_def slot_def)
qed

lemma length_req_wire:
  assumes "length ids = 3" and "length qs = 19"
  shows "length (req_wire be ids qs) = 88 + length (concat (map path_image (present qs)))"
proof -
  have "length (concat (map (i32_to_ne_bytes be) (ids @ map field_size qs))) = 88"
    unfolding length_concat_i32 using assms by simp
  then show ?thesis by (simp only: req_wire_def length_append)
qed

lemma server_reads_datagram:
  assumes "32 \<le> bits" and M: "usize_bits M = 64" and ok: "request_ok r"
    and fit: "length (client_datagram (big_endian M) bits r) < 2 ^ 64"
  shows "req_parse M (client_datagram (big_endian M) bits r) = request_meaning M r"
proof -
  obtain g where g: "w_gid r = Some g" using ok by (auto simp: request_ok_def)
  have slots: "\<forall>s. Some s \<in> set (overlay_slots (w_overlay_dirs r)) \<longrightarrow> path_ok s"
    using ok by (auto simp: overlay_slots_def slot_def request_ok_def dest: in_set_takeD split: if_splits)
  have "88 + length (concat (map path_image ([w_pkg_path r, w_exec_dir r, w_data_dir r]
      @ present (overlay_slots (w_overlay_dirs r))))) < 2 ^ usize_bits M"
    using fit M length_req_wire [of "[w_app_id r, w_uid r, the (w_gid r)]"
        "[Some (w_pkg_path r), Some (w_exec_dir r), Some (w_data_dir r)] @ overlay_slots (w_overlay_dirs r)"]
    by (simp add: datagram_wire [OF assms(1) ok])
  then show ?thesis
    using req_parse_layout [of "w_app_id r" "w_uid r" g "w_pkg_path r" "w_exec_dir r" "w_data_dir r"
        "overlay_slots (w_overlay_dirs r)" M "[]"] ok g slots
    by (simp add: datagram_wire [OF assms(1) ok] request_ok_def request_meaning_def
        present_overlay_slots)
qed

lemma server_refuses_cut:
  assumes "32 \<le> bits" and M: "usize_bits M = 64" and ok: "request_ok r"
    and fit: "length (client_datagram (big_endian M) bits r) < 2 ^ 64"
    and n: "n < length (client_datagram (big_endian M) bits r)"
  shows "req_parse M (take n (client_datagram (big_endian M) bits r)) = fail SrvUnknown"
proof -
  let ?d = "client_datagram (big_endian M) bits r"
  let ?ids = "[w_app_id r, w_uid r, the (w_gid r)]"
  let ?qs = "[Some (w_pkg_path r), Some (w_exec_dir r), Some (w_data_dir r)] @ overlay_slots (w_overlay_dirs r)"
  let ?meta = "concat (map (i32_to_ne_bytes (big_endian M)) (?ids @ map field_size ?qs))"
  have slots: "\<forall>s. Some s \<in> set ?qs \<longrightarrow> path_ok s"
    using ok by (auto simp: overlay_slots_def slot_def request_ok_def dest: in_set_takeD split: if_splits)
  have len: "length ?meta = 88" unfolding length_concat_i32 by simp
  have d: "?d = ?meta @ concat (map path_image (present ?qs))"
    using datagram_wire [OF assms(1) ok] by (simp add: req_wire_def)
  have total: "length ?d = 88 + sum_list (map unat (map field_size ?qs))"
    using length_present_images [OF slots] len by (simp only: d length_append)
  show ?thesis
  proof (cases "n < 88")
    case True
    then show ?thesis by (simp add: req_parse_short)
  next
    case False
    have t: "take n ?d = ?meta @ take (n - 88) (concat (map path_image (present ?qs)))"
      unfolding d using False len by (simp del: map_append)
    have "req_metas (big_endian M) (take n ?d) = ?ids @ map field_size ?qs"
    proof -
      have "req_metas (big_endian M) (?meta @ x) = map (\<lambda>v. if sint v < 0 then 0 else v) (?ids @ map field_size ?qs)" for x
        by (rule req_metas_wire) simp
      moreover have "\<forall>q \<in> set ?qs. \<not> sint (field_size q) < 0"
        using slots sint_field_size by (metis not_Some_eq)
      moreover have "\<forall>v \<in> set ?ids. \<not> sint v < 0"
        using ok by (auto simp: request_ok_def)
      ultimately show ?thesis
        unfolding t by (simp add: map_idI del: concat.simps)
    qed
    then have "sum_list (map unat (drop 3 (req_metas (big_endian M) (take n ?d))))
        = sum_list (map unat (map field_size ?qs))" by simp
    moreover have lt: "length (take n ?d) = n" "88 \<le> length (take n ?d)"
        "length (take n ?d) < 2 ^ usize_bits M" "n - 88 < sum_list (map unat (map field_size ?qs))"
      using n total False fit M by (simp_all only: length_take)
    ultimately show ?thesis
      using req_parse_eq [OF lt(2) usize64_fits [OF M] lt(3)] by (simp only: lt(1) simp_thms if_True)
  qed
qed

interpretation wire: request_codec "client_datagram (big_endian M) bits"
    "\<lambda>r. 32 \<le> bits \<and> usize_bits M = 64 \<and> request_ok r \<and> length (client_datagram (big_endian M) bits r) < 2 ^ 64"
    "req_parse M" "request_meaning M" "fail SrvUnknown" for M bits
  by unfold_locales (auto simp: server_reads_datagram server_refuses_cut)

text \<open>
  C1: A request crosses the wire intact or not at all. For a valid request of the Rust wrapper, laid
  out by the C library, the server's 512-byte buffer holds either the whole datagram, and then parsing
  it is constructing exactly the requested configuration, with the first 16 overlay
  directories, or a cut one, and then parsing refuses it.
\<close>

theorem client_server_roundtrip:
  assumes "32 \<le> bits" and "usize_bits M = 64" and "request_ok r"
    and "length (client_datagram (big_endian M) bits r) < 2 ^ 64"
  shows "req_parse M (take 512 (client_datagram (big_endian M) bits r))
    = (if length (client_datagram (big_endian M) bits r) \<le> 512
       then map_err SrvCore (cfg_new M (w_app_id r) (w_uid r) (w_gid r) (w_pkg_path r) (w_exec_dir r)
              (w_data_dir r) (filter (\<lambda>s. s \<noteq> []) (take 16 (w_overlay_dirs r))))
       else fail SrvUnknown)"
  using wire.decode_buffer [of bits M r 512] assms by (simp add: request_meaning_def)

definition sample_request :: rocker_request where
  "sample_request = \<lparr>w_app_id = 7, w_uid = 1000, w_gid = Some 1000, w_pkg_path = ''/p'',
     w_exec_dir = ''/x'', w_data_dir = ''/d'', w_overlay_dirs = [''/usr'']\<rparr>"

lemma sample_request_ok: "request_ok sample_request"
  using sample_paths_ok by (simp add: request_ok_def sample_request_def)

lemma length_sample_datagram: "length (client_datagram be 64 sample_request) = 102"
proof -
  have "present (overlay_slots [''/usr'']) = [''/usr'']" by (simp add: present_overlay_slots)
  then show ?thesis
    using datagram_wire [of 64 sample_request be] sample_request_ok
      length_req_wire [of "[7, 1000, 1000]" "[Some ''/p'', Some ''/x'', Some ''/d''] @ overlay_slots [''/usr'']" be]
    by (simp add: sample_request_def)
qed

theorem client_server_roundtrip_witness:
  "req_parse sample (take 512 (client_datagram False 64 sample_request))
    = map_err SrvCore (cfg_new sample 7 1000 (Some 1000) ''/p'' ''/x'' ''/d'' [''/usr''])"
  using client_server_roundtrip [of 64 sample sample_request] sample_request_ok length_sample_datagram
  by (simp add: sample_request_def)

text \<open>
  A request without a group is never served: the wrapper sends a missing group as minus
  one, which the parser replaces by zero and then refuses, whatever the rest of the request.
\<close>

lemma no_group_refused:
  assumes "32 \<le> bits" and "usize_bits M = 64" and "w_gid r = None"
    and "\<forall>s \<in> {w_pkg_path r, w_exec_dir r, w_data_dir r} \<union> set (w_overlay_dirs r). str_ok s"
    and "length (client_datagram (big_endian M) bits r) < 2 ^ 64"
  shows "req_parse M (client_datagram (big_endian M) bits r) = fail SrvUnknown"
proof -
  let ?d = "client_datagram (big_endian M) bits r"
  let ?ids = "[w_app_id r, w_uid r, - 1]"
  let ?qs = "[slot (w_pkg_path r), slot (w_exec_dir r), slot (w_data_dir r)] @ overlay_slots (w_overlay_dirs r)"
  have nul: "\<forall>s \<in> set (w_overlay_dirs r). CHR 0x00 \<notin> set s"
    using assms(4) by (auto simp: str_ok_def)
  then obtain rq where rq: "metal_request_of r = Inr rq"
    using assms(3,4) cstring_all_plain [OF nul] by (auto simp: metal_request_of_def str_ok_def)
  then have d: "?d = req_wire (big_endian M) ?ids ?qs"
    using parse_request_wire [OF assms(1) rq] assms(3,4) by (simp add: client_datagram_def)
  have len: "88 \<le> length ?d"
    unfolding d by (subst length_req_wire) simp_all
  have "req_metas (big_endian M) ?d = map (\<lambda>v. if sint v < 0 then 0 else v) (?ids @ map field_size ?qs)"
    unfolding d req_wire_def by (rule req_metas_wire) simp
  then have "req_metas (big_endian M) ?d ! 2 = 0" by simp
  then have "0 \<in> set (take 6 (req_metas (big_endian M) ?d))"
    using nth_mem [of 2 "take 6 (req_metas (big_endian M) ?d)"] by simp
  then show ?thesis
    using req_parse_eq [OF len usize64_fits [OF assms(2)]] assms(2,5) by simp
qed

lemma no_group_refused_instance:
  "req_parse sample (client_datagram False 64 (sample_request\<lparr>w_gid := None\<rparr>)) = fail SrvUnknown"
proof -
  have "client_datagram False 64 (sample_request\<lparr>w_gid := None\<rparr>) =
      req_wire False [7, 1000, - 1] ([Some ''/p'', Some ''/x'', Some ''/d''] @ overlay_slots [''/usr''])"
    using parse_request_wire [of 64 "sample_request\<lparr>w_gid := None\<rparr>" _ False]
    by (simp add: client_datagram_def metal_request_of_def sample_request_def str_ok_def slot_def)
  moreover have "length (req_wire False [7, 1000, - 1]
      ([Some ''/p'', Some ''/x'', Some ''/d''] @ overlay_slots [''/usr''])) < 2 ^ 64"
    by (subst length_req_wire) (simp_all add: present_overlay_slots)
  ultimately show ?thesis
    using no_group_refused [of 64 sample "sample_request\<lparr>w_gid := None\<rparr>"]
    by (simp add: sample_request_def str_ok_def)
qed

section \<open>Results\<close>

lemma enter_rocker_steps:
  assumes "metal_request_of r = Inr rq"
  shows "enter_rocker be bits env r =
    (if \<not> ce_pipe env \<or> \<not> ce_fork env \<or> \<not> ce_pipe_full env then Inl RockerSys
     else if \<not> ce_genaddr env then Inl RockerServerUnaddr
     else if \<not> ce_autobound env then Inl RockerGenLocalAddr
     else if \<not> ce_sendmsg env (ROCKER_parse_request be bits rq) then Inl RockerSendReq
     else (case ce_recv_fd env of
         None \<Rightarrow> Inl RockerRecvResp
       | Some (d, fds) \<Rightarrow>
           let jr = scatter_reply be d Rocker_result_new in
           if sint (rs_guard_pid jr) < 0 \<or> fds = [] then Inl RockerBuildRocker
           else if \<not> (\<forall>f \<in> set (take 3 (fds @ [0, 0, 0])). ce_setns env f) then Inl RockerEnterRocker
           else if sint (ce_clone env) < 0 then Inl RockerAppExec
           else Inr \<lparr>app_pid = ce_clone env, res_guard_pid = rs_guard_pid jr,
                     res_guard_pname = chars_of (utf8_lossy (c_text (rs_guard_pname jr)))\<rparr>))"
proof -
  have ns: "snd (enter_ns f fds) \<longleftrightarrow> (\<forall>x \<in> set fds. f x)" for f fds
    by (induction fds) (auto split: prod.splits)
  have rep: "replicate 3 (0::int) = [0, 0, 0]" by (simp add: numeral_3_eq_3)
  have keep: "err_no (scatter_reply be d Rocker_result_new) = ROCKER_ERR_success" for d
    by (simp add: scatter_reply_def Rocker_result_new_def Let_def)
  show ?thesis
  proof (cases "ce_recv_fd env")
    case None
    then show ?thesis
      by (simp add: enter_rocker_def ROCKER_enter_rocker_def ROCKER_enter_rocker_inner_def
          res_convert_def rocker_err_defs assms)
  next
    case (Some df)
    obtain d fds where df: "df = (d, fds)" by (cases df)
    obtain es ok where es: "enter_ns (ce_setns env) (take 3 (fds @ [0, 0, 0])) = (es, ok)"
      by (cases "enter_ns (ce_setns env) (take 3 (fds @ [0, 0, 0]))")
    then have "ok \<longleftrightarrow> (\<forall>f \<in> set (take 3 (fds @ [0, 0, 0])). ce_setns env f)"
      using ns [of "ce_setns env" "take 3 (fds @ [0, 0, 0])"] by simp
    then show ?thesis
      unfolding enter_rocker_def ROCKER_enter_rocker_def ROCKER_enter_rocker_inner_def rep
      using Some df es keep [of d]
      by (cases ok) (simp_all add: res_convert_def rocker_err_defs assms Let_def result_name_eq
          del: take_append set_append)
  qed
qed



end
