(* ===== verification/Rk_Guard.thy ===== *)
theory Rk_Guard
  imports Rk_Cfg
begin

text \<open>
  The guard process of \<open>core/src/master.rs\<close> (\<open>start_guard\<close>'s \<open>guard_ops\<close> and what it
  calls): the six set-up steps with the codes it reports to the master over the socket pair, the
  loop and overlay mounts, and the wait until it is alone in its pid namespace. The guard runs on its
  own copy of the configuration: it is cloned without shared memory.
\<close>

section \<open>Codes sent to the master\<close>

definition SUCCESS :: i32 where "SUCCESS = - 10000"
definition EMNT_PROC :: i32 where "EMNT_PROC = - 1"
definition EMNT_LOOP :: i32 where "EMNT_LOOP = - 2"
definition EMNT_OVERLAY :: i32 where "EMNT_OVERLAY = - 3"
definition EUNSHARE_USER :: i32 where "EUNSHARE_USER = - 4"
definition ESET_PROCNAME :: i32 where "ESET_PROCNAME = - 5"
definition EMAKE_PRIVATE :: i32 where "EMAKE_PRIVATE = - 6"

lemmas guard_codes = SUCCESS_def EMNT_PROC_def EMNT_LOOP_def EMNT_OVERLAY_def EUNSHARE_USER_def
  ESET_PROCNAME_def EMAKE_PRIVATE_def

definition inform_master :: "machine \<Rightarrow> fd \<Rightarrow> i32 \<Rightarrow> ('e, unit) io" where
  "inform_master M guard_fd msg =
     seq (pnk M (bnd (sys_num M (Send guard_fd (i32_to_ne_bytes (big_endian M) msg))) (from_res Nix)))
       (ret ())"

definition err_checker :: "machine \<Rightarrow> fd \<Rightarrow> i32 \<Rightarrow> 'a core_io \<Rightarrow> 'a core_io" where
  "err_checker M guard_fd msg ops = handle ops (\<lambda>e. seq (inform_master M guard_fd msg) (pdie M))"

definition err_checker_send :: "machine \<Rightarrow> fd \<Rightarrow> i32 \<Rightarrow> i32 core_io \<Rightarrow> unit core_io" where
  "err_checker_send M guard_fd msg ops =
     bnd (err_checker M guard_fd msg ops) (\<lambda>v. inform_master M guard_fd v)"

section \<open>Set-up steps\<close>

definition mount_make_rprivate :: "machine \<Rightarrow> path \<Rightarrow> unit core_io" where
  "mount_make_rprivate M q = mountx M None q None {MS_REC, MS_PRIVATE} None"

definition file_open :: "machine \<Rightarrow> path \<Rightarrow> fd core_io" where
  "file_open M q = bnd (sys_num M (Open RdOnly q)) (from_res IoErr)"

definition guard_mnt_loop :: "machine \<Rightarrow> rocker_cfg \<Rightarrow> i32 core_io" where
  "guard_mnt_loop M cfg =
     bnd (get_loop_dev M) (\<lambda>(loop_dev, lid).
     bnd (file_open M loop_dev) (\<lambda>loop_fd.
     bnd (file_open M (app_pkg_path cfg)) (\<lambda>pkg_fd.
       seq (bind_pkg M loop_fd pkg_fd)
         (seq (mountx M (Some loop_dev) (app_exec_dir cfg) (Some ''squashfs'') {MS_RDONLY} None)
           (ret lid)))))"

definition upperdir :: "rocker_cfg \<Rightarrow> path \<Rightarrow> path" where
  "upperdir cfg q = app_data_dir cfg @ ''/.upperdir____'' @ q"

definition workdir :: "rocker_cfg \<Rightarrow> path \<Rightarrow> path" where
  "workdir cfg q = app_data_dir cfg @ ''/.workdir____'' @ q"

definition overlay_data :: "rocker_cfg \<Rightarrow> path \<Rightarrow> string" where
  "overlay_data cfg q =
     ''lowerdir='' @ q @ '',upperdir='' @ upperdir cfg q @ '',workdir='' @ workdir cfg q"

definition create_dir_all :: "machine \<Rightarrow> path \<Rightarrow> unit core_io" where
  "create_dir_all M q = bnd (sys_unit M (CreateDirAll q)) (from_res IoErr)"

definition overlay_one :: "machine \<Rightarrow> rocker_cfg \<Rightarrow> path \<Rightarrow> unit core_io" where
  "overlay_one M cfg q =
     seq (create_dir_all M (upperdir cfg q))
       (seq (create_dir_all M (workdir cfg q))
         (mountx M None q (Some ''overlay'') {} (Some (overlay_data cfg q))))"

definition guard_mnt_overlay :: "machine \<Rightarrow> rocker_cfg \<Rightarrow> unit core_io" where
  "guard_mnt_overlay M cfg = for_each (overlay_one M cfg) (app_overlay_dirs cfg)"

definition unshare_user :: "machine \<Rightarrow> unit core_io" where
  "unshare_user M = bnd (sys_unit M (Unshare {CLONE_NEWUSER})) (from_res Nix)"

definition guard_setup :: "machine \<Rightarrow> fd \<Rightarrow> rocker_cfg \<Rightarrow> rocker_cfg core_io" where
  "guard_setup M guard_fd cfg =
     seq (err_checker M guard_fd EMAKE_PRIVATE (mount_make_rprivate M ''/''))
    (bnd (err_checker M guard_fd ESET_PROCNAME (guard_set_self_name M cfg)) (\<lambda>cfg.
     seq (err_checker M guard_fd EMNT_PROC (mount_dynfs_proc M))
    (seq (err_checker_send M guard_fd EMNT_LOOP (guard_mnt_loop M cfg))
    (seq (err_checker M guard_fd EMNT_OVERLAY (guard_mnt_overlay M cfg))
    (seq (err_checker M guard_fd EUNSHARE_USER (unshare_user M))
    (seq (inform_master M guard_fd SUCCESS)
    (ret cfg)))))))"

section \<open>Waiting for the namespace to empty\<close>

text \<open>
  One pass over \<open>/proc\<close>: unreadable entries and plain files are skipped, a directory whose name
  reads as a \<open>u32\<close> other than 1 is another process; a directory name that is not UTF-8 panics.
\<close>

fun scan_proc :: "(errno + string \<times> bool) list \<Rightarrow> bool \<Rightarrow> bool option" where
  "scan_proc [] res = Some res"
| "scan_proc (Inl e # es) res = scan_proc es res"
| "scan_proc (Inr (name, is_dir) # es) res =
     (if \<not> is_dir then scan_proc es res
      else if \<not> utf8_valid (bytes_of name) then None
      else case parse_u32 name of
             Some pid \<Rightarrow> scan_proc es (if 1 \<noteq> pid then False else res)
           | None \<Rightarrow> scan_proc es res)"

definition guard_running_alone :: "machine \<Rightarrow> ('e, bool) io" where
  "guard_running_alone M =
     bnd (pnk M (bnd (sys_dir M (ReadDir ''/proc'')) (from_res IoErr)))
       (\<lambda>es. case scan_proc es True of None \<Rightarrow> panic | Some b \<Rightarrow> ret b)"

text \<open>The endless loop, run for at most \<open>n\<close> rounds; \<open>Diverge\<close> is still waiting after them.\<close>

primrec guard_wait :: "nat \<Rightarrow> machine \<Rightarrow> ('e, unit) io" where
  "guard_wait 0 M = diverge"
| "guard_wait (Suc n) M =
     seq (sleep M 20)
       (bnd (guard_running_alone M) (\<lambda>alone. if alone then ret () else guard_wait n M))"

definition guard_ops :: "nat \<Rightarrow> machine \<Rightarrow> fd \<Rightarrow> rocker_cfg \<Rightarrow> int core_io" where
  "guard_ops n M guard_fd cfg = seq (guard_setup M guard_fd cfg) (seq (guard_wait n M) (ret 0))"

section \<open>Observations on a trace: messages sent, privileged effects done\<close>

text \<open>
  \<open>sent fd\<close>: the datagrams sent on a descriptor. \<open>deeds fd\<close>: the calls that changed the
  system, or told the peer on \<open>fd\<close>, and succeeded: mounts, \<open>unshare\<close>, the renaming, binding a
  loop device, and sends.
\<close>

definition sent_of :: "fd \<Rightarrow> event \<Rightarrow> bytes option" where
  "sent_of fd e = (case ev_call e of
       Send f b \<Rightarrow> if f = fd \<and> ev_ok e then Some b else None
     | _ \<Rightarrow> None)"

definition sent :: "fd \<Rightarrow> event list \<Rightarrow> bytes list" where
  "sent fd t = List.map_filter (sent_of fd) t"

fun is_deed :: "fd \<Rightarrow> syscall \<Rightarrow> bool" where
  "is_deed fd (Mount s d f fl dt) = True"
| "is_deed fd (Unshare fl) = True"
| "is_deed fd (PrctlSetName n) = True"
| "is_deed fd (Ioctl f r a) = (r = LOOP_SET_FD)"
| "is_deed fd (Send f b) = (f = fd)"
| "is_deed fd c = False"

definition deed_of :: "fd \<Rightarrow> event \<Rightarrow> syscall option" where
  "deed_of fd e =
     (if is_deed fd (ev_call e) \<and> ev_ok e then Some (ev_call e) else None)"

definition deeds :: "fd \<Rightarrow> event list \<Rightarrow> syscall list" where
  "deeds fd t = List.map_filter (deed_of fd) t"

interpretation sent_obs: observation "sent fd" for fd
  by unfold_locales (simp add: sent_def)

interpretation deeds_obs: observation "deeds fd" for fd
  by unfold_locales (simp add: deeds_def)

lemma deeds_single: "deeds fd [e] = (if is_deed fd (ev_call e) \<and> ev_ok e then [ev_call e] else [])"
  by (simp add: deeds_def deed_of_def)

lemma deeds_not_deed: "\<not> is_deed fd (ev_call e) \<Longrightarrow> deeds fd [e] = []"
  by (simp add: deeds_single)

lemma deeds_emit [simp]:
  "deeds fd (t @ [e]) = deeds fd t @ (if is_deed fd (ev_call e) \<and> ev_ok e then [ev_call e] else [])"
  by (simp add: deeds_obs.obs_append deeds_single)

lemma log_not_deed: "log_call c \<Longrightarrow> \<not> is_deed fd c"
  by (cases c) simp_all

text \<open>The messages are those deeds that are sends.\<close>

definition send_part :: "syscall \<Rightarrow> bytes option" where
  "send_part c = (case c of Send f b \<Rightarrow> Some b | _ \<Rightarrow> None)"

lemma sent_deeds: "sent fd t = List.map_filter send_part (deeds fd t)"
proof (induction t rule: rev_induct)
  case Nil
  then show ?case by (simp add: sent_def deeds_def List.map_filter_def)
next
  case (snoc e t)
  have "sent fd [e] = List.map_filter send_part (deeds fd [e])"
    by (cases "ev_call e")
      (auto simp: sent_def sent_of_def deeds_single send_part_def List.map_filter_def)
  with snoc show ?case by (simp add: sent_obs.obs_append deeds_obs.obs_append del: deeds_emit)
qed

section \<open>What the set-up does, step by step\<close>

text \<open>Programs that do no deed, and programs that do one.\<close>

lemma deeds_silent:
  assumes "emits (\<lambda>c. \<not> is_deed fd c) m" and "\<And>a. Q a []" and "F []"
  shows "observes (deeds fd) m Q F"
  using assms(1) deeds_not_deed assms(2,3) by (rule deeds_obs.observes_silent)

lemma deeds_pdie:
  assumes "F []"
  shows "observes (deeds fd) (pdie M :: ('e, 'a) io) Q F"
proof (rule deeds_obs.observesI)
  fix w w' and r :: "('e, 'a) outcome"
  assume run: "run (pdie M) w = (r, w')"
  have "emits (\<lambda>c. \<not> is_deed fd c) (pdie M :: ('e, 'a) io)"
    by (rule emits_mono [OF emits_pdie]) (rule log_not_deed)
  then have "deeds fd (trace w') = deeds fd (trace w)"
    using deeds_not_deed run by (rule deeds_obs.obs_silent_run)
  with assms run show "\<exists>xs. deeds fd (trace w') = deeds fd (trace w) @ xs
      \<and> (case r of Ok a \<Rightarrow> Q a xs | _ \<Rightarrow> F xs)"
    by (cases r) auto
qed

lemma deeds_sys_unit:
  assumes "is_deed fd c"
  shows "observes (deeds fd) (bnd (sys_unit M c) (from_res f)) (\<lambda>_ xs. xs = [c]) (\<lambda>xs. xs = [])"
proof (rule deeds_obs.observesI)
  fix w r w'
  assume "run (bnd (sys_unit M c) (from_res f)) w = (r, w')"
  with assms show "\<exists>xs. deeds fd (trace w') = deeds fd (trace w) @ xs
      \<and> (case r of Ok a \<Rightarrow> xs = [c] | _ \<Rightarrow> xs = [])"
    by (cases "m_unit M (trace w) c") (auto simp: run_bnd)
qed

lemma deeds_sys_num:
  assumes "is_deed fd c" and "\<And>e. g (Inl e) = Inl (h e)" and "\<And>n. g (Inr n) = Inr (k n)"
  shows "observes (deeds fd) (bnd (sys_num M c) (\<lambda>r. from_res f (g r))) (\<lambda>_ xs. xs = [c])
    (\<lambda>xs. xs = [])"
proof (rule deeds_obs.observesI)
  fix w r w'
  assume "run (bnd (sys_num M c) (\<lambda>r. from_res f (g r))) w = (r, w')"
  with assms show "\<exists>xs. deeds fd (trace w') = deeds fd (trace w) @ xs
      \<and> (case r of Ok a \<Rightarrow> xs = [c] | _ \<Rightarrow> xs = [])"
    by (cases "m_num M (trace w) c") (auto simp: run_bnd)
qed

lemma deeds_mountx:
  "observes (deeds fd) (mountx M s d ft fl dt) (\<lambda>_ xs. xs = [Mount s d ft fl dt]) (\<lambda>xs. xs = [])"
  unfolding mountx_def by (rule deeds_sys_unit) simp

lemma deeds_unshare_user:
  "observes (deeds fd) (unshare_user M) (\<lambda>_ xs. xs = [Unshare {CLONE_NEWUSER}]) (\<lambda>xs. xs = [])"
  unfolding unshare_user_def by (rule deeds_sys_unit) simp

lemma deeds_bind_pkg:
  "observes (deeds fd) (bind_pkg M lfd pfd) (\<lambda>_ xs. xs = [Ioctl lfd LOOP_SET_FD pfd]) (\<lambda>xs. xs = [])"
  unfolding bind_pkg_def loop_bind_def
  by (rule deeds_sys_num [where h = id and k = "\<lambda>_. ()"]) simp_all

lemma deeds_set_name:
  "observes (deeds fd) (guard_set_self_name M cfg)
     (\<lambda>cfg' xs. xs = [PrctlSetName (guard_name_bytes (big_endian M) (guard_pname cfg))]
        \<and> cfg' = cfg\<lparr>guard_pname := u128_from_ne_bytes (big_endian M)
                       (guard_name_bytes (big_endian M) (guard_pname cfg))\<rparr>)
     (\<lambda>xs. xs = [])"
proof (rule deeds_obs.observesI)
  fix w r w'
  let ?c = "PrctlSetName (guard_name_bytes (big_endian M) (guard_pname cfg))"
  assume "run (guard_set_self_name M cfg) w = (r, w')"
  then show "\<exists>xs. deeds fd (trace w') = deeds fd (trace w) @ xs
      \<and> (case r of Ok cfg' \<Rightarrow> xs = [?c] \<and> cfg' = cfg\<lparr>guard_pname := u128_from_ne_bytes (big_endian M)
                       (guard_name_bytes (big_endian M) (guard_pname cfg))\<rparr>
           | _ \<Rightarrow> xs = [])"
    by (cases "m_unit M (trace w) ?c") (auto simp: guard_set_self_name_def run_bnd Let_def)
qed

lemma deeds_inform_master:
  "observes (deeds fd) (inform_master M fd v)
     (\<lambda>_ xs. xs = [Send fd (i32_to_ne_bytes (big_endian M) v)]) (\<lambda>xs. xs = [])"
  unfolding inform_master_def pnk_def
proof (rule deeds_obs.observes_seq, rule deeds_obs.observes_handle)
  let ?c = "Send fd (i32_to_ne_bytes (big_endian M) v)"
  show "observes (deeds fd) (bnd (sys_num M ?c) (from_res Nix)) (\<lambda>_ xs. xs = [?c]) (\<lambda>xs. xs = [])"
    using deeds_sys_num [of fd ?c id id id M Nix] by simp
qed (auto intro: deeds_pdie deeds_obs.observes_ret)

lemma deeds_err_checker:
  assumes "observes (deeds fd) ops Q F"
  shows "observes (deeds fd) (err_checker M fd msg ops) Q
    (\<lambda>xs. F xs \<or> (\<exists>ys. F ys \<and> xs = ys @ [Send fd (i32_to_ne_bytes (big_endian M) msg)]))"
  unfolding err_checker_def
proof (rule deeds_obs.observes_handle [OF assms])
  fix e xs
  assume F: "F xs"
  let ?F' = "\<lambda>xs. F xs \<or> (\<exists>ys. F ys \<and> xs = ys @ [Send fd (i32_to_ne_bytes (big_endian M) msg)])"
  show "observes (deeds fd) (seq (inform_master M fd msg) (pdie M))
     (\<lambda>b ys. Q b (xs @ ys)) (\<lambda>ys. ?F' (xs @ ys))"
    by (rule deeds_obs.observes_seq [OF deeds_inform_master]) (use F in \<open>auto intro: deeds_pdie\<close>)
qed auto

text \<open>
  A plan is the list of deeds a program is to do; \<open>staged\<close> says that it stopped early: a proper
  prefix of the plan is done and then at most one report is sent, the code of the stage that failed.
\<close>

definition staged ::
  "bool \<Rightarrow> fd \<Rightarrow> syscall list \<Rightarrow> (nat \<Rightarrow> i32 option) \<Rightarrow> syscall list \<Rightarrow> bool" where
  "staged be fd T code xs \<longleftrightarrow>
     (\<exists>n < length T. xs = take n T
        \<or> (\<exists>c. code n = Some c \<and> xs = take n T @ [Send fd (i32_to_ne_bytes be c)]))"

fun stage_code :: "(nat \<times> i32 option) list \<Rightarrow> nat \<Rightarrow> i32 option" where
  "stage_code [] n = None"
| "stage_code ((k, c) # ss) n = (if n < k then c else stage_code ss (n - k))"

lemma staged_first:
  "staged be fd T code xs \<Longrightarrow> (\<And>n. n < length T \<Longrightarrow> code' n = code n) \<Longrightarrow> staged be fd (T @ U) code' xs"
  unfolding staged_def by (metis length_append trans_less_add1 take_append take_all_iff
      append_Nil2 diff_is_0_eq' less_imp_le_nat take_0)

lemma staged_later:
  assumes "staged be fd U code ys" and "\<And>n. n < length U \<Longrightarrow> code' (length T + n) = code n"
  shows "staged be fd (T @ U) code' (T @ ys)"
proof -
  from assms(1) obtain n where n: "n < length U"
    and ys: "ys = take n U \<or> (\<exists>c. code n = Some c \<and> ys = take n U @ [Send fd (i32_to_ne_bytes be c)])"
    unfolding staged_def by blast
  then show ?thesis
    unfolding staged_def using assms(2) [OF n] by (intro exI [of _ "length T + n"]) auto
qed

lemma observes_stage:
  assumes m: "observes (deeds fd) m (\<lambda>_ xs. xs = T) (staged be fd T (\<lambda>_. c))"
    and k: "observes (deeds fd) k (\<lambda>b ys. Q b (T @ ys)) (staged be fd U (stage_code ss))"
    and len: "length T = l"
  shows "observes (deeds fd) (seq m k) Q (staged be fd (T @ U) (stage_code ((l, c) # ss)))"
proof (rule deeds_obs.observes_seq [OF m])
  fix xs
  assume "staged be fd T (\<lambda>_. c) xs"
  then show "staged be fd (T @ U) (stage_code ((l, c) # ss)) xs"
    by (rule staged_first) (simp add: len)
next
  fix a xs
  assume xs: "xs = T"
  show "observes (deeds fd) k (\<lambda>b ys. Q b (xs @ ys))
      (\<lambda>ys. staged be fd (T @ U) (stage_code ((l, c) # ss)) (xs @ ys))"
    unfolding xs using k
    by (rule deeds_obs.observes_weaken) (auto intro: staged_later simp: len)
qed

lemma observes_checked:
  assumes "observes (deeds fd) ops (\<lambda>_ xs. xs = T) (\<lambda>xs. \<exists>n < length T. xs = take n T)"
  shows "observes (deeds fd) (err_checker M fd msg ops) (\<lambda>_ xs. xs = T)
    (staged (big_endian M) fd T (\<lambda>_. Some msg))"
  by (rule deeds_obs.observes_weaken [OF deeds_err_checker [OF assms]]) (auto simp: staged_def)

lemma observes_checked_one:
  assumes "observes (deeds fd) ops (\<lambda>_ xs. xs = [d]) (\<lambda>xs. xs = [])"
  shows "observes (deeds fd) (err_checker M fd msg ops) (\<lambda>_ xs. xs = [d])
    (staged (big_endian M) fd [d] (\<lambda>_. Some msg))"
  by (rule observes_checked, rule deeds_obs.observes_weaken [OF assms]) auto

lemma observes_inform_stage:
  "observes (deeds fd) (inform_master M fd v)
     (\<lambda>_ xs. xs = [Send fd (i32_to_ne_bytes (big_endian M) v)])
     (staged be fd [Send fd (i32_to_ne_bytes (big_endian M) v)] (\<lambda>_. None))"
  by (rule deeds_obs.observes_weaken [OF deeds_inform_master]) (auto simp: staged_def)

section \<open>The plan of the set-up\<close>

definition overlay_mount :: "rocker_cfg \<Rightarrow> path \<Rightarrow> syscall" where
  "overlay_mount cfg q = Mount None q (Some ''overlay'') {} (Some (overlay_data cfg q))"

definition guard_plan_tail :: "bool \<Rightarrow> fd \<Rightarrow> rocker_cfg \<Rightarrow> syscall list" where
  "guard_plan_tail be fd cfg =
     map (overlay_mount cfg) (app_overlay_dirs cfg)
     @ [Unshare {CLONE_NEWUSER}] @ [Send fd (i32_to_ne_bytes be SUCCESS)]"

text \<open>A loop device as acquired: its id, its descriptor and the descriptor of the package.\<close>

type_synonym loopdev = "i32 \<times> fd \<times> fd"

fun loop_plan :: "rocker_cfg \<Rightarrow> loopdev \<Rightarrow> syscall list" where
  "loop_plan cfg (lid, loop_fd, pkg_fd) =
     [Ioctl loop_fd LOOP_SET_FD pkg_fd,
      Mount (Some (loop_dev_path lid)) (app_exec_dir cfg) (Some ''squashfs'') {MS_RDONLY} None]"

definition guard_plan_loop :: "bool \<Rightarrow> fd \<Rightarrow> rocker_cfg \<Rightarrow> loopdev \<Rightarrow> syscall list" where
  "guard_plan_loop be fd cfg ld =
     loop_plan cfg ld @ [Send fd (i32_to_ne_bytes be (fst ld))] @ guard_plan_tail be fd cfg"

definition guard_plan :: "bool \<Rightarrow> fd \<Rightarrow> rocker_cfg \<Rightarrow> loopdev \<Rightarrow> syscall list" where
  "guard_plan be fd cfg ld =
     [Mount None ''/'' None {MS_REC, MS_PRIVATE} None]
     @ [PrctlSetName (guard_name_bytes be (guard_pname cfg))]
     @ [Mount (Some ''proc'') ''/proc'' (Some ''proc'') {MS_NODEV, MS_NOEXEC, MS_NOSUID, MS_RELATIME} None]
     @ guard_plan_loop be fd cfg ld"

text \<open>How many deeds each stage has, and the code it reports; a failed send reports nothing.\<close>

definition guard_stages_tail :: "rocker_cfg \<Rightarrow> (nat \<times> i32 option) list" where
  "guard_stages_tail cfg =
     [(length (app_overlay_dirs cfg), Some EMNT_OVERLAY), (1, Some EUNSHARE_USER), (1, None)]"

definition guard_stages :: "rocker_cfg \<Rightarrow> (nat \<times> i32 option) list" where
  "guard_stages cfg =
     [(1, Some EMAKE_PRIVATE), (1, Some ESET_PROCNAME), (1, Some EMNT_PROC), (2, Some EMNT_LOOP),
      (1, None)] @ guard_stages_tail cfg"

lemma emits_file_open [emits_intros]: "P (Open RdOnly q) \<Longrightarrow> emits P (file_open M q)"
  by (auto simp: file_open_def intro!: emits_intros)

lemma emits_create_dir_all [emits_intros]: "P (CreateDirAll q) \<Longrightarrow> emits P (create_dir_all M q)"
  by (auto simp: create_dir_all_def intro!: emits_intros)

lemma deeds_guard_mnt_loop:
  "observes (deeds fd) (guard_mnt_loop M cfg)
     (\<lambda>lid xs. \<exists>ld. lid = fst ld \<and> xs = loop_plan cfg ld)
     (\<lambda>xs. \<exists>ld. \<exists>n < 2. xs = take n (loop_plan cfg ld))"
  (is "observes _ _ ?Q ?F")
proof -
  have none: "?F []"
    by (auto intro: exI [of _ "0::nat"])
  have dev: "observes (deeds fd) (get_loop_dev M) (\<lambda>(dev, lid) xs. dev = loop_dev_path lid \<and> xs = []) (\<lambda>xs. xs = [])"
  proof (rule deeds_obs.observesI)
    fix w r w'
    assume run: "run (get_loop_dev M) w = (r, w')"
    have "emits (\<lambda>c. \<not> is_deed fd c) (get_loop_dev M)"
      by (auto intro!: emits_intros simp: loop_requests log_not_deed)
    then have "deeds fd (trace w') = deeds fd (trace w)"
      using deeds_not_deed run by (rule deeds_obs.obs_silent_run)
    with run show "\<exists>xs. deeds fd (trace w') = deeds fd (trace w) @ xs \<and>
        (case r of Ok a \<Rightarrow> (case a of (dev, lid) \<Rightarrow> \<lambda>xs. dev = loop_dev_path lid \<and> xs = []) xs | _ \<Rightarrow> xs = [])"
      by (cases r) (auto simp: get_loop_dev_def run_iffs)
  qed
  have open_: "observes (deeds fd) (file_open M q) (\<lambda>_ xs. xs = []) (\<lambda>xs. xs = [])" for q
    by (rule deeds_silent) (auto intro!: emits_intros)
  have bound: "observes (deeds fd)
     (seq (bind_pkg M lfd pfd)
        (seq (mountx M (Some (loop_dev_path lid)) (app_exec_dir cfg) (Some ''squashfs'') {MS_RDONLY} None)
           (ret lid))) ?Q ?F" for lfd pfd lid
  proof (rule deeds_obs.observes_seq [OF deeds_bind_pkg], rule deeds_obs.observes_seq [OF deeds_mountx])
    fix a xs b ys
    assume "xs = [Ioctl lfd LOOP_SET_FD pfd]"
      and "ys = [Mount (Some (loop_dev_path lid)) (app_exec_dir cfg) (Some ''squashfs'') {MS_RDONLY} None]"
    then show "observes (deeds fd) (ret lid) (\<lambda>b zs. ?Q b (xs @ ys @ zs)) (\<lambda>zs. ?F (xs @ ys @ zs))"
      by (auto intro!: deeds_obs.observes_ret exI [of _ "(lid, lfd, pfd)"])
  next
    fix a and xs ys :: "syscall list"
    assume "xs = [Ioctl lfd LOOP_SET_FD pfd]" "ys = []"
    then show "?F (xs @ ys)"
      by (intro exI [of _ "(lid, lfd, pfd)"] exI [of _ 1]) simp
  qed (use none in auto)
  have after: "observes (deeds fd) (bnd (file_open M q) f) ?Q ?F"
    if "\<And>n. observes (deeds fd) (f n) ?Q ?F" for q f
  proof (rule deeds_obs.observes_bnd [OF open_])
    fix a and xs :: "syscall list"
    assume "xs = []"
    with that show "observes (deeds fd) (f a) (\<lambda>b ys. ?Q b (xs @ ys)) (\<lambda>ys. ?F (xs @ ys))"
      by simp
  qed (use none in blast)
  show ?thesis
    unfolding guard_mnt_loop_def
  proof (rule deeds_obs.observes_bnd [OF dev])
    fix a and xs :: "syscall list"
    assume "(case a of (dev, lid) \<Rightarrow> \<lambda>xs. dev = loop_dev_path lid \<and> xs = []) xs"
    then obtain lid where a: "a = (loop_dev_path lid, lid)" and xs: "xs = []"
      by (auto split: prod.splits)
    show "observes (deeds fd)
        (case a of (loop_dev, lid) \<Rightarrow> bnd (file_open M loop_dev) (\<lambda>loop_fd.
           bnd (file_open M (app_pkg_path cfg)) (\<lambda>pkg_fd. seq (bind_pkg M loop_fd pkg_fd)
              (seq (mountx M (Some loop_dev) (app_exec_dir cfg) (Some ''squashfs'') {MS_RDONLY} None)
                (ret lid)))))
        (\<lambda>b ys. ?Q b (xs @ ys)) (\<lambda>ys. ?F (xs @ ys))"
      unfolding a xs prod.case append_Nil by (intro after bound)
  qed (use none in blast)
qed

lemma deeds_overlay_one:
  "observes (deeds fd) (overlay_one M cfg q) (\<lambda>_ xs. xs = [overlay_mount cfg q]) (\<lambda>xs. xs = [])"
proof -
  have mk: "observes (deeds fd) (create_dir_all M q) (\<lambda>_ xs. xs = []) (\<lambda>xs. xs = [])" for q
    by (rule deeds_silent) (auto intro!: emits_intros)
  show ?thesis
    unfolding overlay_one_def overlay_mount_def
    by (rule deeds_obs.observes_seq [OF mk], rule deeds_obs.observes_seq [OF mk])
      (auto intro: deeds_mountx)
qed

lemma deeds_guard_mnt_overlay:
  "observes (deeds fd) (guard_mnt_overlay M cfg)
     (\<lambda>_ xs. xs = map (overlay_mount cfg) (app_overlay_dirs cfg))
     (\<lambda>xs. \<exists>n < length (map (overlay_mount cfg) (app_overlay_dirs cfg)).
         xs = take n (map (overlay_mount cfg) (app_overlay_dirs cfg)))"
  unfolding guard_mnt_overlay_def
  by (rule deeds_obs.observes_weaken [OF deeds_obs.observes_for_each [where g = "overlay_mount cfg"]])
    (auto intro: deeds_overlay_one simp: take_map)

text \<open>The same composition where the rest of the plan depends on values met on the way.\<close>

lemma observes_stage_value:
  assumes m: "observes (deeds fd) m (\<lambda>a xs. a = v \<and> xs = T) (staged be fd T (\<lambda>_. c))"
    and k: "observes (deeds fd) (f v) (\<lambda>b ys. Q b (T @ ys)) (\<lambda>ys. \<exists>i. staged be fd (U i) (stage_code ss) ys)"
    and len: "length T = l"
  shows "observes (deeds fd) (bnd m f) Q (\<lambda>xs. \<exists>i. staged be fd (T @ U i) (stage_code ((l, c) # ss)) xs)"
proof (rule deeds_obs.observes_bnd [OF m])
  fix xs
  assume "staged be fd T (\<lambda>_. c) xs"
  then have "staged be fd (T @ U i) (stage_code ((l, c) # ss)) xs" for i
    by (rule staged_first) (simp add: len)
  then show "\<exists>i. staged be fd (T @ U i) (stage_code ((l, c) # ss)) xs" by blast
next
  fix a xs
  assume "a = v \<and> xs = T"
  then have av: "a = v" and xs: "xs = T" by simp_all
  show "observes (deeds fd) (f a) (\<lambda>b ys. Q b (xs @ ys))
      (\<lambda>ys. \<exists>i. staged be fd (T @ U i) (stage_code ((l, c) # ss)) (xs @ ys))"
    unfolding xs av
  proof (rule deeds_obs.observes_weaken [OF k])
    fix ys
    assume "\<exists>i. staged be fd (U i) (stage_code ss) ys"
    then obtain i where "staged be fd (U i) (stage_code ss) ys" by blast
    then have "staged be fd (T @ U i) (stage_code ((l, c) # ss)) (T @ ys)"
      by (rule staged_later) (simp add: len)
    then show "\<exists>i. staged be fd (T @ U i) (stage_code ((l, c) # ss)) (T @ ys)" by blast
  qed
qed

lemma observes_stage_some:
  fixes m :: "('e, unit) io"
  assumes "observes (deeds fd) m (\<lambda>_ xs. xs = T) (staged be fd T (\<lambda>_. c))"
    and "observes (deeds fd) k (\<lambda>b ys. Q b (T @ ys)) (\<lambda>ys. \<exists>i. staged be fd (U i) (stage_code ss) ys)"
    and "length T = l"
  shows "observes (deeds fd) (seq m k) Q (\<lambda>xs. \<exists>i. staged be fd (T @ U i) (stage_code ((l, c) # ss)) xs)"
  unfolding seq_def using assms by (intro observes_stage_value [where v = "()"]) simp_all

lemma deeds_guard_tail:
  "observes (deeds fd)
     (seq (err_checker M fd EMNT_OVERLAY (guard_mnt_overlay M cfg))
       (seq (err_checker M fd EUNSHARE_USER (unshare_user M))
         (seq (inform_master M fd SUCCESS) (ret cfg))))
     (\<lambda>cfg' xs. cfg' = cfg \<and> xs = guard_plan_tail (big_endian M) fd cfg)
     (staged (big_endian M) fd (guard_plan_tail (big_endian M) fd cfg)
       (stage_code (guard_stages_tail cfg)))"
proof -
  let ?be = "big_endian M" and ?ov = "map (overlay_mount cfg) (app_overlay_dirs cfg)"
  let ?s = "Send fd (i32_to_ne_bytes (big_endian M) SUCCESS)"
  have last: "observes (deeds fd) (seq (inform_master M fd SUCCESS) (ret cfg))
     (\<lambda>cfg' ys. cfg' = cfg \<and> ?ov @ [Unshare {CLONE_NEWUSER}] @ ys = guard_plan_tail ?be fd cfg)
     (staged ?be fd [?s] (stage_code [(1, None)]))"
    by (rule deeds_obs.observes_seq [OF observes_inform_stage [of fd M SUCCESS ?be]])
      (auto intro!: deeds_obs.observes_ret simp: guard_plan_tail_def staged_def)
  show ?thesis
    unfolding guard_plan_tail_def guard_stages_tail_def
    by (intro observes_stage observes_checked observes_checked_one deeds_guard_mnt_overlay
        deeds_unshare_user) (use last in \<open>simp_all add: guard_plan_tail_def\<close>)
qed

lemma deeds_guard_loop_stage:
  "observes (deeds fd)
     (bnd (err_checker M fd EMNT_LOOP (guard_mnt_loop M cfg)) (\<lambda>lid.
        seq (inform_master M fd lid)
          (seq (err_checker M fd EMNT_OVERLAY (guard_mnt_overlay M cfg))
            (seq (err_checker M fd EUNSHARE_USER (unshare_user M))
              (seq (inform_master M fd SUCCESS) (ret cfg))))))
     (\<lambda>cfg' xs. cfg' = cfg \<and> (\<exists>ld. xs = guard_plan_loop (big_endian M) fd cfg ld))
     (\<lambda>xs. \<exists>ld. staged (big_endian M) fd (guard_plan_loop (big_endian M) fd cfg ld)
        (stage_code ((2, Some EMNT_LOOP) # (1, None) # guard_stages_tail cfg)) xs)"
  (is "observes _ _ ?Q (\<lambda>xs. \<exists>ld. ?F ld xs)")
proof (rule deeds_obs.observes_bnd [OF deeds_err_checker [OF deeds_guard_mnt_loop]])
  let ?be = "big_endian M"
  fix xs
  assume "(\<exists>ld. \<exists>n<2. xs = take n (loop_plan cfg ld))
    \<or> (\<exists>ys. (\<exists>ld. \<exists>n<2. ys = take n (loop_plan cfg ld)) \<and> xs = ys @ [Send fd (i32_to_ne_bytes ?be EMNT_LOOP)])"
  then obtain ld n where "n < 2" and "xs = take n (loop_plan cfg ld)
      \<or> xs = take n (loop_plan cfg ld) @ [Send fd (i32_to_ne_bytes ?be EMNT_LOOP)]"
    by blast
  moreover have "length (loop_plan cfg ld) = 2" by (cases ld) simp
  ultimately have "staged ?be fd (loop_plan cfg ld) (\<lambda>_. Some EMNT_LOOP) xs"
    unfolding staged_def by (intro exI [of _ n]) simp
  then have "?F ld xs"
    unfolding guard_plan_loop_def by (rule staged_first) (cases ld; simp)
  then show "\<exists>ld. ?F ld xs" by blast
next
  let ?be = "big_endian M"
  fix lid and xs :: "syscall list"
  assume "\<exists>ld. lid = fst ld \<and> xs = loop_plan cfg ld"
  then obtain ld where ld: "lid = fst ld" "xs = loop_plan cfg ld" by blast
  let ?tail = "seq (err_checker M fd EMNT_OVERLAY (guard_mnt_overlay M cfg))
     (seq (err_checker M fd EUNSHARE_USER (unshare_user M)) (seq (inform_master M fd SUCCESS) (ret cfg)))"
  have "observes (deeds fd) (seq (inform_master M fd (fst ld)) ?tail)
      (\<lambda>cfg' ys. ?Q cfg' (loop_plan cfg ld @ ys))
      (staged ?be fd ([Send fd (i32_to_ne_bytes ?be (fst ld))] @ guard_plan_tail ?be fd cfg)
        (stage_code ((1, None) # guard_stages_tail cfg)))"
  proof (rule observes_stage [OF observes_inform_stage])
    show "observes (deeds fd) ?tail
       (\<lambda>cfg' ys. ?Q cfg' (loop_plan cfg ld @ [Send fd (i32_to_ne_bytes ?be (fst ld))] @ ys))
       (staged ?be fd (guard_plan_tail ?be fd cfg) (stage_code (guard_stages_tail cfg)))"
      by (rule deeds_obs.observes_weaken [OF deeds_guard_tail])
        (auto simp only: guard_plan_loop_def intro!: exI [of _ ld])
  qed simp
  then show "observes (deeds fd) (seq (inform_master M fd lid) ?tail)
      (\<lambda>cfg' ys. ?Q cfg' (xs @ ys)) (\<lambda>ys. \<exists>ld. ?F ld (xs @ ys))"
    unfolding ld
  proof (rule deeds_obs.observes_weaken)
    fix ys
    assume "staged ?be fd ([Send fd (i32_to_ne_bytes ?be (fst ld))] @ guard_plan_tail ?be fd cfg)
        (stage_code ((1, None) # guard_stages_tail cfg)) ys"
    then have "?F ld (loop_plan cfg ld @ ys)"
      unfolding guard_plan_loop_def by (rule staged_later) (cases ld; simp)
    then show "\<exists>ld'. ?F ld' (loop_plan cfg ld @ ys)" by blast
  qed
qed

lemma guard_setup_assoc:
  "guard_setup M fd cfg =
     seq (err_checker M fd EMAKE_PRIVATE (mount_make_rprivate M ''/''))
    (bnd (err_checker M fd ESET_PROCNAME (guard_set_self_name M cfg)) (\<lambda>cfg.
     seq (err_checker M fd EMNT_PROC (mount_dynfs_proc M))
    (bnd (err_checker M fd EMNT_LOOP (guard_mnt_loop M cfg)) (\<lambda>lid.
     seq (inform_master M fd lid)
    (seq (err_checker M fd EMNT_OVERLAY (guard_mnt_overlay M cfg))
    (seq (err_checker M fd EUNSHARE_USER (unshare_user M))
    (seq (inform_master M fd SUCCESS) (ret cfg))))))))"
  by (simp add: guard_setup_def err_checker_send_def seq_def bnd_assoc)

lemma plan_rename [simp]:
  "guard_plan_loop be fd (cfg\<lparr>guard_pname := x\<rparr>) ld = guard_plan_loop be fd cfg ld"
  "guard_stages_tail (cfg\<lparr>guard_pname := x\<rparr>) = guard_stages_tail cfg"
  by (cases ld; simp add: guard_plan_loop_def guard_plan_tail_def guard_stages_tail_def
      overlay_mount_def [abs_def] overlay_data_def upperdir_def workdir_def)+

definition renamed :: "bool \<Rightarrow> rocker_cfg \<Rightarrow> rocker_cfg" where
  "renamed be cfg =
     cfg\<lparr>guard_pname := u128_from_ne_bytes be (guard_name_bytes be (guard_pname cfg))\<rparr>"

lemma deeds_guard_setup:
  "observes (deeds fd) (guard_setup M fd cfg)
     (\<lambda>cfg' xs. cfg' = renamed (big_endian M) cfg \<and> (\<exists>ld. xs = guard_plan (big_endian M) fd cfg ld))
     (\<lambda>xs. \<exists>ld. staged (big_endian M) fd (guard_plan (big_endian M) fd cfg ld)
        (stage_code (guard_stages cfg)) xs)"
proof -
  let ?be = "big_endian M" and ?name = "PrctlSetName (guard_name_bytes (big_endian M) (guard_pname cfg))"
  have name: "observes (deeds fd) (err_checker M fd ESET_PROCNAME (guard_set_self_name M cfg))
      (\<lambda>cfg' xs. cfg' = renamed ?be cfg \<and> xs = [?name]) (staged ?be fd [?name] (\<lambda>_. Some ESET_PROCNAME))"
    by (rule deeds_obs.observes_weaken [OF deeds_err_checker [OF deeds_set_name]])
      (auto simp: renamed_def staged_def)
  let ?Q = "\<lambda>cfg' xs. cfg' = renamed ?be cfg \<and> (\<exists>ld. xs = guard_plan ?be fd cfg ld)"
  have rest: "guard_plan_loop ?be fd (renamed ?be cfg) ld = guard_plan_loop ?be fd cfg ld"
    "guard_stages_tail (renamed ?be cfg) = guard_stages_tail cfg" for ld
    by (simp_all add: renamed_def)
  let ?a = "Mount None ''/'' None {MS_REC, MS_PRIVATE} None"
  let ?c = "Mount (Some ''proc'') ''/proc'' (Some ''proc'') {MS_NODEV, MS_NOEXEC, MS_NOSUID, MS_RELATIME} None"
  show ?thesis
    unfolding guard_setup_assoc guard_plan_def guard_stages_def mount_make_rprivate_def
      mount_dynfs_proc_def append_Cons append_Nil
    apply (rule observes_stage_some [where T = "[?a]", unfolded append_Cons append_Nil])
      apply (rule observes_checked_one [OF deeds_mountx])
     apply (rule observes_stage_value [where T = "[?name]", unfolded append_Cons append_Nil])
       apply (rule name)
      apply (rule observes_stage_some [where T = "[?c]", unfolded append_Cons append_Nil])
        apply (rule observes_checked_one [OF deeds_mountx])
       apply (rule deeds_obs.observes_weaken [OF deeds_guard_loop_stage])
        apply (auto simp only: rest)[2]
      apply simp_all
    done
qed

section \<open>The messages the master gets\<close>

lemma no_err_err_checker [no_err_intros]: "no_err (err_checker M fd msg ops)"
  unfolding err_checker_def inform_master_def by (intro no_err_intros)

lemma no_err_inform_master [no_err_intros]: "no_err (inform_master M fd v)"
  unfolding inform_master_def by (intro no_err_intros)

lemma no_err_guard_setup: "no_err (guard_setup M fd cfg)"
  unfolding guard_setup_assoc by (intro no_err_intros)

lemma log_not_sent: "log_call (ev_call e) \<Longrightarrow> sent fd [e] = []"
  by (cases "ev_call e") (simp_all add: sent_def sent_of_def)

lemma send_part_simps [simp]:
  "send_part (Send f b) = Some b" "send_part (Mount s d ft fl dt) = None"
  "send_part (Unshare nf) = None" "send_part (PrctlSetName nm) = None" "send_part (Ioctl f r a) = None"
  by (simp_all add: send_part_def)

lemma sends_of_overlays [simp]:
  "List.map_filter send_part (map (overlay_mount cfg) qs) = []"
  "List.map_filter send_part (take n (map (overlay_mount cfg) qs)) = []"
  by (auto simp: List.map_filter_def overlay_mount_def filter_empty_conv take_map)

lemma map_filter_Cons [simp]:
  "List.map_filter f (x # xs) = (case f x of None \<Rightarrow> [] | Some y \<Rightarrow> [y]) @ List.map_filter f xs"
  "List.map_filter f [] = []"
  by (simp_all add: List.map_filter_def split: option.split)

lemma sends_of_plan:
  "List.map_filter send_part (guard_plan be fd cfg ld)
     = [i32_to_ne_bytes be (fst ld), i32_to_ne_bytes be SUCCESS]"
  by (cases ld) (simp add: guard_plan_def guard_plan_loop_def guard_plan_tail_def)

section \<open>The wait\<close>

definition after_sleep :: "machine \<Rightarrow> world \<Rightarrow> world" where
  "after_sleep M w = emit (Sleep 20) (res_reply (\<lambda>_. RUnit) (m_unit M (trace w) (Sleep 20))) w"

definition poll_answer :: "machine \<Rightarrow> world \<Rightarrow> errno + (errno + string \<times> bool) list" where
  "poll_answer M w = m_dir M (trace (after_sleep M w)) (ReadDir ''/proc'')"

definition after_poll :: "machine \<Rightarrow> world \<Rightarrow> world" where
  "after_poll M w = emit (ReadDir ''/proc'') (res_reply RDir (poll_answer M w)) (after_sleep M w)"

definition poll_says :: "bool \<Rightarrow> machine \<Rightarrow> world \<Rightarrow> bool" where
  "poll_says b M w = (case poll_answer M w of Inl e \<Rightarrow> False | Inr es \<Rightarrow> scan_proc es True = Some b)"

text \<open>The state in which the guard starts its round \<open>k\<close>, counted from 0, if it gets there.\<close>

definition poll_world :: "machine \<Rightarrow> world \<Rightarrow> nat \<Rightarrow> world" where
  "poll_world M w k = (after_poll M ^^ k) w"

lemma run_guard_running_alone:
  assumes "poll_says b M w"
  shows "run (seq (sleep M 20) (bnd (guard_running_alone M) f)) w = run (f b) (after_poll M w)"
  using assms
  by (auto simp: guard_running_alone_def poll_says_def poll_answer_def after_poll_def after_sleep_def
      pnk_def run_bnd run_handle seq_def split: sum.splits)

lemma run_guard_wait_Suc:
  "poll_says b M w \<Longrightarrow> run (guard_wait (Suc m) M) w =
     (if b then (Ok (), after_poll M w) else run (guard_wait m M) (after_poll M w))"
  by (simp only: guard_wait.simps run_guard_running_alone) simp

lemma run_guard_wait_busy:
  assumes "\<And>j. j < k \<Longrightarrow> poll_says False M (poll_world M w j)" and "k \<le> n"
  shows "run (guard_wait n M) w = run (guard_wait (n - k) M) (poll_world M w k)"
  using assms
proof (induction k)
  case 0
  then show ?case by (simp add: poll_world_def)
next
  case (Suc k)
  then obtain m where m: "n - k = Suc m" by (cases "n - k") auto
  then have "n - Suc k = m" by simp
  moreover have "run (guard_wait (Suc m) M) (poll_world M w k) = run (guard_wait m M) (poll_world M w (Suc k))"
    using Suc.prems by (simp add: run_guard_wait_Suc [where b = False] poll_world_def del: guard_wait.simps)
  ultimately show ?case using Suc m by simp
qed

fun other_process :: "errno + string \<times> bool \<Rightarrow> bool" where
  "other_process (Inl e) = False"
| "other_process (Inr (name, is_dir)) \<longleftrightarrow>
     is_dir \<and> (case parse_u32 name of None \<Rightarrow> False | Some pid \<Rightarrow> pid \<noteq> 1)"

fun utf8_entry :: "errno + string \<times> bool \<Rightarrow> bool" where
  "utf8_entry (Inl e) = True"
| "utf8_entry (Inr (name, is_dir)) \<longleftrightarrow> is_dir \<longrightarrow> utf8_valid (bytes_of name)"

lemma scan_proc_eq:
  "scan_proc es res =
     (if \<forall>x \<in> set es. utf8_entry x then Some (res \<and> \<not> (\<exists>x \<in> set es. other_process x)) else None)"
  by (induction es res rule: scan_proc.induct) (auto split: option.splits)

section \<open>Properties of the guard\<close>





text \<open>
  What counts as alone. If \<open>/proc\<close> can be listed and the names of its directories are UTF-8, the
  guard finds itself alone exactly when no directory there is named by a decimal \<open>u32\<close> other than 1;
  entries that cannot be read and plain files do not count.
\<close>

lemma running_alone_iff:
  assumes "m_dir M (trace w) (ReadDir ''/proc'') = Inr es"
    and "\<forall>x \<in> set es. case x of Inl e \<Rightarrow> True | Inr (name, is_dir) \<Rightarrow> is_dir \<longrightarrow> utf8_valid (bytes_of name)"
  shows "run (guard_running_alone M :: ('e, bool) io) w
    = (Ok (\<forall>name. Inr (name, True) \<in> set es \<longrightarrow> parse_u32 name \<in> {None, Some 1}),
       emit (ReadDir ''/proc'') (RDir es) w)"
proof -
  have utf8: "\<forall>x \<in> set es. utf8_entry x"
  proof
    fix x
    assume "x \<in> set es"
    with assms(2) show "utf8_entry x" by (cases x rule: utf8_entry.cases) auto
  qed
  define own where "own name \<longleftrightarrow> parse_u32 name \<in> {None, Some 1}" for name
  have other: "other_process x \<longleftrightarrow> (\<exists>name. x = Inr (name, True) \<and> \<not> own name)" for x
    by (cases x rule: other_process.cases) (auto simp: own_def split: option.splits)
  have "(\<not> (\<exists>x \<in> set es. other_process x)) \<longleftrightarrow> (\<forall>name. Inr (name, True) \<in> set es \<longrightarrow> own name)"
  proof (intro iffI allI impI)
    fix name
    assume "\<not> (\<exists>x \<in> set es. other_process x)" "Inr (name, True) \<in> set es"
    then have "\<not> other_process (Inr (name, True))" by blast
    then show "own name" by (simp only: other) simp
  next
    assume own: "\<forall>name. Inr (name, True) \<in> set es \<longrightarrow> own name"
    show "\<not> (\<exists>x \<in> set es. other_process x)"
    proof
      assume "\<exists>x \<in> set es. other_process x"
      then obtain x where "x \<in> set es" "other_process x" by blast
      then obtain name where "Inr (name, True) \<in> set es" "\<not> own name" by (auto simp only: other)
      with own show False by simp
    qed
  qed
  with utf8 show ?thesis
    using assms(1) by (simp add: guard_running_alone_def pnk_def run_bnd run_handle scan_proc_eq own_def)
qed

lemma running_alone_iff_instance:
  "fst (run (guard_running_alone (sample\<lparr>m_dir := \<lambda>_ _. Inr [Inr (''1'', True), Inr (''uptime'', False)]\<rparr>) :: (core_error, bool) io) start)
     = Ok True"
proof -
  let ?M = "sample\<lparr>m_dir := \<lambda>_ _. Inr [Inr (''1'', True), Inr (''uptime'', False)]\<rparr>"
  let ?es = "[Inr (''1'', True), Inr (''uptime'', False)] :: (errno + string \<times> bool) list"
  have "parse_u32 ''1'' = Some 1"
    by (simp add: parse_u32_def digit_val_def)
  moreover have "run (guard_running_alone ?M :: (core_error, bool) io) start
    = (Ok (\<forall>name. Inr (name, True) \<in> set ?es \<longrightarrow> parse_u32 name \<in> {None, Some 1}),
       emit (ReadDir ''/proc'') (RDir ?es) start)"
    by (rule running_alone_iff) (simp_all add: bytes_of_def)
  ultimately show ?thesis by simp
qed

text \<open>
  A guard that cannot open the loop control device dies without a word: the failure is a panic
  inside the lazily opened \<open>LOOP_MASTER\<close>, so neither a code nor a loop id is sent, although the
  mount of the package has an error code of its own.
\<close>

lemma loop_control_failure_silent:
  assumes "\<And>t. m_num M t (Open RdWr ''/dev/loop-control'') = Inl e" and "loop_master w = None"
    and "\<And>t c. m_unit M t c = Inr ()" and "run (guard_setup M fd cfg) w = (r, w')"
  shows "(r = Panic \<or> r = Diverge) \<and> sent fd (trace w') = sent fd (trace w)"
proof -
  define w1 where "w1 = emit (Mount (Some ''proc'') ''/proc'' (Some ''proc'') {MS_NODEV, MS_NOEXEC, MS_NOSUID, MS_RELATIME} None) RUnit
      (emit (PrctlSetName (guard_name_bytes (big_endian M) (guard_pname cfg))) RUnit
        (emit (Mount None ''/'' None {MS_REC, MS_PRIVATE} None) RUnit w))"
  have lm: "loop_master w1 = None" using assms(2) by (simp add: w1_def)
  define w2 where "w2 = emit (Open RdWr ''/dev/loop-control'') (RErr e) w1"
  obtain q w3 where die: "run (pdie M :: (core_error, fd) io) w2 = (q, w3)" and q: "q = Panic \<or> q = Diverge"
    using pdie_cases [where M = M and w = w2] by (metis prod.collapse)
  have "run (LOOP_MASTER M :: (core_error, fd) io) w1 = (q, w3)"
    using lm assms(1) die q
    by (auto simp: LOOP_MASTER_def loop_ctl_open_def pnk_def run_bnd run_handle w2_def)
  then have "run (guard_mnt_loop M c) w1 = (map_outcome id (\<lambda>_. 0) q, w3)" for c
    using q by (auto simp: guard_mnt_loop_def get_loop_dev_def)
  then have "run (guard_setup M fd cfg) w = (map_outcome id (\<lambda>_. cfg) q, w3)"
    using q assms(3)
    by (auto simp: guard_setup_def err_checker_def err_checker_send_def mount_make_rprivate_def mountx_def
        mount_dynfs_proc_def guard_set_self_name_def run_bnd run_handle seq_def Let_def w1_def [symmetric])
  with assms(4) q have r: "(r = Panic \<or> r = Diverge)" "w' = w3" by auto
  have "sent fd (trace w3) = sent fd (trace w2)"
    by (rule sent_obs.obs_silent_run [OF emits_pdie log_not_sent die])
  then show ?thesis
    using r by (simp add: w2_def w1_def sent_obs.obs_append sent_def sent_of_def)
qed

lemma loop_control_failure_silent_instance:
  "sent 4 (trace (snd (run (guard_setup (sample\<lparr>m_num := \<lambda>_ _. Inl 2\<rparr>) 4 sample_cfg) start))) = []"
proof -
  let ?M = "sample\<lparr>m_num := \<lambda>_ _. Inl 2\<rparr>"
  obtain r w' where run: "run (guard_setup ?M 4 sample_cfg) start = (r, w')"
    by (cases "run (guard_setup ?M 4 sample_cfg) start")
  have "(r = Panic \<or> r = Diverge) \<and> sent 4 (trace w') = sent 4 (trace start)"
    by (rule loop_control_failure_silent [where e = 2, OF _ _ _ run]) simp_all
  with run show ?thesis by (simp add: sent_def)
qed

end
