(* ===== verification/Rk_Master.thy ===== *)
theory Rk_Master
  imports Rk_Guard
begin

text \<open>
  The master's side of \<open>RockerCfg\<close> (\<open>core/src/master.rs\<close>): starting a guard and
  waiting for its two messages (\<open>init\<close>, \<open>start_guard\<close>), the user and group id maps, the
  namespace descriptors, registration and release. The resource table is the value of the mutex:
  its map and whether a panic has poisoned it.
\<close>

section \<open>Id maps\<close>

text \<open>Open for writing, write, and close when the temporary \<open>File\<close> is dropped.\<close>

definition write_file :: "machine \<Rightarrow> path \<Rightarrow> string \<Rightarrow> unit core_io" where
  "write_file M q content =
     bnd (bnd (sys_num M (Open WrOnly q)) (from_res IoErr)) (\<lambda>fd.
       case cstring_new content of
         None \<Rightarrow> seq (sys_unit M (Close fd)) panic
       | Some data \<Rightarrow> bnd (sys_unit M (WriteAll fd data)) (\<lambda>r.
           seq (sys_unit M (Close fd)) (from_res IoErr r)))"

definition proc_path :: "u32 \<Rightarrow> string \<Rightarrow> path" where
  "proc_path pid leaf = ''/proc/'' @ show_u32 pid @ ''/'' @ leaf"

definition write_uidmap :: "machine \<Rightarrow> rocker_cfg \<Rightarrow> u32 \<Rightarrow> unit core_io" where
  "write_uidmap M cfg pid =
     write_file M (proc_path pid ''uid_map'') (''0 '' @ show_u32 (uid cfg) @ '' 1'')"

definition write_gidmap :: "machine \<Rightarrow> rocker_cfg \<Rightarrow> u32 \<Rightarrow> unit core_io" where
  "write_gidmap M cfg pid = (case gid cfg of
       None \<Rightarrow> ret ()
     | Some g \<Rightarrow>
         seq (write_file M (proc_path pid ''setgroups'') ''deny'')
           (write_file M (proc_path pid ''gid_map'') (''0 '' @ show_u32 g @ '' 1'')))"

section \<open>Starting a guard\<close>

definition start_guard :: "machine \<Rightarrow> rocker_cfg \<Rightarrow> fd \<Rightarrow> (rocker_cfg \<times> u32) core_io" where
  "start_guard M cfg guard_fd =
     bnd (bnd (sys_num M (Clone {CLONE_NEWNS, CLONE_NEWPID})) (from_res Nix)) (\<lambda>pid.
       ret (cfg\<lparr>guard_stack := Some STACK_SIZ\<rparr>, word_of_int pid))"

definition check_err :: "machine \<Rightarrow> i32 \<Rightarrow> unit core_io" where
  "check_err M errno =
     (if errno = SUCCESS then ret ()
      else if errno = EMAKE_PRIVATE then fail Unknown
      else if errno = ESET_PROCNAME then fail SetProcName
      else if errno = EMNT_PROC then fail MntProc
      else if errno = EMNT_LOOP then fail MntLoop
      else if errno = EMNT_OVERLAY then fail MntOverlay
      else if errno = EUNSHARE_USER then fail UnshareUser
      else pdie M)"

definition recv_or_kill :: "machine \<Rightarrow> fd \<Rightarrow> u32 \<Rightarrow> i32 core_io" where
  "recv_or_kill M master_fd pid =
     bnd (on_err (recv_timed M master_fd (i32_to_ne_bytes (big_endian M) 0) 2) (kill_SIGKILL M pid))
       (\<lambda>b. ret (i32_from_ne_bytes (big_endian M) b))"

definition init :: "machine \<Rightarrow> rocker_cfg \<Rightarrow> rocker_cfg core_io" where
  "init M cfg =
     bnd (unix_dgram_socketpair M) (\<lambda>(master_fd, guard_fd).
     bnd (start_guard M cfg guard_fd) (\<lambda>(cfg, pid).
     let cfg = cfg\<lparr>guard_pid := Some pid\<rparr> in
     bnd (recv_or_kill M master_fd pid) (\<lambda>loop_id.
     bnd (if sint loop_id < 0 then seq (check_err M loop_id) (ret cfg)
          else ret (cfg\<lparr>guard_loop_id := Some loop_id\<rparr>)) (\<lambda>cfg.
     bnd (recv_or_kill M master_fd pid) (\<lambda>errno.
       seq (check_err M errno)
      (seq (on_err (write_uidmap M cfg pid) (kill_SIGKILL M pid))
      (seq (on_err (write_gidmap M cfg pid) (kill_SIGKILL M pid))
         (ret cfg))))))))"

section \<open>Namespace descriptors\<close>

definition NS :: "string list" where "NS = [''mnt'', ''pid'', ''user'']"

definition get_namespace_fds :: "machine \<Rightarrow> rocker_cfg \<Rightarrow> fd list core_io" where
  "get_namespace_fds M cfg =
     bnd (get_guard_pid cfg) (\<lambda>pid.
       for_collect (\<lambda>ns. on_err (file_open M (''/proc/'' @ show_u32 pid @ ''/ns/'' @ ns)) (kill_SIGKILL M pid)) NS)"

section \<open>Release\<close>

definition close_fd :: "machine \<Rightarrow> fd \<Rightarrow> unit core_io" where
  "close_fd M fd = bnd (sys_unit M (Close fd)) (from_res Nix)"

definition cfg_loop_unbind :: "machine \<Rightarrow> rocker_cfg \<Rightarrow> unit core_io" where
  "cfg_loop_unbind M cfg =
     bnd (from_opt OptionNone (guard_loop_id cfg)) (\<lambda>lid.
     bnd (file_open M (loop_dev_path lid)) (\<lambda>loop_fd.
       seq (loop_unbind M loop_fd) (info M (close_fd M loop_fd))))"

definition resource_clean :: "machine \<Rightarrow> rocker_cfg \<Rightarrow> rocker_cfg core_io" where
  "resource_clean M cfg =
     (let cfg = cfg\<lparr>guard_stack := None\<rparr> in seq (cfg_loop_unbind M cfg) (ret cfg))"

definition cfg_loop_destroy :: "machine \<Rightarrow> rocker_cfg \<Rightarrow> unit core_io" where
  "cfg_loop_destroy M cfg = bnd (from_opt OptionNone (guard_loop_id cfg)) (loop_destroy M)"

definition release_resource :: "machine \<Rightarrow> rocker_cfg \<Rightarrow> ('e, unit) io" where
  "release_resource M cfg =
     seq (info M (resource_clean M cfg)) (seq (sleep M 2) (info M (cfg_loop_destroy M cfg)))"

section \<open>The resource table\<close>

record resource_hdr =
  poisoned :: bool
  resources :: "i32 \<Rightarrow> rocker_cfg option"

definition registe_resource ::
  "rocker_cfg \<Rightarrow> resource_hdr \<Rightarrow> i32 \<Rightarrow> (core_error, unit) outcome \<times> resource_hdr" where
  "registe_resource cfg hdr pid =
     (if poisoned hdr then (Panic, hdr)
      else (case resources hdr pid of None \<Rightarrow> Ok () | Some _ \<Rightarrow> Err Unknown,
            hdr\<lparr>resources := (resources hdr)(pid \<mapsto> cfg)\<rparr>))"

section \<open>Facts\<close>


lemma show_u32_no_nul [simp]: "CHR 0x00 \<notin> set (show_u32 x)"
  using show_nat_plain [of "CHR 0x00" "unat x"] by (auto simp: show_u32_def)

lemma emits_write_file [emits_intros]:
  "(\<And>md q. P (Open md q)) \<Longrightarrow> (\<And>f d. P (WriteAll f d)) \<Longrightarrow> (\<And>f. P (Close f)) \<Longrightarrow>
   emits P (write_file M q s)"
  by (auto simp: write_file_def intro!: emits_intros)

lemma emits_write_maps [emits_intros]:
  "(\<And>md q. P (Open md q)) \<Longrightarrow> (\<And>f d. P (WriteAll f d)) \<Longrightarrow> (\<And>f. P (Close f)) \<Longrightarrow>
   emits P (write_uidmap M cfg pid)"
  "(\<And>md q. P (Open md q)) \<Longrightarrow> (\<And>f d. P (WriteAll f d)) \<Longrightarrow> (\<And>f. P (Close f)) \<Longrightarrow>
   emits P (write_gidmap M cfg pid)"
  by (auto simp: write_uidmap_def write_gidmap_def intro!: emits_intros)

lemma emits_check_err [emits_intros]: "(\<And>c. log_call c \<Longrightarrow> P c) \<Longrightarrow> emits P (check_err M e)"
  by (auto simp: check_err_def intro!: emits_intros)

lemma emits_recv_or_kill [emits_intros]:
  "(\<And>n. P (Recv fd n)) \<Longrightarrow> (\<And>fds fl n. P (Poll fds fl n)) \<Longrightarrow> P (Kill pid) \<Longrightarrow> emits P (recv_or_kill M fd pid)"
  by (auto simp: recv_or_kill_def intro!: emits_intros)

lemma emits_start_guard [emits_intros]: "(\<And>fl. P (Clone fl)) \<Longrightarrow> emits P (start_guard M cfg fd)"
  by (auto simp: start_guard_def intro!: emits_intros)

fun master_call :: "syscall \<Rightarrow> bool" where
  "master_call Socketpair = True"
| "master_call (Clone fl) = True"
| "master_call (Recv fd n) = True"
| "master_call (Poll fds fl n) = True"
| "master_call (Kill pid) = True"
| "master_call (Open md q) = True"
| "master_call (WriteAll fd d) = True"
| "master_call (Close fd) = True"
| "master_call c = log_call c"

lemma log_master_call: "log_call c \<Longrightarrow> master_call c"
  by (cases c) simp_all

lemma emits_init: "emits master_call (init M cfg)"
  unfolding init_def Let_def
  by (intro emits_intros) (simp_all add: log_master_call)

lemma emits_get_namespace_fds [emits_intros]:
  "(\<And>md q. P (Open md q)) \<Longrightarrow> (\<And>pid. P (Kill pid)) \<Longrightarrow> emits P (get_namespace_fds M cfg)"
  by (auto simp: get_namespace_fds_def get_guard_pid_def intro!: emits_intros simp del: for_collect.simps)

text \<open>The codes and the errors they become.\<close>

lemma check_err_codes [simp]:
  "check_err M SUCCESS = ret ()"
  "check_err M EMAKE_PRIVATE = fail Unknown"
  "check_err M ESET_PROCNAME = fail SetProcName"
  "check_err M EMNT_PROC = fail MntProc"
  "check_err M EMNT_LOOP = fail MntLoop"
  "check_err M EMNT_OVERLAY = fail MntOverlay"
  "check_err M EUNSHARE_USER = fail UnshareUser"
  by (simp_all add: check_err_def guard_codes)

lemma check_err_Ok_iff: "run (check_err M e) w = (Ok u, w') \<longleftrightarrow> e = SUCCESS \<and> w' = w"
  by (auto simp: check_err_def)

section \<open>Opening the namespaces\<close>

definition ns_path :: "u32 \<Rightarrow> string \<Rightarrow> path" where
  "ns_path pid ns = ''/proc/'' @ show_u32 pid @ ''/ns/'' @ ns"

lemma open_all:
  assumes "run (for_collect (\<lambda>ns. on_err (file_open M (ns_path pid ns)) (kill_SIGKILL M pid)) nss) w = (r, w')"
  shows "\<exists>fds tl. trace w' = trace w @ map2 (\<lambda>ns n. Ev (Open RdOnly (ns_path pid ns)) (RNum n)) nss fds @ tl
    \<and> ((length fds = length nss \<and> tl = [] \<and> r = Ok fds)
      \<or> (length fds < length nss
          \<and> (\<exists>e k. tl = [Ev (Open RdOnly (ns_path pid (nss ! length fds))) (RErr e), Ev (Kill pid) k] \<and> r = Err (IoErr e))))"
  using assms
proof (induction nss arbitrary: w r w')
  case Nil
  then show ?case by simp
next
  case (Cons ns nss)
  show ?case
  proof (cases "m_num M (trace w) (Open RdOnly (ns_path pid ns))")
    case (Inl e)
    with Cons.prems show ?thesis
      by (intro exI [of _ "[]"] exI [of _ "drop (length (trace w)) (trace w')"])
        (auto simp: file_open_def on_err_def run_bnd run_handle)
  next
    case (Inr n)
    define w1 where "w1 = emit (Open RdOnly (ns_path pid ns)) (RNum n) w"
    let ?rest = "for_collect (\<lambda>ns. on_err (file_open M (ns_path pid ns)) (kill_SIGKILL M pid)) nss"
    obtain q w2 where q: "run ?rest w1 = (q, w2)" by (cases "run ?rest w1")
    have run: "run (bnd ?rest (\<lambda>ys. ret (n # ys))) w1 = (r, w')"
      using Cons.prems Inr by (simp add: file_open_def on_err_def run_bnd run_handle w1_def)
    from Cons.IH [OF q] obtain fds tl where
      tl: "trace w2 = trace w1 @ map2 (\<lambda>ns n. Ev (Open RdOnly (ns_path pid ns)) (RNum n)) nss fds @ tl"
      and alt: "(length fds = length nss \<and> tl = [] \<and> q = Ok fds)
        \<or> (length fds < length nss
          \<and> (\<exists>e k. tl = [Ev (Open RdOnly (ns_path pid (nss ! length fds))) (RErr e), Ev (Kill pid) k] \<and> q = Err (IoErr e)))"
      by blast
    have "w' = w2" using run q alt by auto
    with run q tl alt show ?thesis
      by (intro exI [of _ "n # fds"] exI [of _ tl]) (auto simp: w1_def)
  qed
qed

text \<open>
  Opening the namespaces. \<open>get_namespace_fds\<close> opens the mnt, pid and user files of the guard, in
  this order; if all three opens succeed it returns their descriptors; at the first failure it
  kills the guard and returns the error, and the descriptors opened before stay open, since
  it makes no other call.
\<close>

lemma namespace_fds_opened:
  assumes "guard_pid cfg = Some pid" and "run (get_namespace_fds M cfg) w = (r, w')"
  shows "\<exists>fds tl. trace w' = trace w
        @ map2 (\<lambda>ns n. Ev (Open RdOnly (''/proc/'' @ show_u32 pid @ ''/ns/'' @ ns)) (RNum n)) [''mnt'', ''pid'', ''user''] fds @ tl
    \<and> ((length fds = 3 \<and> tl = [] \<and> r = Ok fds)
      \<or> (length fds < 3 \<and> (\<exists>e k. tl = [Ev (Open RdOnly (''/proc/'' @ show_u32 pid @ ''/ns/''
            @ [''mnt'', ''pid'', ''user''] ! length fds)) (RErr e), Ev (Kill pid) k] \<and> r = Err (IoErr e))))"
proof -
  have "run (for_collect (\<lambda>ns. on_err (file_open M (ns_path pid ns)) (kill_SIGKILL M pid)) NS) w = (r, w')"
    using assms by (simp add: get_namespace_fds_def get_guard_pid_def ns_path_def)
  from open_all [OF this] show ?thesis
    by (simp only: NS_def ns_path_def) (simp add: numeral_3_eq_3)
qed

lemma namespace_fds_opened_instance:
  "\<exists>fds w'. run (get_namespace_fds sample (sample_cfg\<lparr>guard_pid := Some 42\<rparr>)) start = (Ok fds, w') \<and> length fds = 3"
proof -
  obtain r w' where run: "run (get_namespace_fds sample (sample_cfg\<lparr>guard_pid := Some 42\<rparr>)) start = (r, w')"
    by (cases "run (get_namespace_fds sample (sample_cfg\<lparr>guard_pid := Some 42\<rparr>)) start")
  have "\<exists>fds. r = Ok fds"
    using run by (auto simp: get_namespace_fds_def get_guard_pid_def NS_def file_open_def on_err_def run_bnd run_handle)
  with namespace_fds_opened [OF _ run, of 42] run show ?thesis by auto
qed

end
