(* ===== verification/Rk_Handshake.thy ===== *)
theory Rk_Handshake
  imports Rk_Master Rk_Sample
begin

text \<open>
  The handshake between master and guard over the socket pair. The interface between them is a
  datagram channel: the receives on the master's end return the guard's messages in order, one
  datagram each, cut to the size of the buffer; a receive may find nothing yet. The locale
  states that law; \<open>chan_machine\<close> is a machine that has it, for any delays, and the locale
  is interpreted on it. The theorems join a run of the guard's set-up with a run of \<open>init\<close>.
\<close>

section \<open>Datagram channels\<close>

definition is_recv :: "fd \<Rightarrow> event \<Rightarrow> bool" where
  "is_recv fd e = (case ev_call e of Recv f n \<Rightarrow> f = fd \<and> ev_ok e | _ \<Rightarrow> False)"

definition recvd :: "fd \<Rightarrow> event list \<Rightarrow> nat" where
  "recvd fd t = length (filter (is_recv fd) t)"

definition chan_machine :: "machine \<Rightarrow> fd \<Rightarrow> bytes list \<Rightarrow> (event list \<Rightarrow> bool) \<Rightarrow> machine" where
  "chan_machine M fd ms arrived = M\<lparr>m_data := (\<lambda>t c. case c of
       Recv f n \<Rightarrow>
         if f = fd
         then (if recvd fd t < length ms \<and> arrived t then Inr (take n (ms ! recvd fd t)) else Inl EAGAIN)
         else m_data M t c
     | _ \<Rightarrow> m_data M t c)\<rparr>"

lemma recvd_simps [simp]:
  "recvd fd [] = 0" "recvd fd (s @ t) = recvd fd s + recvd fd t"
  "recvd fd (e # t) = (if is_recv fd e then 1 else 0) + recvd fd t"
  by (simp_all add: recvd_def)

lemma is_recv_simps [simp]:
  "is_recv fd (Ev (Recv f n) (RData d)) \<longleftrightarrow> f = fd" "\<not> is_recv fd (Ev (Recv f n) (RErr e))"
  "\<not> is_recv fd (Ev (Poll fs ev k) r)" "\<not> is_recv fd (Ev (Kill q) r)" "\<not> is_recv fd (Ev Socketpair r)"
  "\<not> is_recv fd (Ev (Clone fl) r)"
  by (simp_all add: is_recv_def)

locale dgram_channel =
  fixes M :: machine and fd :: fd and ms :: "bytes list"
  assumes fifo: "m_data M t (Recv fd n) = Inr d \<Longrightarrow>
      recvd fd t < length ms \<and> d = take n (ms ! recvd fd t)"
begin

lemma recv_dontwait_gets:
  assumes "run (recv_dontwait M fd buf) w = (Ok r, w')"
  shows "case r of
      Inl e \<Rightarrow> recvd fd (trace w') = recvd fd (trace w)
    | Inr b \<Rightarrow> recvd fd (trace w) < length ms \<and> recvd fd (trace w') = Suc (recvd fd (trace w))
        \<and> b = fill buf (take (length buf) (ms ! recvd fd (trace w)))"
proof -
  let ?c = "Recv fd (length buf)"
  have r: "r = map_sum id (fill buf) (m_data M (trace w) ?c)"
    and w': "w' = emit ?c (res_reply RData (m_data M (trace w) ?c)) w"
    using assms by (auto simp: recv_dontwait_def)
  show ?thesis
  proof (cases "m_data M (trace w) ?c")
    case (Inr d)
    with fifo [OF Inr] show ?thesis by (simp add: r w')
  qed (simp add: r w')
qed

lemma poll_recvd: "run (poll_in M fds secs) w = (r, w') \<Longrightarrow> recvd fd (trace w') = recvd fd (trace w)"
  by (cases "m_num M (trace w) (Poll fds {POLLIN} (sint (secs * 1000)))")
    (auto simp: poll_in_def poll_any_def run_bnd split: if_splits)

lemma recv_timed_gets:
  assumes "run (recv_timed M fd buf secs) w = (Ok b, w')"
  shows "recvd fd (trace w) < length ms \<and> recvd fd (trace w') = Suc (recvd fd (trace w))
    \<and> b = fill buf (take (length buf) (ms ! recvd fd (trace w)))"
proof -
  obtain r w1 where r: "run (recv_dontwait M fd buf) w = (Ok r, w1)"
    using assms by (auto simp: recv_timed_def bnd_Ok_iff)
  show ?thesis
  proof (cases r)
    case (Inr b')
    with r assms have "b' = b" "w1 = w'" by (auto simp: recv_timed_def bnd_Ok_iff)
    with recv_dontwait_gets [OF r] Inr show ?thesis by simp
  next
    case (Inl e)
    with r assms obtain u w2 r2 where p: "run (poll_in M [fd] secs) w1 = (Ok u, w2)"
      and r2: "run (recv_dontwait M fd buf) w2 = (Ok (Inr b), w')"
      by (auto simp: recv_timed_def run_iffs run_cases from_res_Ok_iff)
    with recv_dontwait_gets [OF r] recv_dontwait_gets [OF r2] poll_recvd [OF p] Inl show ?thesis
      by simp
  qed
qed

lemma recv_or_kill_gets:
  assumes "run (recv_or_kill M fd pid) w = (Ok v, w')" and "\<forall>m \<in> set ms. length m = 4"
  shows "recvd fd (trace w) < length ms \<and> recvd fd (trace w') = Suc (recvd fd (trace w))
    \<and> v = i32_from_ne_bytes (big_endian M) (ms ! recvd fd (trace w))"
proof -
  obtain b where b: "run (recv_timed M fd (i32_to_ne_bytes (big_endian M) 0) 2) w = (Ok b, w')"
    and v: "v = i32_from_ne_bytes (big_endian M) b"
    using assms(1) by (auto simp: recv_or_kill_def bnd_Ok_iff on_err_Ok_iff)
  from recv_timed_gets [OF b] assms(2) v show ?thesis by (auto simp: fill_def)
qed

text \<open>
  A normal return of \<open>init\<close>: the master has read two messages, the second is \<open>SUCCESS\<close>, and
  the first is taken as the loop id (or was \<open>SUCCESS\<close> itself, which sets none).
\<close>

lemma init_Ok_messages:
  assumes run: "run (init M cfg) w = (Ok cfg', w')"
    and pair: "m_pair M (trace w) Socketpair = Inr (fd, gfd)"
    and fresh: "recvd fd (trace w) = 0"
    and ms: "\<forall>m \<in> set ms. length m = 4"
  shows "\<exists>pid lid. 2 \<le> length ms
    \<and> lid = i32_from_ne_bytes (big_endian M) (ms ! 0)
    \<and> i32_from_ne_bytes (big_endian M) (ms ! 1) = SUCCESS
    \<and> (sint lid < 0 \<longrightarrow> lid = SUCCESS)
    \<and> cfg' = cfg\<lparr>guard_stack := Some STACK_SIZ, guard_pid := Some pid,
                 guard_loop_id := (if sint lid < 0 then guard_loop_id cfg else Some lid)\<rparr>"
proof -
  define w1 where "w1 = emit Socketpair (RPair fd gfd) w"
  have "run (unix_dgram_socketpair M) w = (Ok (fd, gfd), w1)"
    using pair by (simp add: unix_dgram_socketpair_def w1_def)
  with run obtain pid w2 lid w3 cfg1 w4 e w5 where
    start: "run (start_guard M cfg gfd) w1 = (Ok (cfg\<lparr>guard_stack := Some STACK_SIZ\<rparr>, pid), w2)"
    and r1: "run (recv_or_kill M fd pid) w2 = (Ok lid, w3)"
    and c1: "run (if sint lid < 0
        then seq (check_err M lid) (ret (cfg\<lparr>guard_stack := Some STACK_SIZ, guard_pid := Some pid\<rparr>))
        else ret (cfg\<lparr>guard_stack := Some STACK_SIZ, guard_pid := Some pid, guard_loop_id := Some lid\<rparr>)) w3
      = (Ok cfg1, w4)"
    and r2: "run (recv_or_kill M fd pid) w4 = (Ok e, w5)"
    and c2: "e = SUCCESS" and res: "cfg' = cfg1"
    by (auto simp: init_def bnd_Ok_iff seq_Ok_iff check_err_Ok_iff start_guard_def Let_def)
  have "recvd fd (trace w2) = 0"
    using start fresh by (auto simp: start_guard_def bnd_Ok_iff from_res_Ok_iff w1_def)
  moreover have w4: "w4 = w3" and neg: "sint lid < 0 \<longrightarrow> lid = SUCCESS"
    and cfg1: "cfg1 = cfg\<lparr>guard_stack := Some STACK_SIZ, guard_pid := Some pid,
                 guard_loop_id := (if sint lid < 0 then guard_loop_id cfg else Some lid)\<rparr>"
    using c1 by (auto simp: seq_Ok_iff check_err_Ok_iff split: if_splits)
  ultimately show ?thesis
    using recv_or_kill_gets [OF r1 ms] recv_or_kill_gets [OF r2 ms] c2 res
    by (auto simp: One_nat_def)
qed

end

interpretation chan: dgram_channel "chan_machine M fd ms arrived" fd ms for M fd ms arrived
  by unfold_locales (auto simp: chan_machine_def split: if_splits)

lemma chan_machine_sel [simp]:
  "big_endian (chan_machine M fd ms a) = big_endian M"
  "m_pair (chan_machine M fd ms a) = m_pair M"
  "m_num (chan_machine M fd ms a) = m_num M"
  "m_unit (chan_machine M fd ms a) = m_unit M"
  "m_text (chan_machine M fd ms a) = m_text M"
  "overflow_checks (chan_machine M fd ms a) = overflow_checks M"
  "stack_depth (chan_machine M fd ms a) = stack_depth M"
  by (simp_all add: chan_machine_def)

section \<open>What the guard has sent\<close>

lemma length_guard_message:
  "m \<in> set (sent fd t) \<Longrightarrow> P m" if "\<And>c. c \<in> set (deeds fd t) \<Longrightarrow> (case send_part c of None \<Rightarrow> True | Some m \<Rightarrow> P m)"
  using that by (force simp: sent_deeds List.map_filter_def split: option.splits)

text \<open>A guard whose second message is \<open>SUCCESS\<close> has done all of its plan.\<close>

lemma stage_code_not_SUCCESS: "stage_code (guard_stages cfg) n \<noteq> Some SUCCESS"
  by (simp add: guard_stages_def guard_stages_tail_def guard_codes)

definition guard_plan_init :: "bool \<Rightarrow> fd \<Rightarrow> rocker_cfg \<Rightarrow> loopdev \<Rightarrow> syscall list" where
  "guard_plan_init be fd cfg ld = butlast (guard_plan be fd cfg ld)"

lemma guard_plan_last: "guard_plan be fd cfg ld
    = guard_plan_init be fd cfg ld @ [Send fd (i32_to_ne_bytes be SUCCESS)]"
  by (simp add: guard_plan_init_def guard_plan_def guard_plan_loop_def guard_plan_tail_def butlast_append)

lemma sends_of_init:
  "List.map_filter send_part (guard_plan_init be fd cfg ld) = [i32_to_ne_bytes be (fst ld)]"
  using sends_of_plan [of be fd cfg ld] by (simp add: guard_plan_last)

lemma sends_of_prefix:
  assumes "n < length (guard_plan be fd cfg ld)"
  shows "List.map_filter send_part (take n (guard_plan be fd cfg ld)) \<in> {[], [i32_to_ne_bytes be (fst ld)]}"
proof -
  let ?p = "guard_plan_init be fd cfg ld"
  have "take n (guard_plan be fd cfg ld) = take n ?p"
    using assms by (simp add: guard_plan_last)
  moreover have "List.map_filter send_part (take n ?p) @ List.map_filter send_part (drop n ?p)
      = [i32_to_ne_bytes be (fst ld)]"
    using sends_of_init [of be fd cfg ld] map_filter_append [of send_part "take n ?p" "drop n ?p"]
    by simp
  ultimately show ?thesis by (auto simp: append_eq_Cons_conv)
qed

text \<open>The transcripts of the guard: complete, or cut short with at most one code.\<close>

definition guard_codes_sent :: "i32 list \<Rightarrow> bool" where
  "guard_codes_sent vs \<longleftrightarrow>
     set vs \<subseteq> {EMAKE_PRIVATE, ESET_PROCNAME, EMNT_PROC, EMNT_LOOP, EMNT_OVERLAY, EUNSHARE_USER}
     \<and> length vs \<le> 1"

lemma guard_transcript:
  assumes run: "run (guard_setup G gfd cfg) gw = (r, gw')" and start: "sent gfd (trace gw) = []"
  shows "\<exists>ld. (r = Ok (renamed (big_endian G) cfg)
        \<and> deeds gfd (trace gw') = deeds gfd (trace gw) @ guard_plan (big_endian G) gfd cfg ld
        \<and> sent gfd (trace gw') = map (i32_to_ne_bytes (big_endian G)) [fst ld, SUCCESS])
      \<or> ((r = Panic \<or> r = Diverge)
        \<and> (\<exists>vs. guard_codes_sent vs \<and>
             (sent gfd (trace gw') = map (i32_to_ne_bytes (big_endian G)) vs
              \<or> sent gfd (trace gw') = map (i32_to_ne_bytes (big_endian G)) (fst ld # vs))))"
proof -
  let ?be = "big_endian G"
  obtain xs where xs: "deeds gfd (trace gw') = deeds gfd (trace gw) @ xs"
    and cases: "case r of Ok cfg' \<Rightarrow> cfg' = renamed ?be cfg \<and> (\<exists>ld. xs = guard_plan ?be gfd cfg ld)
       | _ \<Rightarrow> (\<exists>ld. staged ?be gfd (guard_plan ?be gfd cfg ld) (stage_code (guard_stages cfg)) xs)"
    using deeds_obs.observesD [OF deeds_guard_setup run] by blast
  have sent: "sent gfd (trace gw') = List.map_filter send_part xs"
    using start xs by (simp add: sent_deeds)
  have not_err: "r \<noteq> Err e" for e
    using no_errD [OF no_err_guard_setup, of G gfd cfg gw e gw'] run by auto
  show ?thesis
  proof (cases "\<exists>c. r = Ok c")
    case True
    with cases obtain ld where "r = Ok (renamed ?be cfg)" "xs = guard_plan ?be gfd cfg ld" by auto
    with xs sent sends_of_plan [of ?be gfd cfg ld] show ?thesis by (intro exI [of _ ld]) auto
  next
    case False
    with cases not_err obtain ld
      where st: "staged ?be gfd (guard_plan ?be gfd cfg ld) (stage_code (guard_stages cfg)) xs"
        and r: "r = Panic \<or> r = Diverge"
      by (cases r) auto
    from st obtain n where n: "n < length (guard_plan ?be gfd cfg ld)"
      and "xs = take n (guard_plan ?be gfd cfg ld) \<or> (\<exists>c. stage_code (guard_stages cfg) n = Some c
        \<and> xs = take n (guard_plan ?be gfd cfg ld) @ [Send gfd (i32_to_ne_bytes ?be c)])"
      by (auto simp: staged_def)
    moreover have "guard_codes_sent [c]" if "stage_code (guard_stages cfg) n = Some c" for c
      using that by (auto simp: guard_stages_def guard_stages_tail_def guard_codes_sent_def split: if_splits)
    moreover have "guard_codes_sent []" by (simp add: guard_codes_sent_def)
    ultimately show ?thesis
      using r sent sends_of_prefix [OF n] by (intro exI [of _ ld]) fastforce
  qed
qed

section \<open>A machine with a live guard\<close>

text \<open>
  The sample machine with a guard at the other end of descriptor 3, which has bound loop device 1
  and completed its set-up.
\<close>

definition live :: machine where
  "live = chan_machine sample 3 [i32_to_ne_bytes False 1, i32_to_ne_bytes False SUCCESS] (\<lambda>_. True)"

lemma live_sel [simp]:
  "m_bool live t c = True" "m_unit live t c = Inr ()" "m_num live t c = sample_num t c"
  "m_text live t c = Inr ''pid:[4026531836]''" "m_stat live t c = sample_stat c"
  "m_dir live t c = Inr []" "m_pair live t c = Inr (3, 4)" "usize_bits live = 64"
  "\<not> overflow_checks live" "\<not> big_endian live" "stack_depth live = 8"
  by (simp_all add: live_def chan_machine_def)

lemma live_recv:
  "m_data live t (Recv 3 n) =
     (if recvd 3 t = 0 then Inr (take n (i32_to_ne_bytes False 1))
      else if recvd 3 t = 1 then Inr (take n (i32_to_ne_bytes False SUCCESS)) else Inl EAGAIN)"
  by (auto simp: live_def chan_machine_def less_Suc_eq numeral_2_eq_2)

lemma live_recv_or_kill:
  "recvd 3 (trace w) = 0 \<Longrightarrow> run (recv_or_kill live 3 pid) w
     = (Ok 1, emit (Recv 3 4) (RData (i32_to_ne_bytes False 1)) w)"
  "recvd 3 (trace w) = 1 \<Longrightarrow> run (recv_or_kill live 3 pid) w
     = (Ok SUCCESS, emit (Recv 3 4) (RData (i32_to_ne_bytes False SUCCESS)) w)"
  by (simp_all add: recv_or_kill_def on_err_def run_bnd run_handle recv_timed_def recv_dontwait_def live_recv fill_def)

text \<open>The files of the id maps are written on any kernel where the calls succeed.\<close>

lemma willing_write_file:
  assumes "\<And>t c. m_unit M t c = Inr ()" and "\<And>t md q. \<exists>n. m_num M t (Open md q) = Inr n" and "CHR 0x00 \<notin> set s"
  shows "\<exists>w'. run (write_file M q s) w = (Ok (), w')"
proof -
  obtain n where "m_num M (trace w) (Open WrOnly q) = Inr n" using assms(2) by blast
  with assms(1,3) show ?thesis by (simp add: write_file_def run_bnd seq_def)
qed

lemma willing_maps:
  assumes "\<And>t c. m_unit M t c = Inr ()" and "\<And>t md q. \<exists>n. m_num M t (Open md q) = Inr n"
  shows "\<exists>w'. run (write_uidmap M cfg pid) w = (Ok (), w')"
    and "\<exists>w'. run (write_gidmap M cfg pid) w = (Ok (), w')"
proof -
  note wr = willing_write_file [of M, OF assms]
  show "\<exists>w'. run (write_uidmap M cfg pid) w = (Ok (), w')"
    by (simp add: write_uidmap_def wr)
  show "\<exists>w'. run (write_gidmap M cfg pid) w = (Ok (), w')"
  proof (cases "gid cfg")
    case (Some g)
    obtain w1 where "run (write_file M (proc_path pid ''setgroups'') ''deny'') w = (Ok (), w1)"
      using wr [of "''deny''"] by auto
    with Some wr [of "''0 '' @ show_u32 g @ '' 1''" "proc_path pid ''gid_map''" w1]
    show ?thesis by (auto simp: write_gidmap_def)
  qed (simp add: write_gidmap_def)
qed

lemma live_maps:
  "\<exists>w'. run (write_uidmap live cfg pid) w = (Ok (), w')"
  "\<exists>w'. run (write_gidmap live cfg pid) w = (Ok (), w')"
  by (rule willing_maps; simp)+

lemma live_init:
  assumes "recvd 3 (trace w) = 0"
  shows "\<exists>w'. run (init live cfg) w = (Ok (cfg\<lparr>guard_stack := Some STACK_SIZ, guard_pid := Some 4242,
      guard_loop_id := Some 1\<rparr>), w')"
proof -
  define cfg2 where "cfg2 = cfg\<lparr>guard_stack := Some STACK_SIZ, guard_pid := Some 4242, guard_loop_id := Some 1\<rparr>"
  define w1 where "w1 = emit (Clone {CLONE_NEWNS, CLONE_NEWPID}) (RNum 4242) (emit Socketpair (RPair 3 4) w)"
  define w2 where "w2 = emit (Recv 3 4) (RData (i32_to_ne_bytes False 1)) w1"
  define w3 where "w3 = emit (Recv 3 4) (RData (i32_to_ne_bytes False SUCCESS)) w2"
  have "recvd 3 (trace w1) = 0" "recvd 3 (trace w2) = 1"
    using assms by (simp_all add: w1_def w2_def)
  note recvs = live_recv_or_kill(1) [OF this(1)] live_recv_or_kill(2) [OF this(2)]
  obtain w4 where u: "run (write_uidmap live cfg2 4242) w3 = (Ok (), w4)" using live_maps(1) by blast
  obtain w5 where g: "run (write_gidmap live cfg2 4242) w4 = (Ok (), w5)" using live_maps(2) by blast
  have "run (init live cfg) w = (Ok cfg2, w5)"
    using recvs u g unfolding init_def unix_dgram_socketpair_def start_guard_def
    by (simp add: run_bnd seq_def on_err_def run_handle Let_def w1_def [symmetric] w2_def [symmetric]
        w3_def [symmetric] cfg2_def [symmetric])
  then show ?thesis by (auto simp: cfg2_def)
qed

section \<open>The handshake\<close>

lemma sent_length_4:
  assumes "run (guard_setup G gfd cfg) gw = (r, gw')" and "sent gfd (trace gw) = []"
  shows "\<forall>m \<in> set (sent gfd (trace gw')). length m = 4"
  using guard_transcript [OF assms] by auto

lemma second_code_not_SUCCESS:
  assumes "guard_codes_sent vs" and "ms = map (i32_to_ne_bytes be) vs \<or> ms = map (i32_to_ne_bytes be) (lid # vs)"
    and "2 \<le> length ms"
  shows "i32_from_ne_bytes be (ms ! 1) \<noteq> SUCCESS"
proof -
  obtain v where v: "vs = [v]" "ms = map (i32_to_ne_bytes be) [lid, v]"
    using assms by (cases vs) (auto simp: guard_codes_sent_def)
  then have "v \<in> {EMAKE_PRIVATE, ESET_PROCNAME, EMNT_PROC, EMNT_LOOP, EMNT_OVERLAY, EUNSHARE_USER}"
    using assms(1) by (simp add: guard_codes_sent_def)
  with v show ?thesis by (auto simp: guard_codes)
qed


section \<open>How failures are reported\<close>

lemma recv_ready:
  assumes "recvd fd (trace w) < length ms" and "\<forall>m \<in> set ms. length m = 4"
  shows "run (recv_or_kill (chan_machine M fd ms (\<lambda>_. True)) fd pid) w
    = (Ok (i32_from_ne_bytes (big_endian M) (ms ! recvd fd (trace w))),
       emit (Recv fd 4) (RData (ms ! recvd fd (trace w))) w)"
proof -
  have "length (ms ! recvd fd (trace w)) = 4" using assms by simp
  then show ?thesis
    using assms by (simp add: recv_or_kill_def on_err_def run_bnd run_handle recv_timed_def recv_dontwait_def
        chan_machine_def fill_def)
qed

definition code_error :: "i32 \<Rightarrow> core_error" where
  "code_error c =
     (if c = ESET_PROCNAME then SetProcName else if c = EMNT_PROC then MntProc
      else if c = EMNT_LOOP then MntLoop else if c = EMNT_OVERLAY then MntOverlay
      else if c = EUNSHARE_USER then UnshareUser else Unknown)"

lemma check_err_code:
  "c \<in> {EMAKE_PRIVATE, ESET_PROCNAME, EMNT_PROC, EMNT_LOOP, EMNT_OVERLAY, EUNSHARE_USER} \<Longrightarrow>
     check_err M c = fail (code_error c) \<and> sint c < 0"
  by (auto simp: code_error_def guard_codes check_err_def)



lemma sample_guard:
  "\<exists>gw'. run (guard_setup sample 4 sample_cfg) start = (Ok (renamed False sample_cfg), gw')
     \<and> sent 4 (trace gw') = [i32_to_ne_bytes False 1, i32_to_ne_bytes False SUCCESS]"
  by (simp add: guard_setup_def err_checker_def err_checker_send_def inform_master_def mount_make_rprivate_def
      mountx_def mount_dynfs_proc_def guard_set_self_name_def guard_mnt_loop_def get_loop_dev_def LOOP_MASTER_def
      loop_ctl_open_def loop_ctl_get_free_def file_open_def bind_pkg_def loop_bind_def guard_mnt_overlay_def
      overlay_one_def create_dir_all_def unshare_user_def run_bnd run_handle seq_def map_err_def on_err_def pnk_def
      Let_def sample_cfg_def renamed_def sent_def sent_of_def List.map_filter_simps sample_num_def)


section \<open>Descriptors kept open\<close>

text \<open>
  \<open>keeps x m\<close>: a descriptor open before a run of \<open>m\<close> is open after it. A kernel is
  \<open>fresh\<close> when an open returns no descriptor that is in use.
\<close>

definition keeps :: "fd \<Rightarrow> ('e, 'a) io \<Rightarrow> bool" where
  "keeps x m \<longleftrightarrow> (\<forall>w r w'. run m w = (r, w') \<and> x \<in> open_fds (trace w) \<longrightarrow> x \<in> open_fds (trace w'))"

definition fresh_fds :: "machine \<Rightarrow> bool" where
  "fresh_fds M \<longleftrightarrow> (\<forall>t md q n. m_num M t (Open md q) = Inr n \<longrightarrow> n \<notin> open_fds t)"

named_theorems keeps_intros \<open>rules that follow the syntax of a program\<close>

lemma keepsD: "keeps x m \<Longrightarrow> run m w = (r, w') \<Longrightarrow> x \<in> open_fds (trace w) \<Longrightarrow> x \<in> open_fds (trace w')"
  by (auto simp: keeps_def)

lemma open_fds_append: "open_fds (s @ t) = foldl fd_step (open_fds s) t"
  by (simp add: open_fds_def)

lemma fd_step_keeps: "x \<in> S \<Longrightarrow> (\<And>n. ev_call e = Close n \<Longrightarrow> False) \<Longrightarrow> x \<in> fd_step S e"
  by (auto simp: fd_step_def split: syscall.split reply.split)

lemma keeps_no_close:
  assumes "emits P m" and "\<And>n. \<not> P (Close n)"
  shows "keeps x m"
  unfolding keeps_def
proof (intro allI impI)
  fix w r w'
  assume run: "run m w = (r, w') \<and> x \<in> open_fds (trace w)"
  then obtain es where es: "trace w' = trace w @ es" "\<forall>e \<in> set es. P (ev_call e)"
    using emitsD [OF assms(1)] by blast
  have "x \<in> foldl fd_step S es" if "x \<in> S" "\<forall>e \<in> set es. P (ev_call e)" for S
    using that
  proof (induction es arbitrary: S)
    case (Cons e es)
    then have "x \<in> fd_step S e" using assms(2) by (intro fd_step_keeps) auto
    with Cons show ?case by simp
  qed simp
  with es run show "x \<in> open_fds (trace w')" by (simp add: open_fds_append)
qed

lemma keeps_bnd [keeps_intros]:
  assumes "keeps x m" and "\<And>a. keeps x (f a)"
  shows "keeps x (bnd m f)"
  unfolding keeps_def
proof (intro allI impI)
  fix w r w''
  assume run: "run (bnd m f) w = (r, w'') \<and> x \<in> open_fds (trace w)"
  obtain q w' where m: "run m w = (q, w')" by (cases "run m w")
  with run keepsD [OF assms(1)] have "x \<in> open_fds (trace w')" by blast
  with m run keepsD [OF assms(2)] show "x \<in> open_fds (trace w'')" by (cases q) auto
qed

lemma keeps_handle [keeps_intros]:
  assumes "keeps x m" and "\<And>e. keeps x (h e)"
  shows "keeps x (handle m h)"
  unfolding keeps_def
proof (intro allI impI)
  fix w r w''
  assume run: "run (handle m h) w = (r, w'') \<and> x \<in> open_fds (trace w)"
  obtain q w' where m: "run m w = (q, w')" by (cases "run m w")
  with run keepsD [OF assms(1)] have "x \<in> open_fds (trace w')" by blast
  with m run keepsD [OF assms(2)] show "x \<in> open_fds (trace w'')" by (cases q) auto
qed

lemma keeps_basic [keeps_intros]: "keeps x (ret a)" "keeps x (fail e)" "keeps x panic" "keeps x diverge"
  by (auto simp: keeps_def)

lemma keeps_derived [keeps_intros]:
  "keeps x m \<Longrightarrow> keeps x k \<Longrightarrow> keeps x (seq m k)"
  "keeps x m \<Longrightarrow> keeps x h \<Longrightarrow> keeps x (on_err m h)"
  "(b \<Longrightarrow> keeps x m1) \<Longrightarrow> (\<not> b \<Longrightarrow> keeps x m2) \<Longrightarrow> keeps x (if b then m1 else m2)"
  "keeps x (from_res f r)" "keeps x (from_opt e z)"
proof -
  show "keeps x (seq m k)" if "keeps x m" "keeps x k" using that by (simp add: seq_def keeps_bnd)
  show "keeps x (on_err m h)" if "keeps x m" "keeps x h"
    unfolding on_err_def seq_def using that by (intro keeps_intros)
  show "keeps x (from_res f r)" by (cases r) (simp_all add: keeps_intros)
  show "keeps x (from_opt e z)" by (cases z) (simp_all add: keeps_intros)
qed simp

text \<open>A file written and closed: what is closed was not in use before.\<close>

lemma keeps_write_file [keeps_intros]:
  assumes "fresh_fds M"
  shows "keeps x (write_file M q s)"
  unfolding keeps_def
proof (intro allI impI)
  fix w r w'
  assume run: "run (write_file M q s) w = (r, w') \<and> x \<in> open_fds (trace w)"
  show "x \<in> open_fds (trace w')"
  proof (cases "m_num M (trace w) (Open WrOnly q)")
    case (Inl e)
    with run show ?thesis by (auto simp: write_file_def fd_step_def)
  next
    case (Inr n)
    have "n \<noteq> x" using assms Inr run by (auto simp: fresh_fds_def)
    with Inr run show ?thesis
      by (cases "m_unit M (trace w @ [Ev (Open WrOnly q) (RNum n)]) (WriteAll n (bytes_of s))")
        (auto simp: write_file_def fd_step_def cstring_new_def open_fds_append split: if_splits)
  qed
qed

lemma keeps_maps [keeps_intros]:
  assumes "fresh_fds M"
  shows "keeps x (write_uidmap M cfg pid)" and "keeps x (write_gidmap M cfg pid)"
  using assms by (auto simp: write_uidmap_def write_gidmap_def intro!: keeps_intros split: option.split)

lemma keeps_rest [keeps_intros]:
  "keeps x (recv_or_kill M fd pid)" "keeps x (check_err M e)" "keeps x (kill_SIGKILL M pid)"
  "keeps x (start_guard M cfg gfd)"
proof -
  have "emits (\<lambda>c. case c of Close n \<Rightarrow> False | _ \<Rightarrow> True) (recv_or_kill M fd pid)"
    by (intro emits_intros) simp_all
  then show "keeps x (recv_or_kill M fd pid)" by (rule keeps_no_close) simp
  have "emits (\<lambda>c. case c of Close n \<Rightarrow> False | _ \<Rightarrow> True) (start_guard M cfg gfd)"
    by (intro emits_intros) simp_all
  then show "keeps x (start_guard M cfg gfd)" by (rule keeps_no_close) simp
  have "emits (\<lambda>c. case c of Close n \<Rightarrow> False | _ \<Rightarrow> True) (kill_SIGKILL M pid :: ('a, unit) io)"
    unfolding kill_SIGKILL_def by (intro emits_intros) simp_all
  then show "keeps x (kill_SIGKILL M pid :: ('a, unit) io)" by (rule keeps_no_close) simp
  have "emits log_call (check_err M e)" by (intro emits_intros)
  then show "keeps x (check_err M e)" by (rule keeps_no_close) simp
qed

text \<open>
  \<open>init\<close> never closes its end of the channel, nor the guard's: on a kernel that gives out
  unused descriptors only, both ends of the socket pair are still open in the server after
  \<open>init\<close>, however it ends, and nothing of the configuration remembers them.
\<close>

lemma init_keeps_channel:
  assumes "fresh_fds M" and "m_pair M (trace w) Socketpair = Inr (fd, gfd)"
    and "run (init M cfg) w = (r, w')"
  shows "{fd, gfd} \<subseteq> open_fds (trace w')"
proof -
  let ?rest = "bnd (start_guard M cfg gfd) (\<lambda>(cfg, pid).
     let cfg = cfg\<lparr>guard_pid := Some pid\<rparr> in
     bnd (recv_or_kill M fd pid) (\<lambda>loop_id.
     bnd (if sint loop_id < 0 then seq (check_err M loop_id) (ret cfg)
          else ret (cfg\<lparr>guard_loop_id := Some loop_id\<rparr>)) (\<lambda>cfg.
     bnd (recv_or_kill M fd pid) (\<lambda>errno.
       seq (check_err M errno)
      (seq (on_err (write_uidmap M cfg pid) (kill_SIGKILL M pid))
      (seq (on_err (write_gidmap M cfg pid) (kill_SIGKILL M pid))
         (ret cfg)))))))"
  let ?w1 = "emit Socketpair (RPair fd gfd) w"
  have run: "run ?rest ?w1 = (r, w')"
    using assms(2,3) by (simp add: init_def unix_dgram_socketpair_def run_bnd)
  have keeps: "keeps x ?rest" for x
    using assms(1) by (auto simp: Let_def intro!: keeps_intros)
  have "fd \<in> open_fds (trace ?w1)" "gfd \<in> open_fds (trace ?w1)"
    by (simp_all add: fd_step_def)
  with keepsD [OF keeps run] show ?thesis by simp
qed

lemma fresh_sample: "fresh_fds sample"
  using open_fds_below by (fastforce simp: fresh_fds_def)

lemma init_keeps_channel_instance:
  "\<exists>r w'. run (init sample sample_cfg) start = (r, w') \<and> {3, 4} \<subseteq> open_fds (trace w')"
proof -
  obtain r w' where "run (init sample sample_cfg) start = (r, w')"
    by (cases "run (init sample sample_cfg) start")
  with init_keeps_channel [OF fresh_sample _ this, of 3 4] show ?thesis by simp
qed

end
