(* ===== verification/Rk_Server.thy ===== *)
theory Rk_Server
  imports Rk_Client Rk_Handshake
begin

text \<open>
  The server (\<open>rocker_server/src/main.rs\<close>): its socket, the loop that takes requests, the
  worker that serves one, the reply, and the worker that releases the resources of guards
  that have stopped. The resource table is shared through a mutex; a thread that panics while it holds the
  mutex poisons it.
\<close>

section \<open>The reply\<close>

record resp =
  r_guard_pid :: i32
  r_guard_pname :: u128
  r_namespace_fds :: "fd list"

definition send_resq :: "machine \<Rightarrow> resp \<Rightarrow> fd \<Rightarrow> addr \<Rightarrow> (server_error, unit) io" where
  "send_resq M r serv_fd peeraddr =
     bnd (sys_unit M (Sendmsg serv_fd
            [i32_to_ne_bytes (big_endian M) (r_guard_pid r), u128_to_ne_bytes (big_endian M) (r_guard_pname r)]
            (r_namespace_fds r) peeraddr))
       (from_res SrvNix)"

definition send_back ::
  "machine \<Rightarrow> fd \<Rightarrow> addr \<Rightarrow> i32 \<Rightarrow> u128 \<Rightarrow> fd list \<Rightarrow> (server_error, unit) io" where
  "send_back M serv_fd peeraddr gpid gpname fds =
     pnk M (send_resq M \<lparr>r_guard_pid = gpid, r_guard_pname = gpname, r_namespace_fds = fds\<rparr> serv_fd peeraddr)"

section \<open>Serving one request\<close>

text \<open>
  \<open>check!\<close>: an error is answered with pid \<open>- 1\<close> and no descriptors, then the worker dies. The calls
  into the core crate keep their errors as the cause.
\<close>

definition check :: "machine \<Rightarrow> fd \<Rightarrow> addr \<Rightarrow> (server_error, 'a) io \<Rightarrow> (server_error, 'a) io" where
  "check M serv_fd peeraddr ops =
     handle ops (\<lambda>e. seq (send_back M serv_fd peeraddr (- 1) 0 []) (pdie M))"

definition worker_prepare ::
  "machine \<Rightarrow> bytes \<Rightarrow> fd \<Rightarrow> addr \<Rightarrow> (server_error, rocker_cfg \<times> i32 \<times> u128 \<times> fd list) io" where
  "worker_prepare M req serv_fd peeraddr =
     bnd (check M serv_fd peeraddr (req_parse M req)) (\<lambda>cfg.
     bnd (check M serv_fd peeraddr (map_err SrvCore (init M cfg))) (\<lambda>cfg.
     bnd (check M serv_fd peeraddr (map_err SrvCore (get_guard_pid cfg))) (\<lambda>gpid.
     let gpname = get_guard_pname cfg in
     bnd (check M serv_fd peeraddr (map_err SrvCore (get_namespace_fds M cfg))) (\<lambda>fds.
       ret (cfg, gpid, gpname, fds)))))"

definition worker_answer ::
  "machine \<Rightarrow> fd \<Rightarrow> addr \<Rightarrow> i32 \<Rightarrow> u128 \<Rightarrow> fd list \<Rightarrow> (core_error, unit) outcome \<Rightarrow> (server_error, unit) io" where
  "worker_answer M serv_fd peeraddr gpid gpname fds registered =
     seq (check M serv_fd peeraddr (map_err SrvCore (from_outcome registered)))
       (seq (send_back M serv_fd peeraddr gpid gpname fds)
         (for_each (\<lambda>fd. info M (close_fd M fd)) fds))"

text \<open>
  The whole worker: the table is the one it finds when it takes the lock, and the entry it
  makes stays whatever happens next.
\<close>

definition worker ::
  "machine \<Rightarrow> bytes \<Rightarrow> fd \<Rightarrow> addr \<Rightarrow> resource_hdr \<Rightarrow> world \<Rightarrow> (server_error, unit) outcome \<times> resource_hdr \<times> world"
where
  "worker M req serv_fd peeraddr hdr w =
     (case run (worker_prepare M req serv_fd peeraddr) w of
        (Ok (cfg, gpid, gpname, fds), w1) \<Rightarrow>
          (case registe_resource cfg hdr gpid of
             (registered, hdr1) \<Rightarrow>
               (case run (worker_answer M serv_fd peeraddr gpid gpname fds registered) w1 of
                  (r, w2) \<Rightarrow> (r, hdr1, w2)))
      | (Err e, w1) \<Rightarrow> (Err e, hdr, w1)
      | (Panic, w1) \<Rightarrow> (Panic, hdr, w1)
      | (Diverge, w1) \<Rightarrow> (Diverge, hdr, w1))"

section \<open>Releasing stopped guards\<close>

definition hdr_remove :: "resource_hdr \<Rightarrow> i32 \<Rightarrow> resource_hdr" where
  "hdr_remove hdr pid = hdr\<lparr>resources := (resources hdr)(pid := None)\<rparr>"

text \<open>
  One turn of the loop of \<open>resource_worker\<close>. The lock taken in the condition of the \<open>if let\<close>
  is held through its body, the two seconds of sleep included; a panic in there poisons it.
\<close>

definition reap :: "machine \<Rightarrow> resource_hdr \<Rightarrow> world \<Rightarrow> (server_error, unit) outcome \<times> resource_hdr \<times> world" where
  "reap M hdr w =
     (let status = m_wait M (trace w) WaitAny;
          w1 = emit WaitAny (res_reply RWait status) w
      in case status of
          Inl e \<Rightarrow>
            (case run (if e = ECHILD then sleep M 2 else info M (fail (SrvNix e) :: (server_error, unit) io)) w1 of
               (r, w2) \<Rightarrow> (r, hdr, w2))
        | Inr None \<Rightarrow> (Ok (), hdr, w1)
        | Inr (Some pid) \<Rightarrow>
            if poisoned hdr then (Panic, hdr, w1)
            else (case resources hdr pid of
                None \<Rightarrow> (Ok (), hdr, w1)
              | Some cfg \<Rightarrow>
                  (case run (release_resource M cfg) w1 of
                     (r, w2) \<Rightarrow> (r, (hdr_remove hdr pid)\<lparr>poisoned := (r = Panic)\<rparr>, w2))))"

text \<open>The loop, for a number of turns; a thread that is still in it has not returned.\<close>

fun resource_worker :: "nat \<Rightarrow> machine \<Rightarrow> resource_hdr \<Rightarrow> world \<Rightarrow> (server_error, unit) outcome \<times> resource_hdr \<times> world" where
  "resource_worker 0 M hdr w = (Diverge, hdr, w)"
| "resource_worker (Suc n) M hdr w = (case reap M hdr w of
       (Ok _, hdr1, w1) \<Rightarrow> resource_worker n M hdr1 w1
     | (r, hdr1, w1) \<Rightarrow> (r, hdr1, w1))"

section \<open>The server loop\<close>

definition SERVER_BUF :: nat where "SERVER_BUF = 512"

text \<open>
  Each datagram, cut to the buffer, becomes a job of the pool, in the order of arrival; the loop ends only on
  a failing receive. The jobs accepted so far are part of the result.
\<close>

fun uau_serve :: "nat \<Rightarrow> machine \<Rightarrow> fd \<Rightarrow> world \<Rightarrow> (server_error, unit) outcome \<times> (bytes \<times> addr) list \<times> world" where
  "uau_serve 0 M serv_fd w = (Diverge, [], w)"
| "uau_serve (Suc n) M serv_fd w =
     (let r = m_from M (trace w) (Recvfrom serv_fd SERVER_BUF);
          w1 = emit (Recvfrom serv_fd SERVER_BUF) (res_reply (\<lambda>(d, a). RFrom d a) r) w
      in case r of
          Inl e \<Rightarrow> (Err (SrvNix e), [], w1)
        | Inr (d, a) \<Rightarrow> (case uau_serve n M serv_fd w1 of
              (out, jobs, w2) \<Rightarrow> (out, (take SERVER_BUF d, a) # jobs, w2)))"

text \<open>
  The socket, bound to the abstract address that the build puts into the program; an address
  beyond what a socket name holds is refused by \<open>UnixAddr::new_abstract\<close>.
\<close>

definition ENAMETOOLONG :: errno where "ENAMETOOLONG = 36"

definition gen_server_socket :: "machine \<Rightarrow> bytes \<Rightarrow> (server_error, fd) io" where
  "gen_server_socket M uau_addr =
     bnd (bnd (sys_num M SocketDgram) (from_res SrvNix)) (\<lambda>fd.
     seq (bnd (sys_unit M (Setsockopt fd ReuseAddr)) (from_res SrvNix))
    (seq (bnd (sys_unit M (Setsockopt fd ReusePort)) (from_res SrvNix))
    (seq (if 107 < length uau_addr then fail (SrvNix ENAMETOOLONG) else ret ())
    (seq (bnd (sys_unit M (BindAbstract fd uau_addr)) (from_res SrvNix))
       (ret fd)))))"

definition server_main ::
  "nat \<Rightarrow> machine \<Rightarrow> bytes \<Rightarrow> world \<Rightarrow> (server_error, unit) outcome \<times> (bytes \<times> addr) list \<times> world" where
  "server_main n M uau_addr w = (case run (pnk M (gen_server_socket M uau_addr) :: (server_error, fd) io) w of
       (Ok serv_fd, w1) \<Rightarrow> uau_serve n M serv_fd w1
     | (Err e, w1) \<Rightarrow> (Err e, [], w1)
     | (Panic, w1) \<Rightarrow> (Panic, [], w1)
     | (Diverge, w1) \<Rightarrow> (Diverge, [], w1))"

section \<open>The interface of the table\<close>

text \<open>
  What workers and the releasing worker rely on: an insertion is found under its key and under no
  other, a removal is not. The locale derives what a history of operations leaves behind.
\<close>

datatype 'c table_op = Put i32 'c | Del i32

locale registry =
  fixes put :: "'c \<Rightarrow> 't \<Rightarrow> i32 \<Rightarrow> 't" and del :: "'t \<Rightarrow> i32 \<Rightarrow> 't"
    and get :: "'t \<Rightarrow> i32 \<Rightarrow> 'c option" and healthy :: "'t \<Rightarrow> bool"
  assumes get_put: "healthy t \<Longrightarrow> get (put c t k) q = (if q = k then Some c else get t q)"
    and get_del: "get (del t k) q = (if q = k then None else get t q)"
    and healthy_put: "healthy t \<Longrightarrow> healthy (put c t k)"
    and healthy_del: "healthy t \<Longrightarrow> healthy (del t k)"
begin

definition apply_op :: "'c table_op \<Rightarrow> 't \<Rightarrow> 't" where
  "apply_op x t = (case x of Put k c \<Rightarrow> put c t k | Del k \<Rightarrow> del t k)"

definition op_key :: "'c table_op \<Rightarrow> i32" where
  "op_key x = (case x of Put k c \<Rightarrow> k | Del k \<Rightarrow> k)"

definition op_value :: "'c table_op \<Rightarrow> 'c option" where
  "op_value x = (case x of Put k c \<Rightarrow> Some c | Del k \<Rightarrow> None)"

lemma healthy_fold: "healthy t \<Longrightarrow> healthy (fold apply_op xs t)"
  by (induction xs arbitrary: t) (auto simp: apply_op_def healthy_put healthy_del split: table_op.split)

text \<open>The last operation on a key decides what is found under it.\<close>

lemma get_fold:
  "healthy t \<Longrightarrow> get (fold apply_op xs t) q =
     (case filter (\<lambda>x. op_key x = q) xs of [] \<Rightarrow> get t q | ys \<Rightarrow> op_value (last ys))"
proof (induction xs arbitrary: t)
  case (Cons x xs)
  have "get (apply_op x t) q = (if op_key x = q then op_value x else get t q)"
    using Cons.prems by (cases x) (auto simp: apply_op_def op_key_def op_value_def get_put get_del)
  moreover have "healthy (apply_op x t)"
    using healthy_fold [OF Cons.prems, of "[x]"] by simp
  ultimately show ?case
    using Cons.IH [of "apply_op x t"] by (auto split: list.split)
qed simp

end

lemma registe_table:
  "\<not> poisoned hdr \<Longrightarrow> snd (registe_resource cfg hdr pid) = hdr\<lparr>resources := (resources hdr)(pid \<mapsto> cfg)\<rparr>"
  by (simp add: registe_resource_def)

interpretation table: registry "\<lambda>cfg hdr pid. snd (registe_resource cfg hdr pid)" hdr_remove resources "\<lambda>hdr. \<not> poisoned hdr"
  by unfold_locales (simp_all add: registe_table hdr_remove_def)

section \<open>Replies in a trace\<close>

definition reply_of :: "event \<Rightarrow> (fd \<times> bytes list \<times> fd list \<times> addr) option" where
  "reply_of e = (case ev_call e of Sendmsg fd parts fds a \<Rightarrow> Some (fd, parts, fds, a) | _ \<Rightarrow> None)"

definition replies :: "event list \<Rightarrow> (fd \<times> bytes list \<times> fd list \<times> addr) list" where
  "replies t = List.map_filter reply_of t"

interpretation reply_obs: observation replies
  by unfold_locales (simp add: replies_def)

definition no_reply :: "syscall \<Rightarrow> bool" where
  "no_reply c = (case c of Sendmsg fd parts fds a \<Rightarrow> False | _ \<Rightarrow> True)"

lemma no_reply_silent: "no_reply (ev_call e) \<Longrightarrow> replies [e] = []"
  by (cases "ev_call e") (simp_all add: replies_def reply_of_def no_reply_def)

lemma no_reply_log: "log_call c \<Longrightarrow> no_reply c"
  and no_reply_cfg: "cfg_call c \<Longrightarrow> no_reply c"
  by (cases c; simp add: no_reply_def)+

lemma no_reply_master: "master_call c \<Longrightarrow> no_reply c"
  by (cases c) (simp_all add: no_reply_def)

lemma no_reply_simps [simp]: "no_reply (Open md q)" "no_reply (Kill pid)" "no_reply (Close fd)"
  by (simp_all add: no_reply_def)

definition reply :: "machine \<Rightarrow> fd \<Rightarrow> addr \<Rightarrow> i32 \<Rightarrow> u128 \<Rightarrow> fd list \<Rightarrow> fd \<times> bytes list \<times> fd list \<times> addr" where
  "reply M serv_fd peeraddr gpid gpname fds =
     (serv_fd, [i32_to_ne_bytes (big_endian M) gpid, u128_to_ne_bytes (big_endian M) gpname], fds, peeraddr)"

definition refusal :: "machine \<Rightarrow> fd \<Rightarrow> addr \<Rightarrow> fd \<times> bytes list \<times> fd list \<times> addr" where
  "refusal M serv_fd peeraddr = reply M serv_fd peeraddr (- 1) 0 []"

lemma observes_pdie: "F [] \<Longrightarrow> observes replies (pdie M :: ('e, 'a) io) Q F"
proof (rule reply_obs.observesI)
  fix w w' and r :: "('e, 'a) outcome"
  assume F: "F []" and run: "run (pdie M) w = (r, w')"
  have "replies (trace w') = replies (trace w)"
    by (rule reply_obs.obs_silent_run [OF emits_pdie_mono no_reply_silent run]) (simp_all add: no_reply_log)
  with F run show "\<exists>xs. replies (trace w') = replies (trace w) @ xs \<and> (case r of Ok a \<Rightarrow> Q a xs | _ \<Rightarrow> F xs)"
    by (cases r) auto
qed

lemma observes_send_back:
  "observes replies (send_back M s a gpid gpname fds)
     (\<lambda>_ xs. xs = [reply M s a gpid gpname fds]) (\<lambda>xs. xs = [reply M s a gpid gpname fds])"
  unfolding send_back_def pnk_def
proof (rule reply_obs.observes_handle)
  let ?R = "[reply M s a gpid gpname fds]"
  show "observes replies (send_resq M \<lparr>r_guard_pid = gpid, r_guard_pname = gpname, r_namespace_fds = fds\<rparr> s a)
      (\<lambda>_ xs. xs = ?R) (\<lambda>xs. xs = ?R)"
  proof (rule reply_obs.observesI)
    fix w r w'
    assume "run (send_resq M \<lparr>r_guard_pid = gpid, r_guard_pname = gpname, r_namespace_fds = fds\<rparr> s a) w = (r, w')"
    then have "replies (trace w') = replies (trace w) @ ?R"
      by (cases "m_unit M (trace w) (Sendmsg s
            [i32_to_ne_bytes (big_endian M) gpid, u128_to_ne_bytes (big_endian M) gpname] fds a)")
        (auto simp: send_resq_def replies_def reply_of_def reply_def)
    then show "\<exists>xs. replies (trace w') = replies (trace w) @ xs \<and> (case r of Ok u \<Rightarrow> xs = ?R | _ \<Rightarrow> xs = ?R)"
      by (cases r) auto
  qed
qed (auto intro: observes_pdie)

lemma observes_check:
  assumes "emits no_reply ops"
  shows "observes replies (check M s a ops) (\<lambda>_ xs. xs = []) (\<lambda>xs. xs = [] \<or> xs = [refusal M s a])"
  unfolding check_def
proof (rule reply_obs.observes_handle)
  show "observes replies ops (\<lambda>_ xs. xs = []) (\<lambda>xs. xs = [])"
    by (rule reply_obs.observes_silent [OF assms no_reply_silent]) simp_all
next
  fix e :: server_error and xs :: "(fd \<times> bytes list \<times> fd list \<times> addr) list"
  assume "xs = []"
  then show "observes replies (seq (send_back M s a (- 1) 0 []) (pdie M))
      (\<lambda>_ ys. xs @ ys = []) (\<lambda>ys. xs @ ys = [] \<or> xs @ ys = [refusal M s a])"
    by (intro reply_obs.observes_seq [OF observes_send_back]) (auto simp: refusal_def intro: observes_pdie)
qed auto

lemma emits_parse_parts [emits_intros]:
  "emits P (from_outcome r)" "emits P (split_off n xs)" "emits P (pop_unwrap xs)"
  by (simp_all add: emits_def from_outcome_def split_off_def pop_unwrap_def)

lemma emits_req_parse: "emits no_reply (req_parse M req)"
  unfolding req_parse_def Let_def
  by (intro emits_intros) (simp_all add: no_reply_cfg)

lemma emits_worker_parts:
  "emits no_reply (map_err SrvCore (init M cfg))"
  "emits no_reply (map_err SrvCore (get_guard_pid cfg))"
  "emits no_reply (map_err SrvCore (get_namespace_fds M cfg))"
  "emits no_reply (map_err SrvCore (from_outcome r))"
  "emits no_reply (for_each (\<lambda>fd. info M (close_fd M fd) :: (server_error, unit) io) fds)"
proof -
  show "emits no_reply (map_err SrvCore (init M cfg))"
    by (rule emits_map_err, rule emits_mono [OF emits_init no_reply_master])
  show "emits no_reply (for_each (\<lambda>fd. info M (close_fd M fd) :: (server_error, unit) io) fds)"
    unfolding close_fd_def by (intro emits_intros) (simp_all add: no_reply_log)
  show "emits no_reply (map_err SrvCore (get_guard_pid cfg))"
    unfolding get_guard_pid_def by (intro emits_intros)
  show "emits no_reply (map_err SrvCore (get_namespace_fds M cfg))"
    "emits no_reply (map_err SrvCore (from_outcome r))"
    by (intro emits_intros; simp)+
qed

lemma observes_worker_prepare:
  "observes replies (worker_prepare M req s a) (\<lambda>_ xs. xs = []) (\<lambda>xs. xs = [] \<or> xs = [refusal M s a])"
proof -
  note chk = observes_check [where s = s and a = a and M = M]
  show ?thesis
    unfolding worker_prepare_def Let_def
    by (rule reply_obs.observes_bnd [OF chk [OF emits_req_parse]],
        rule reply_obs.observes_bnd [OF chk [OF emits_worker_parts(1)]],
        rule reply_obs.observes_bnd [OF chk [OF emits_worker_parts(2)]],
        rule reply_obs.observes_bnd [OF chk [OF emits_worker_parts(3)]])
      (auto intro: reply_obs.observes_ret)
qed

lemma observes_worker_answer:
  "observes replies (worker_answer M s a gpid gpname fds registered)
     (\<lambda>_ xs. xs = [reply M s a gpid gpname fds])
     (\<lambda>xs. xs = [] \<or> xs = [refusal M s a] \<or> xs = [reply M s a gpid gpname fds])"
proof -
  let ?R = "[reply M s a gpid gpname fds]"
  have close: "observes replies (for_each (\<lambda>fd. info M (close_fd M fd) :: (server_error, unit) io) fds)
      (\<lambda>_ ys. ?R @ ys = ?R) (\<lambda>ys. ?R @ ys = ?R)"
    by (rule reply_obs.observes_silent [OF emits_worker_parts(5) no_reply_silent]) simp_all
  have "observes replies (seq (send_back M s a gpid gpname fds)
        (for_each (\<lambda>fd. info M (close_fd M fd) :: (server_error, unit) io) fds))
      (\<lambda>_ xs. xs = ?R) (\<lambda>xs. xs = ?R)"
    by (rule reply_obs.observes_seq [OF observes_send_back]) (use close in auto)
  then show ?thesis
    unfolding worker_answer_def
    by (intro reply_obs.observes_seq [OF observes_check [OF emits_worker_parts(4)]])
      (auto elim!: reply_obs.observes_weaken)
qed

section \<open>Calls apart from logging\<close>

definition plain :: "event list \<Rightarrow> syscall list" where
  "plain t = filter (\<lambda>c. \<not> log_call c) (map ev_call t)"

interpretation plain_obs: observation plain
  by unfold_locales (simp add: plain_def)

lemma plain_simps [simp]: "plain [] = []" "plain (s @ t) = plain s @ plain t"
    "plain (Ev c r # t) = (if log_call c then plain t else c # plain t)"
  by (simp_all add: plain_def)

lemma plain_logging: "emits log_call m \<Longrightarrow> run m w = (r, w') \<Longrightarrow> plain (trace w') = plain (trace w)"
  by (rule plain_obs.obs_silent_run) (auto simp: plain_def)

lemma plain_info_close:
  assumes "run (info M (close_fd M fd) :: ('e, unit) io) w = (Ok u, w')"
  shows "plain (trace w') = plain (trace w) @ [Close fd]"
proof (cases "m_unit M (trace w) (Close fd)")
  case (Inr v)
  with assms show ?thesis by (auto simp: info_def close_fd_def map_err_def)
next
  case (Inl e)
  with assms have "run (p M :: ('e, unit) io) (emit (Close fd) (RErr e) w) = (Ok u, w')"
    by (simp add: info_def close_fd_def map_err_def)
  from plain_logging [OF emits_p this] show ?thesis by simp
qed

lemma plain_close_all:
  "run (for_each (\<lambda>fd. info M (close_fd M fd) :: ('e, unit) io) fds) w = (Ok u, w') \<Longrightarrow>
     plain (trace w') = plain (trace w) @ map Close fds"
proof (induction fds arbitrary: w)
  case (Cons fd fds)
  then obtain v w1 where one: "run (info M (close_fd M fd) :: ('e, unit) io) w = (Ok v, w1)"
    and rest: "run (for_each (\<lambda>fd. info M (close_fd M fd) :: ('e, unit) io) fds) w1 = (Ok u, w')"
    by (auto simp: seq_Ok_iff)
  from plain_info_close [OF one] Cons.IH [OF rest] show ?case by simp
qed simp

section \<open>What a worker does\<close>

lemma check_Ok_iff: "run (check M s a ops) w = (Ok x, w') \<longleftrightarrow> run ops w = (Ok x, w')"
  by (auto simp: check_def handle_Ok_iff seq_Ok_iff)

lemma worker_Ok_parts:
  assumes "worker M req s a hdr w = (Ok u, hdr', w')"
  obtains cfg w1 gpid gpname fds registered
  where "run (worker_prepare M req s a) w = (Ok (cfg, gpid, gpname, fds), w1)"
    and "registe_resource cfg hdr gpid = (registered, hdr')"
    and "run (worker_answer M s a gpid gpname fds registered) w1 = (Ok u, w')"
  using assms by (auto simp: worker_def split: prod.splits outcome.splits)


definition empty_hdr :: resource_hdr where
  "empty_hdr = \<lparr>poisoned = False, resources = \<lambda>_. None\<rparr>"

lemma live_parse:
  "\<exists>cfg w1. run (req_parse live sample_req) start = (Ok cfg, w1) \<and> recvd 3 (trace w1) = 0"
proof -
  have "req_parse live sample_req = map_err SrvCore (cfg_new live 7 1000 (Some 1000) ''/p'' ''/x'' ''/d'' [''/usr''])"
    using req_parse_layout [of 7 1000 1000 "''/p''" "''/x''" "''/d''" "Some ''/usr'' # replicate 15 None" live "[]"]
    by (simp add: sample_paths_ok sample_req_def)
  then show ?thesis
    by (simp add: map_err_def run_handle cfg_new_def check_uid_def check_gid_def check_path_def check_dir_def
        fetch_sub_procname_def run_bnd seq_def Let_def is_recv_def)
qed

lemma live_prepare:
  "\<exists>cfg fds w1. run (worker_prepare live sample_req 9 [1]) start = (Ok (cfg, 4242, guard_pname cfg, fds), w1)"
proof -
  obtain cfg0 w1 where p: "run (req_parse live sample_req) start = (Ok cfg0, w1)" "recvd 3 (trace w1) = 0"
    using live_parse by blast
  define cfg where "cfg = cfg0\<lparr>guard_stack := Some STACK_SIZ, guard_pid := Some 4242, guard_loop_id := Some 1\<rparr>"
  obtain w2 where i: "run (init live cfg0) w1 = (Ok cfg, w2)"
    using live_init [OF p(2)] by (auto simp: cfg_def)
  obtain fds w3 where n: "run (get_namespace_fds live cfg) w2 = (Ok fds, w3)"
    by (simp add: get_namespace_fds_def get_guard_pid_def cfg_def NS_def run_bnd on_err_def run_handle file_open_def)
  have g: "run (get_guard_pid cfg) w2 = (Ok 4242, w2)" by (simp add: get_guard_pid_def cfg_def)
  have "run (worker_prepare live sample_req 9 [1]) start = (Ok (cfg, 4242, guard_pname cfg, fds), w3)"
    using p i n g by (simp add: worker_prepare_def check_def run_bnd run_handle map_err_def Let_def get_guard_pname_def)
  then show ?thesis by blast
qed

lemma live_close: "\<exists>w'. run (for_each (\<lambda>fd. info live (close_fd live fd) :: (server_error, unit) io) xs) v = (Ok (), w')"
proof (induction xs arbitrary: v)
  case (Cons x xs)
  have "run (info live (close_fd live x) :: (server_error, unit) io) v = (Ok (), emit (Close x) RUnit v)"
    by (simp add: info_def close_fd_def map_err_def)
  with Cons show ?case by simp
qed simp

lemma live_answer: "\<exists>w'. run (worker_answer live s a gpid gpname fds (Ok ())) w = (Ok (), w')"
  using live_close by (simp add: worker_answer_def check_def map_err_def send_back_def pnk_def send_resq_def
      run_handle run_bnd seq_def)

lemma live_worker:
  "\<exists>hdr' w'. worker live sample_req 9 [1] empty_hdr start = (Ok (), hdr', w') \<and> dom (resources hdr') = {4242}"
proof -
  obtain cfg fds w3 where prep: "run (worker_prepare live sample_req 9 [1]) start
      = (Ok (cfg, 4242, guard_pname cfg, fds), w3)"
    using live_prepare by blast
  obtain w' where "run (worker_answer live 9 [1] 4242 (guard_pname cfg) fds (Ok ())) w3 = (Ok (), w')"
    using live_answer by blast
  then show ?thesis
    using prep by (auto simp: worker_def registe_resource_def empty_hdr_def)
qed




section \<open>The reply, end to end\<close>

lemma scatter_reply_parts:
  "rs_guard_pid (scatter_reply be (i32_to_ne_bytes be gpid @ u128_to_ne_bytes be gpname) Rocker_result_new) = gpid"
  "rs_guard_pname (scatter_reply be (i32_to_ne_bytes be gpid @ u128_to_ne_bytes be gpname) Rocker_result_new)
     = u128_to_ne_bytes be gpname"
  by (simp_all add: scatter_reply_def Rocker_result_new_def Let_def)

text \<open>
  A reply is read back as it was sent. When the client receives the parts of a server's reply as one
  datagram, the wrapper returns the guard's pid and the text of the 16 name bytes before the
  first NUL; the refusal of the server is the error \<open>RockerBuildRocker\<close>; and the namespaces are
  entered in the order of the descriptors.
\<close>

lemma reply_read_back:
  assumes "metal_request_of r = Inr rq"
    and "ce_pipe env" "ce_fork env" "ce_pipe_full env" "ce_genaddr env" "ce_autobound env"
    and "ce_sendmsg env (ROCKER_parse_request (big_endian M) bits rq)"
    and "reply M serv_fd peeraddr gpid gpname fds = (serv_fd, parts, sent_fds, peeraddr)"
    and "ce_recv_fd env = Some (concat parts, sent_fds)"
  shows "enter_rocker (big_endian M) bits env r =
    (if sint gpid < 0 \<or> fds = [] then Inl RockerBuildRocker
     else if \<not> (\<forall>f \<in> set (take 3 (fds @ [0, 0, 0])). ce_setns env f) then Inl RockerEnterRocker
     else if sint (ce_clone env) < 0 then Inl RockerAppExec
     else Inr \<lparr>app_pid = ce_clone env, res_guard_pid = gpid,
               res_guard_pname = chars_of (utf8_lossy (c_text (u128_to_ne_bytes (big_endian M) gpname)))\<rparr>)"
proof -
  have "concat parts = i32_to_ne_bytes (big_endian M) gpid @ u128_to_ne_bytes (big_endian M) gpname"
    and "sent_fds = fds"
    using assms(8) by (auto simp: reply_def)
  with assms show ?thesis
    by (simp add: enter_rocker_steps [OF assms(1)] Let_def scatter_reply_parts)
qed

lemma reply_read_back_instance:
  "enter_rocker False 64 \<lparr>ce_pipe = True, ce_fork = True, ce_pipe_full = True, ce_genaddr = True,
      ce_autobound = True, ce_sendmsg = \<lambda>_. True,
      ce_recv_fd = Some (concat [i32_to_ne_bytes False (- 1), u128_to_ne_bytes False 0], []),
      ce_setns = \<lambda>_. True, ce_clone = 5\<rparr> rocker_request_new = Inl RockerBuildRocker"
proof -
  obtain rq where "metal_request_of rocker_request_new = Inr rq"
    by (simp add: metal_request_of_def rocker_request_new_def)
  from reply_read_back [OF this, of "\<lparr>ce_pipe = True, ce_fork = True, ce_pipe_full = True, ce_genaddr = True,
      ce_autobound = True, ce_sendmsg = \<lambda>_. True,
      ce_recv_fd = Some (concat [i32_to_ne_bytes False (- 1), u128_to_ne_bytes False 0], []),
      ce_setns = \<lambda>_. True, ce_clone = 5\<rparr>" sample 64 9 "[1]" "- 1" 0 "[]"]
  show ?thesis by (simp add: reply_def)
qed

section \<open>The table over time\<close>

text \<open>
  What the table holds. After any history of registrations and removals on a table that is not
  poisoned, the last operation on a pid decides: a registration leaves its configuration, a removal
  nothing, and a pid never touched keeps what it had.
\<close>

lemma table_last_operation:
  assumes "\<not> poisoned hdr"
  shows "resources (fold (\<lambda>x t. case x of Put k c \<Rightarrow> snd (registe_resource c t k) | Del k \<Rightarrow> hdr_remove t k) ops hdr) q
    = (case filter (\<lambda>x. (case x of Put k c \<Rightarrow> k | Del k \<Rightarrow> k) = q) ops of
         [] \<Rightarrow> resources hdr q
       | ys \<Rightarrow> (case last ys of Put k c \<Rightarrow> Some c | Del k \<Rightarrow> None))"
  using table.get_fold [OF assms, of ops q]
  unfolding table.apply_op_def [abs_def] table.op_key_def table.op_value_def .

lemma table_last_operation_instance:
  "resources (hdr_remove (snd (registe_resource sample_cfg empty_hdr 5)) 5) 5 = None"
  using table_last_operation [of empty_hdr "[Put 5 sample_cfg, Del 5]" 5] by (simp add: empty_hdr_def)

section \<open>Releasing\<close>

lemma no_err_release_resource: "no_err (release_resource M cfg :: ('e, unit) io)"
  by (auto simp: release_resource_def sleep_def intro!: no_err_intros)





section \<open>The server loop\<close>

lemma serve_jobs:
  assumes "uau_serve n M serv_fd w = (r, jobs, w')"
  shows "\<exists>ds. jobs = map (\<lambda>(d, a). (take 512 d, a)) ds
    \<and> ((length ds = n \<and> r = Diverge
          \<and> trace w' = trace w @ map (\<lambda>(d, a). Ev (Recvfrom serv_fd 512) (RFrom d a)) ds)
      \<or> (length ds < n \<and> (\<exists>e. r = Err (SrvNix e)
          \<and> trace w' = trace w @ map (\<lambda>(d, a). Ev (Recvfrom serv_fd 512) (RFrom d a)) ds
              @ [Ev (Recvfrom serv_fd 512) (RErr e)])))"
  using assms
proof (induction n arbitrary: w jobs r w')
  case 0
  then show ?case by simp
next
  case (Suc n)
  let ?c = "Recvfrom serv_fd 512"
  show ?case
  proof (cases "m_from M (trace w) ?c")
    case (Inl e)
    with Suc.prems show ?thesis
      by (intro exI [of _ "[]"]) (auto simp: SERVER_BUF_def Let_def)
  next
    case (Inr da)
    obtain d a where da: "da = (d, a)" by (cases da)
    define w1 where "w1 = emit ?c (RFrom d a) w"
    obtain q js w2 where q: "uau_serve n M serv_fd w1 = (q, js, w2)" by (cases "uau_serve n M serv_fd w1") auto
    have res: "r = q" "jobs = (take 512 d, a) # js" "w' = w2"
      using Suc.prems Inr da q by (auto simp: SERVER_BUF_def Let_def w1_def)
    from Suc.IH [OF q] obtain ds where ds: "js = map (\<lambda>(d, a). (take 512 d, a)) ds"
      and alt: "(length ds = n \<and> q = Diverge
          \<and> trace w2 = trace w1 @ map (\<lambda>(d, a). Ev ?c (RFrom d a)) ds)
        \<or> (length ds < n \<and> (\<exists>e. q = Err (SrvNix e)
          \<and> trace w2 = trace w1 @ map (\<lambda>(d, a). Ev ?c (RFrom d a)) ds @ [Ev ?c (RErr e)]))" by blast
    with res show ?thesis
      by (intro exI [of _ "(d, a) # ds"]) (auto simp: w1_def)
  qed
qed

lemma gen_server_socket_Ok:
  assumes "run (gen_server_socket M uau_addr) w = (Ok fd, w')"
  shows "length uau_addr \<le> 107 \<and> map ev_call (trace w') = map ev_call (trace w)
    @ [SocketDgram, Setsockopt fd ReuseAddr, Setsockopt fd ReusePort, BindAbstract fd uau_addr]"
  using assms by (auto simp: gen_server_socket_def bnd_Ok_iff seq_Ok_iff from_res_Ok_iff split: if_splits)

lemma emits_gen_server_socket:
  "emits (\<lambda>c. \<forall>fd n. c \<noteq> Recvfrom fd n) (pnk M (gen_server_socket M uau_addr) :: (server_error, fd) io)"
proof -
  have log: "\<forall>fd n. c \<noteq> Recvfrom fd n" if "log_call c" for c using that by (cases c) auto
  show ?thesis
    unfolding pnk_def gen_server_socket_def by (intro emits_intros) (auto simp: log)
qed



end
