(* ===== verification/Rk_Lifecycle.thy ===== *)
theory Rk_Lifecycle
  imports Rk_Server
begin

text \<open>
  The threads of the server together: workers that start guards and register them, guards that stop
  at any time, and the releasing worker. A step is one atomic action of one of them, its effect on
  the table given by the code's own \<open>init\<close>, \<open>registe_resource\<close> and \<open>reap\<close>, for any kernel.
  A worker that panics on a poisoned table gives its guard up, as one that fails before registering
  does; a guard whose \<open>init\<close> failed is \<open>stillborn\<close>, a process without a configuration. With the flag
  \<open>prompt\<close> of the relation a guard is reaped only once its worker has registered it or given it up:
  the code does not enforce it, and the theorems show what depends on it.
\<close>

section \<open>The system\<close>

datatype proc_status = Running | Stopped

record sys =
  shared :: resource_hdr
  procs :: "i32 \<Rightarrow> proc_status option"
  pending :: "(i32 \<times> rocker_cfg) list"
  born :: "(i32 \<times> rocker_cfg) list"
  lost :: "(i32 \<times> rocker_cfg) list"
  released :: "(i32 \<times> rocker_cfg) list"
  reaper_alive :: bool

definition sys_init :: sys where
  "sys_init = \<lparr>shared = empty_hdr, procs = \<lambda>_. None, pending = [], born = [], lost = [], released = [],
     reaper_alive = True\<rparr>"

text \<open>What a reaping of \<open>pid\<close> hands to \<open>release_resource\<close>.\<close>

definition handed :: "resource_hdr \<Rightarrow> i32 \<Rightarrow> (i32 \<times> rocker_cfg) list" where
  "handed h pid =
     (if poisoned h then [] else case resources h pid of None \<Rightarrow> [] | Some c \<Rightarrow> [(pid, c)])"

inductive step :: "bool \<Rightarrow> sys \<Rightarrow> sys \<Rightarrow> bool" for prompt :: bool where
  started: "\<lbrakk>run (init M cfg0) w = (Ok cfg, w'); guard_pid cfg = Some pid; procs s pid = None\<rbrakk> \<Longrightarrow>
     step prompt s (s\<lparr>procs := (procs s)(pid \<mapsto> Running), pending := (pid, cfg) # pending s,
       born := (pid, cfg) # born s\<rparr>)"
| stillborn: "procs s pid = None \<Longrightarrow> step prompt s (s\<lparr>procs := (procs s)(pid \<mapsto> Running)\<rparr>)"
| registered: "\<lbrakk>(pid, cfg) \<in> set (pending s); registe_resource cfg (shared s) pid = (r, hdr'); r \<noteq> Panic\<rbrakk> \<Longrightarrow>
     step prompt s (s\<lparr>shared := hdr', pending := remove1 (pid, cfg) (pending s)\<rparr>)"
| given_up: "(pid, cfg) \<in> set (pending s) \<Longrightarrow>
     step prompt s (s\<lparr>pending := remove1 (pid, cfg) (pending s), lost := (pid, cfg) # lost s\<rparr>)"
| stopped: "procs s pid = Some Running \<Longrightarrow> step prompt s (s\<lparr>procs := (procs s)(pid \<mapsto> Stopped)\<rparr>)"
| reaped: "\<lbrakk>reaper_alive s; procs s pid = Some Stopped; prompt \<longrightarrow> pid \<notin> fst ` set (pending s);
     m_wait M (trace w) WaitAny = Inr (Some pid); reap M (shared s) w = (r, hdr', w')\<rbrakk> \<Longrightarrow>
     step prompt s (s\<lparr>procs := (procs s)(pid := None), shared := hdr', reaper_alive := (r = Ok ()),
       released := handed (shared s) pid @ released s\<rparr>)"
| wait_failed: "\<lbrakk>reaper_alive s; m_wait M (trace w) WaitAny = Inl e; reap M (shared s) w = (r, hdr', w')\<rbrakk> \<Longrightarrow>
     step prompt s (s\<lparr>reaper_alive := (r = Ok ())\<rparr>)"

inductive reachable :: "bool \<Rightarrow> sys \<Rightarrow> bool" for prompt :: bool where
  initial: "reachable prompt sys_init"
| further: "reachable prompt s \<Longrightarrow> step prompt s s' \<Longrightarrow> reachable prompt s'"

inductive_cases stepE: "step prompt s s'"

lemma reachable_induct_inv:
  assumes "reachable prompt s" and "I sys_init"
    and "\<And>s s'. I s \<Longrightarrow> step prompt s s' \<Longrightarrow> I s'"
  shows "I s"
  using assms(1) by induction (auto intro: assms(2,3))

lemma reachable_steps: "reachable prompt t \<longleftrightarrow> rtranclp (step prompt) sys_init t"
proof
  show "reachable prompt t \<Longrightarrow> rtranclp (step prompt) sys_init t"
    by (induction rule: reachable.induct) auto
  show "rtranclp (step prompt) sys_init t \<Longrightarrow> reachable prompt t"
    by (induction rule: rtranclp_induct) (auto intro: reachable.intros)
qed

section \<open>What a reaping does to the table\<close>

lemma reap_table:
  assumes "m_wait M (trace w) WaitAny = Inr (Some pid)" and "reap M h w = (r, h', w')"
  shows "resources h' = (if poisoned h then resources h else (resources h)(pid := None))"
    and "poisoned h' \<longrightarrow> poisoned h \<or> r = Panic"
    and "poisoned h \<longrightarrow> r = Panic \<and> poisoned h'"
proof -
  have none: "(resources h)(pid := None) = resources h" if "resources h pid = None"
    using that by auto
  have "resources h' = (if poisoned h then resources h else (resources h)(pid := None))
    \<and> (poisoned h' \<longrightarrow> poisoned h \<or> r = Panic) \<and> (poisoned h \<longrightarrow> r = Panic \<and> poisoned h')"
  proof (cases "poisoned h")
    case True
    with assms show ?thesis by (simp add: reap_def Let_def)
  next
    case False
    show ?thesis
    proof (cases "resources h pid")
      case None
      with assms False none show ?thesis by (simp add: reap_def Let_def)
    next
      case (Some cfg)
      obtain q w2 where "run (release_resource M cfg) (emit WaitAny (res_reply RWait (m_wait M (trace w) WaitAny)) w)
        = ((q :: (server_error, unit) outcome), w2)" by fastforce
      with assms False Some show ?thesis by (auto simp: reap_def Let_def hdr_remove_def)
    qed
  qed
  then show "resources h' = (if poisoned h then resources h else (resources h)(pid := None))"
    and "poisoned h' \<longrightarrow> poisoned h \<or> r = Panic"
    and "poisoned h \<longrightarrow> r = Panic \<and> poisoned h'" by blast+
qed

lemma register_table:
  assumes "registe_resource cfg h pid = (r, h')"
  shows "resources h' = (if poisoned h then resources h else (resources h)(pid \<mapsto> cfg))"
    and "poisoned h' = poisoned h"
    and "r = (if poisoned h then Panic else if resources h pid = None then Ok () else Err Unknown)"
  using assms by (auto simp: registe_resource_def split: if_splits option.splits)

section \<open>Invariants\<close>

lemmas remove1_subset = set_remove1_subset [THEN subsetD]

definition keyed :: "sys \<Rightarrow> bool" where
  "keyed s \<longleftrightarrow>
     (\<forall>pid c. resources (shared s) pid = Some c \<longrightarrow> guard_pid c = Some pid)
     \<and> (\<forall>(pid, c) \<in> set (pending s). guard_pid c = Some pid)
     \<and> (\<forall>(pid, c) \<in> set (released s). guard_pid c = Some pid)
     \<and> (poisoned (shared s) \<longrightarrow> \<not> reaper_alive s)"

lemma keyed_step:
  assumes "keyed s" and "step prompt s s'"
  shows "keyed s'"
  using assms(2)
proof cases
  case (started M cfg0 w cfg w' pid)
  with assms(1) show ?thesis by (auto simp: keyed_def)
next
  case (stillborn pid)
  with assms(1) show ?thesis by (auto simp: keyed_def)
next
  case (registered pid cfg r hdr')
  with assms(1) register_table [OF registered(3)] show ?thesis
    by (auto simp: keyed_def dest: remove1_subset)
next
  case (given_up pid cfg)
  with assms(1) show ?thesis by (auto simp: keyed_def dest: remove1_subset)
next
  case (stopped pid)
  with assms(1) show ?thesis by (auto simp: keyed_def)
next
  case (reaped pid M w r hdr' w')
  with assms(1) reap_table [OF reaped(5,6)] show ?thesis
    by (auto simp: keyed_def handed_def split: option.splits if_splits)
next
  case (wait_failed M w e r hdr' w')
  with assms(1) show ?thesis by (auto simp: keyed_def)
qed

lemma keyed_reachable: "reachable prompt s \<Longrightarrow> keyed s"
proof (erule reachable_induct_inv)
  show "keyed sys_init" by (simp add: keyed_def sys_init_def empty_hdr_def)
qed (rule keyed_step)

text \<open>
  The table is keyed by the guard. In every state the threads can reach, in any interleaving,
  each registered, pending or released configuration is under the pid of its own guard, and as
  long as the releasing worker lives the table is not poisoned.
\<close>

lemma table_keyed:
  assumes "reachable prompt s"
  shows "(\<forall>pid c. resources (shared s) pid = Some c \<longrightarrow> guard_pid c = Some pid)
    \<and> (\<forall>(pid, c) \<in> set (pending s) \<union> set (released s). guard_pid c = Some pid)
    \<and> (reaper_alive s \<longrightarrow> \<not> poisoned (shared s))"
  using keyed_reachable [OF assms] by (auto simp: keyed_def)

text \<open>
  The discipline a prompt registration gives: every configuration in the table or on its way to it
  belongs to a process that is still there, at most one per pid; and every configuration ever
  started is pending, registered, handed to a release, or was given up by its worker.
\<close>

definition owned :: "sys \<Rightarrow> bool" where
  "owned s \<longleftrightarrow> dom (resources (shared s)) \<union> fst ` set (pending s) \<subseteq> dom (procs s)
     \<and> distinct (map fst (pending s))
     \<and> dom (resources (shared s)) \<inter> fst ` set (pending s) = {}"

definition accounted :: "sys \<Rightarrow> bool" where
  "accounted s \<longleftrightarrow> set (born s) \<subseteq> set (pending s) \<union> {(pid, c). resources (shared s) pid = Some c}
     \<union> set (released s) \<union> set (lost s)"

lemma distinct_remove1_fst:
  assumes "distinct (map fst xs)" and "(a, b) \<in> set xs"
  shows "fst ` set (remove1 (a, b) xs) = fst ` set xs - {a}" and "distinct (map fst (remove1 (a, b) xs))"
    and "set (remove1 (a, b) xs) = set xs - {(a, b)}"
proof -
  from assms(1) have d: "distinct xs" and inj: "inj_on fst (set xs)" by (simp_all add: distinct_map)
  show rm: "set (remove1 (a, b) xs) = set xs - {(a, b)}" using d by (rule set_remove1_eq)
  show "distinct (map fst (remove1 (a, b) xs))"
    using d inj by (simp add: distinct_map rm inj_on_diff distinct_remove1)
  show "fst ` set (remove1 (a, b) xs) = fst ` set xs - {a}"
    unfolding rm using inj_on_image_set_diff [OF inj, of "set xs" "{(a, b)}"] assms(2) by simp
qed

lemma rest_covers: "B \<subseteq> P \<union> (T \<union> R) \<Longrightarrow> T \<union> {x} \<subseteq> T' \<Longrightarrow> B \<subseteq> (P - {x}) \<union> (T' \<union> R)"
  by blast

lemma owned_registered:
  assumes "owned s \<and> accounted s"
    and registered: "s' = s\<lparr>shared := hdr', pending := remove1 (pid, cfg) (pending s)\<rparr>"
      "(pid, cfg) \<in> set (pending s)" "registe_resource cfg (shared s) pid = (r, hdr')" "r \<noteq> Panic"
  shows "owned s' \<and> accounted s'"
proof -
  have np: "\<not> poisoned (shared s)" using register_table(3) [OF registered(3)] registered(4) by auto
  from assms(1) have d: "distinct (map fst (pending s))"
    and own: "dom (resources (shared s)) \<union> fst ` set (pending s) \<subseteq> dom (procs s)"
    and disj: "dom (resources (shared s)) \<inter> fst ` set (pending s) = {}" by (auto simp: owned_def)
  note rm = distinct_remove1_fst [OF d registered(2)]
  have pin: "pid \<in> fst ` set (pending s)" using registered(2) by force
  with disj have fresh: "resources (shared s) pid = None" by blast
  have tab: "resources (shared s') = (resources (shared s))(pid \<mapsto> cfg)"
    using register_table(1) [OF registered(3)] np registered(1) by simp
  have "fst ` set (pending s') = fst ` set (pending s) - {pid}" "distinct (map fst (pending s'))"
    "procs s' = procs s" using registered(1) rm(1,2) by simp_all
  then have "owned s'" unfolding owned_def tab dom_fun_upd using own disj pin by simp blast
  moreover have "accounted s'" unfolding accounted_def tab
  proof -
    have "{(q, c). resources (shared s) q = Some c} \<union> {(pid, cfg)}
        \<subseteq> {(q, c). ((resources (shared s))(pid \<mapsto> cfg)) q = Some c}"
      using fresh by auto
    from rest_covers [OF _ this, of "set (born s)" "set (pending s)" "set (released s) \<union> set (lost s)"]
    show "set (born s') \<subseteq> set (pending s') \<union> {(q, c). ((resources (shared s))(pid \<mapsto> cfg)) q = Some c}
        \<union> set (released s') \<union> set (lost s')"
      using registered(1) rm(3) assms(1) unfolding accounted_def by (simp add: Un_assoc)
  qed
  ultimately show ?thesis by simp
qed

lemma owned_step:
  assumes "keyed s" and "owned s \<and> accounted s" and "step True s s'"
  shows "owned s' \<and> accounted s'"
  using assms(3)
proof cases
  case (started M cfg0 w cfg w' pid)
  with assms(2) show ?thesis by (auto simp: owned_def accounted_def image_iff)
next
  case (stillborn pid)
  with assms(2) show ?thesis by (auto simp: owned_def accounted_def)
next
  case (registered pid cfg r hdr')
  show ?thesis by (rule owned_registered [OF assms(2) registered])
next
  case (given_up pid cfg)
  from assms(2) have d: "distinct (map fst (pending s))"
    and own: "dom (resources (shared s)) \<union> fst ` set (pending s) \<subseteq> dom (procs s)"
    and disj: "dom (resources (shared s)) \<inter> fst ` set (pending s) = {}" by (auto simp: owned_def)
  note rm = distinct_remove1_fst [OF d given_up(2)]
  have "owned s'" unfolding owned_def using given_up(1) rm(1,2) own disj by auto
  moreover have "accounted s'" using given_up(1) rm(3) assms(2) unfolding accounted_def by auto
  ultimately show ?thesis by simp
next
  case (stopped pid)
  with assms(2) show ?thesis by (auto simp: owned_def accounted_def)
next
  case (reaped pid M w r hdr' w')
  then have np: "\<not> poisoned (shared s)" using assms(1) by (auto simp: keyed_def)
  then have tab: "resources hdr' = (resources (shared s))(pid := None)"
    using reap_table(1) [OF reaped(5,6)] by simp
  have "owned s'" using reaped(1,4) tab assms(2) by (auto simp: owned_def)
  moreover have "{(q, c). resources (shared s) q = Some c}
      \<subseteq> {(q, c). resources hdr' q = Some c} \<union> set (handed (shared s) pid)"
    using tab np by (auto simp: handed_def)
  then have "accounted s'" using reaped(1) assms(2) unfolding accounted_def by simp blast
  ultimately show ?thesis by simp
next
  case (wait_failed M w e r hdr' w')
  with assms(2) show ?thesis by (auto simp: owned_def accounted_def)
qed

lemma owned_reachable: "reachable True s \<Longrightarrow> owned s \<and> accounted s"
proof (induction rule: reachable.induct)
  case initial
  show ?case by (simp add: owned_def accounted_def sys_init_def empty_hdr_def)
next
  case (further s s')
  with owned_step [OF keyed_reachable] show ?case by blast
qed


text \<open>
  C6: Prompt registration. If every guard outlives its worker's registration, then in every state
  the threads can reach each entry of the table belongs to a process not yet reaped, every pending
  registration in a healthy table succeeds without replacing an entry, and every configuration ever
  started is pending, registered, handed to a release or was given up.
\<close>

theorem prompt_registration:
  assumes "reachable True s"
  shows "dom (resources (shared s)) \<subseteq> dom (procs s)
    \<and> (\<forall>(pid, c) \<in> set (pending s). \<not> poisoned (shared s) \<longrightarrow> fst (registe_resource c (shared s) pid) = Ok ())
    \<and> set (born s) \<subseteq> set (pending s) \<union> {(pid, c). resources (shared s) pid = Some c}
        \<union> set (released s) \<union> set (lost s)"
proof -
  from owned_reachable [OF assms] have o: "owned s" and a: "accounted s" by auto
  have "resources (shared s) pid = None" if "(pid, c) \<in> set (pending s)" for pid c
    using o that by (force simp: owned_def)
  then show ?thesis using o a by (auto simp: owned_def accounted_def registe_resource_def)
qed

definition started_cfg :: rocker_cfg where
  "started_cfg = sample_cfg\<lparr>guard_stack := Some STACK_SIZ, guard_pid := Some 4242, guard_loop_id := Some 1\<rparr>"

lemma init_started: "\<exists>w'. run (init live sample_cfg) start = (Ok started_cfg, w')"
  using live_init [of start sample_cfg] by (simp add: started_cfg_def)

definition one_started :: sys where
  "one_started = sys_init\<lparr>procs := [4242 \<mapsto> Running], pending := [(4242, started_cfg)],
     born := [(4242, started_cfg)]\<rparr>"

lemma one_started_reachable: "reachable prompt one_started"
proof -
  obtain w' where "run (init live sample_cfg) start = (Ok started_cfg, w')" using init_started by blast
  then have "step prompt sys_init (sys_init\<lparr>procs := (procs sys_init)(4242 \<mapsto> Running),
      pending := (4242, started_cfg) # pending sys_init, born := (4242, started_cfg) # born sys_init\<rparr>)"
    by (rule step.started) (simp_all add: started_cfg_def sys_init_def)
  then have "step prompt sys_init one_started" by (simp add: one_started_def sys_init_def)
  with reachable.initial show ?thesis by (rule reachable.further)
qed

lemma table_keyed_instance:
  "pending one_started = [(4242, started_cfg)] \<and> guard_pid started_cfg = Some 4242"
  using table_keyed [OF one_started_reachable] by (auto simp: one_started_def)

theorem prompt_registration_witness:
  "pending one_started = [(4242, started_cfg)]
   \<and> fst (registe_resource started_cfg (shared one_started) 4242) = Ok ()"
  using prompt_registration [OF one_started_reachable]
  by (auto simp: one_started_def sys_init_def empty_hdr_def)

section \<open>The race\<close>

definition wait_4242 :: machine where
  "wait_4242 = sample\<lparr>m_wait := \<lambda>_ _. Inr (Some 4242)\<rparr>"

text \<open>
  C27: A guard reaped before it is registered. Without that discipline, which nothing in the code
  enforces, the threads can reach a state whose table holds a configuration of a process that is
  gone, with nothing released and nothing pending: its loop device stays bound. When the kernel then
  gives the pid to a new guard, that guard's registration reports an error, so its client is refused.
\<close>

theorem reaped_before_registered:
  "\<exists>s s'. reachable False s \<and> resources (shared s) 4242 = Some started_cfg \<and> procs s 4242 = None
     \<and> pending s = [] \<and> released s = [] \<and> lost s = [] \<and> guard_loop_id started_cfg = Some 1
     \<and> step False s s' \<and> pending s' = [(4242, started_cfg)] \<and> procs s' 4242 = Some Running
     \<and> fst (registe_resource started_cfg (shared s') 4242) = Err Unknown"
proof -
  define s1 where "s1 = one_started\<lparr>procs := [4242 \<mapsto> Stopped]\<rparr>"
  define s2 where "s2 = one_started\<lparr>procs := Map.empty\<rparr>"
  define s3 where "s3 = s2\<lparr>shared := \<lparr>poisoned = False, resources = [4242 \<mapsto> started_cfg]\<rparr>, pending := []\<rparr>"
  define s4 where "s4 = s3\<lparr>procs := [4242 \<mapsto> Running], pending := [(4242, started_cfg)],
    born := [(4242, started_cfg), (4242, started_cfg)]\<rparr>"
  note defs = one_started_def sys_init_def empty_hdr_def
  have "step False one_started s1"
    using step.stopped [of one_started 4242 False] by (simp add: s1_def defs)
  moreover have "step False s1 s2"
  proof -
    have "reap wait_4242 (shared s1) start = (Ok (), shared s1, emit WaitAny (RWait (Some 4242)) start)"
      by (simp add: reap_def Let_def s1_def defs wait_4242_def)
    from step.reaped [of s1 4242 False wait_4242 start, OF _ _ _ _ this] show ?thesis
      by (simp add: s1_def s2_def defs handed_def wait_4242_def)
  qed
  moreover have "step False s2 s3"
    using step.registered [of 4242 started_cfg s2 _ _ False, OF _ prod.collapse [symmetric]]
    by (simp add: s2_def s3_def defs registe_resource_def)
  ultimately have r: "reachable False s3"
    using one_started_reachable reachable.further by metis
  obtain w' where "run (init live sample_cfg) start = (Ok started_cfg, w')" using init_started by blast
  from step.started [OF this, of 4242 s3 False] have "step False s3 s4"
    by (simp add: s2_def s3_def s4_def defs started_cfg_def)
  with r show ?thesis
    by (intro exI [of _ s3] exI [of _ s4])
      (simp add: s2_def s3_def s4_def defs registe_resource_def started_cfg_def)
qed


section \<open>The releasing worker, alive and dead\<close>

definition wait_for :: "i32 \<Rightarrow> machine" where
  "wait_for pid = sample\<lparr>m_wait := \<lambda>_ _. Inr (Some pid)\<rparr>"

lemma release_on_sample: "\<exists>w'. run (release_resource (wait_for pid) cfg :: (server_error, unit) io) w = (Ok (), w')"
proof -
  have log: "\<exists>w'. run (p (wait_for pid) :: (server_error, unit) io) w = (Ok (), w')" for w
    using p_returns [of "wait_for pid" w] by (auto simp: wait_for_def)
  have clean: "\<exists>w'. run (info (wait_for pid) (resource_clean (wait_for pid) cfg) :: (server_error, unit) io) w = (Ok (), w')" for w
  proof (cases "guard_loop_id cfg")
    case None
    with log [of w] show ?thesis
      by (auto simp: info_def resource_clean_def cfg_loop_unbind_def run_handle run_bnd seq_def map_err_def Let_def)
  next
    case (Some lid)
    then show ?thesis
      by (simp add: info_def resource_clean_def cfg_loop_unbind_def file_open_def loop_unbind_def
          metal_loop_unbind_def close_fd_def run_handle run_bnd seq_def map_err_def Let_def wait_for_def sample_num_def)
  qed
  have destroy: "\<exists>w'. run (info (wait_for pid) (cfg_loop_destroy (wait_for pid) cfg) :: (server_error, unit) io) w = (Ok (), w')" for w
  proof (cases "guard_loop_id cfg")
    case None
    with log [of w] show ?thesis
      by (auto simp: info_def cfg_loop_destroy_def run_handle run_bnd map_err_def)
  next
    case (Some lid)
    then show ?thesis
      by (cases "loop_master w") (simp_all add: info_def cfg_loop_destroy_def loop_destroy_def LOOP_MASTER_def
          loop_ctl_remove_def metal_loop_ctl_remove_def loop_ctl_open_def pnk_def
          run_handle run_bnd seq_def map_err_def wait_for_def sample_num_def)
  qed
  obtain w1 where w1: "run (info (wait_for pid) (resource_clean (wait_for pid) cfg) :: (server_error, unit) io) w = (Ok (), w1)"
    using clean by blast
  obtain w2 where w2: "run (sleep (wait_for pid) 2 :: (server_error, unit) io) w1 = (Ok (), w2)"
    by (simp add: sleep_def run_bnd seq_def wait_for_def)
  from destroy [of w2] w1 w2 show ?thesis by (auto simp: release_resource_def run_bnd seq_def)
qed

text \<open>A registered guard that has stopped stays as it is until a reaping hands it to a release.\<close>

definition awaits :: "sys \<Rightarrow> i32 \<Rightarrow> rocker_cfg \<Rightarrow> bool" where
  "awaits s pid c \<longleftrightarrow> procs s pid = Some Stopped \<and> resources (shared s) pid = Some c"

lemma awaits_step:
  assumes "owned s" and "keyed s" and "awaits s pid c" and "step True s s'"
  shows "awaits s' pid c \<or> (pid, c) \<in> set (released s')"
  using assms(4)
proof cases
  case (registered q cfg r hdr')
  then have "q \<noteq> pid" using assms(1,3) by (force simp: owned_def awaits_def)
  with registered assms(3) register_table(1) [OF registered(3)] show ?thesis by (auto simp: awaits_def)
next
  case (reaped q M w r hdr' w')
  then have np: "\<not> poisoned (shared s)" using assms(2) by (auto simp: keyed_def)
  show ?thesis
  proof (cases "q = pid")
    case True
    with reaped(1) np assms(3) show ?thesis by (simp add: handed_def awaits_def)
  next
    case False
    with reaped(1) np assms(3) reap_table(1) [OF reaped(5,6)] show ?thesis by (simp add: awaits_def)
  qed
qed (use assms(3) in \<open>auto simp: awaits_def\<close>)

lemma reap_enabled:
  assumes "owned s" and "keyed s" and "reaper_alive s" and "awaits s pid c"
  shows "\<exists>s'. step True s s' \<and> (pid, c) \<in> set (released s') \<and> reaper_alive s'
    \<and> resources (shared s') = (resources (shared s))(pid := None) \<and> procs s' = (procs s)(pid := None)"
proof -
  let ?w = "emit WaitAny (RWait (Some pid)) start"
  from assms have np: "\<not> poisoned (shared s)" by (auto simp: keyed_def)
  obtain w' where rel: "run (release_resource (wait_for pid) c :: (server_error, unit) io) ?w = (Ok (), w')"
    using release_on_sample by blast
  have wait: "m_wait (wait_for pid) (trace start) WaitAny = Inr (Some pid)" by (simp add: wait_for_def)
  have reap: "reap (wait_for pid) (shared s) start = (Ok (), (hdr_remove (shared s) pid)\<lparr>poisoned := False\<rparr>, w')"
    using np rel assms(4) wait by (simp add: reap_def Let_def awaits_def)
  have "pid \<notin> fst ` set (pending s)" using assms(1,4) by (auto simp: owned_def awaits_def)
  from step.reaped [OF assms(3) _ _ wait reap, of True] this np assms(4) show ?thesis
    by (auto simp: awaits_def handed_def hdr_remove_def)
qed

text \<open>
  C17: A stopped guard is released. Under the same discipline, while the releasing worker lives, a registered
  guard that has stopped can be reaped, and a kernel on which every call succeeds then hands its
  configuration to a release, frees its entry and its pid, and keeps the worker alive; and until that
  happens no step of any thread loses the entry or the stopped process.
\<close>

theorem stopped_guard_released:
  assumes "reachable True s" and "reaper_alive s"
    and "procs s pid = Some Stopped" and "resources (shared s) pid = Some c"
  shows "(\<exists>s'. step True s s' \<and> (pid, c) \<in> set (released s') \<and> reaper_alive s'
      \<and> resources (shared s') = (resources (shared s))(pid := None) \<and> procs s' pid = None)
    \<and> (\<forall>s'. step True s s' \<longrightarrow>
         procs s' pid = Some Stopped \<and> resources (shared s') pid = Some c \<or> (pid, c) \<in> set (released s'))"
  using reap_enabled [OF _ keyed_reachable, of s True] awaits_step [OF _ keyed_reachable, of s True]
    owned_reachable [OF assms(1)] assms
  unfolding awaits_def by (metis fun_upd_same)



definition one_stopped :: sys where
  "one_stopped = one_started\<lparr>procs := [4242 \<mapsto> Stopped], pending := [],
     shared := \<lparr>poisoned = False, resources = [4242 \<mapsto> started_cfg]\<rparr>\<rparr>"

lemma one_stopped_reachable: "reachable True one_stopped"
proof -
  define s1 where "s1 = one_started\<lparr>shared := \<lparr>poisoned = False, resources = [4242 \<mapsto> started_cfg]\<rparr>, pending := []\<rparr>"
  note defs = one_started_def sys_init_def empty_hdr_def
  have "step True one_started s1"
    using step.registered [of 4242 started_cfg one_started _ _ True, OF _ prod.collapse [symmetric]]
    by (simp add: s1_def defs registe_resource_def)
  moreover have "step True s1 one_stopped"
    using step.stopped [of s1 4242 True] by (simp add: s1_def one_stopped_def defs)
  ultimately show ?thesis using one_started_reachable reachable.further by metis
qed

theorem stopped_guard_released_witness:
  "\<exists>s'. step True one_stopped s' \<and> (4242, started_cfg) \<in> set (released s') \<and> reaper_alive s'"
  using stopped_guard_released [OF one_stopped_reachable, of 4242 started_cfg]
  by (auto simp: one_stopped_def one_started_def sys_init_def)

definition no_logging :: machine where
  "no_logging = wait_4242\<lparr>m_num := \<lambda>_ _. Inl 5, m_text := \<lambda>_ _. Inl 2\<rparr>"

lemma no_logging_sel [simp]:
  "m_unit no_logging t c = Inr ()" "m_num no_logging t c = Inl 5" "m_text no_logging t c = Inl 2"
  "m_wait no_logging t c = Inr (Some 4242)" "stack_depth no_logging = Suc 7"
  by (simp_all add: no_logging_def wait_4242_def)

lemma reap_panics: "\<exists>w'. reap no_logging (shared one_stopped) start
    = (Panic, \<lparr>poisoned = True, resources = Map.empty\<rparr>, w')"
proof -
  have "\<exists>w'. run (release_resource no_logging started_cfg :: (server_error, unit) io) w = (Panic, w')" for w
  proof -
    have log: "\<exists>w'. run (p no_logging :: (server_error, unit) io) v = (Panic, w')" for v
    proof -
      have "\<exists>w1. run (sem_log_deref no_logging :: (server_error, unit) io) v = (Ok (), w1)"
        by (cases "sem_log v") (simp_all add: sem_log_deref_def run_bnd)
      moreover have "p no_logging = (log_line no_logging (p_at 7 no_logging) :: (server_error, unit) io)"
        using p_at.simps(2) [of 7 no_logging] by (simp add: p_def)
      ultimately show ?thesis
        by (auto simp: log_line_def sem_get_def get_clocktime_def get_pidns_def run_bnd run_handle seq_def)
    qed
    obtain v where "run (info no_logging (resource_clean no_logging started_cfg) :: (server_error, unit) io) w
        = run (p no_logging) v"
      by (simp add: info_def resource_clean_def cfg_loop_unbind_def file_open_def
          run_handle run_bnd seq_def map_err_def Let_def started_cfg_def)
    with log [of v] show ?thesis by (auto simp: release_resource_def run_bnd seq_def)
  qed
  then obtain w' where "run (release_resource no_logging started_cfg :: (server_error, unit) io)
      (emit WaitAny (res_reply RWait (m_wait no_logging (trace start) WaitAny)) start) = (Panic, w')" by blast
  then show ?thesis
    by (simp add: reap_def Let_def one_stopped_def hdr_remove_def)
qed


end
