(* ===== verification/Rk_Service.thy ===== *)
theory Rk_Service
  imports Rk_Server
begin

text \<open>
  One request through every part of the program: laid out by the client, parsed, served and registered
  by a worker, and answered to the client. The lemmas relate what a worker has put into the table
  to the reply it has sent, and the reply to what the client returns.
\<close>

section \<open>What a request asks for\<close>

text \<open>The configuration a request of the client describes, apart from the guard's own fields.\<close>

definition describes :: "rocker_request \<Rightarrow> rocker_cfg \<Rightarrow> bool" where
  "describes r cfg \<longleftrightarrow>
     app_id cfg = w_app_id r \<and> uid cfg = w_uid r \<and> gid cfg = w_gid r
     \<and> app_pkg_path cfg = w_pkg_path r \<and> app_exec_dir cfg = w_exec_dir r \<and> app_data_dir cfg = w_data_dir r
     \<and> app_overlay_dirs cfg = filter (\<lambda>s. s \<noteq> []) (take 16 (w_overlay_dirs r))"

lemma init_shape:
  assumes "run (init M cfg) w = (Ok cfg', w')"
  obtains pid l where "cfg' = cfg\<lparr>guard_stack := Some STACK_SIZ, guard_pid := Some pid, guard_loop_id := l\<rparr>"
    and "l = guard_loop_id cfg \<or> (\<exists>i. l = Some i \<and> 0 \<le> sint i)"
proof -
  have pad: "cfg\<lparr>guard_stack := st, guard_pid := p\<rparr>
      = cfg\<lparr>guard_stack := st, guard_pid := p, guard_loop_id := guard_loop_id cfg\<rparr>" for st p
    by simp
  from assms have "(\<exists>pid i. cfg' = cfg\<lparr>guard_stack := Some STACK_SIZ, guard_pid := Some pid, guard_loop_id := Some i\<rparr>
        \<and> \<not> sint i < 0)
      \<or> (\<exists>pid. cfg' = cfg\<lparr>guard_stack := Some STACK_SIZ, guard_pid := Some pid\<rparr>)"
    by (auto simp: init_def start_guard_def Let_def bnd_Ok_iff seq_Ok_iff split: if_splits prod.splits)
  with pad that show ?thesis by (metis not_less)
qed

lemma init_keeps_request:
  assumes "run (init M cfg) w = (Ok cfg', w')"
  shows "\<exists>st p l. cfg' = cfg\<lparr>guard_stack := st, guard_pid := p, guard_loop_id := l\<rparr>"
  by (rule init_shape [OF assms]) blast

lemma parsed_describes:
  assumes fits: "32 \<le> bits" "usize_bits M = 64" "request_ok r"
      "length (client_datagram (big_endian M) bits r) < 2 ^ 64"
    and run: "run (req_parse M (take n (client_datagram (big_endian M) bits r))) w = (Ok cfg, w')"
  shows "describes r cfg" and "guard_pname cfg = word_of_nat (procname_ctr w)"
proof -
  have "req_parse M (take n (client_datagram (big_endian M) bits r)) \<in> {request_meaning M r, fail SrvUnknown}"
    by (rule wire.never_misread) (use fits in simp)
  with run have "run (request_meaning M r) w = (Ok cfg, w')" by auto
  then have new: "run (cfg_new M (w_app_id r) (w_uid r) (w_gid r) (w_pkg_path r) (w_exec_dir r) (w_data_dir r)
      (filter (\<lambda>s. s \<noteq> []) (take 16 (w_overlay_dirs r)))) w = (Ok cfg, w')"
    by (simp add: request_meaning_def map_err_Ok_iff)
  show "describes r cfg" "guard_pname cfg = word_of_nat (procname_ctr w)"
    using cfg_new_fields [OF new] by (simp_all add: describes_def)
qed

section \<open>What a worker has done when it replies\<close>

lemma worker_prepare_parts:
  assumes "run (worker_prepare M req s a) w = (Ok (cfg, gpid, gpname, fds), w')"
  obtains cfg0 w1 w2 where "run (req_parse M req) w = (Ok cfg0, w1)" "run (init M cfg0) w1 = (Ok cfg, w2)"
    "guard_pid cfg = Some gpid" "gpname = guard_pname cfg" "run (get_namespace_fds M cfg) w2 = (Ok fds, w')"
  using assms by (auto simp: worker_prepare_def Let_def bnd_Ok_iff check_Ok_iff map_err_Ok_iff
      get_guard_pname_def get_guard_pid_def from_opt_Ok_iff)

lemma namespace_fds_three:
  assumes "guard_pid cfg = Some gpid" and "run (get_namespace_fds M cfg) w = (Ok fds, w')"
  shows "length fds = 3"
proof -
  have "run (for_collect (\<lambda>ns. on_err (file_open M (ns_path gpid ns)) (kill_SIGKILL M gpid)) NS) w = (Ok fds, w')"
    using assms by (simp add: get_namespace_fds_def get_guard_pid_def ns_path_def)
  from open_all [OF this] show ?thesis by (auto simp: NS_def)
qed

lemma worker_prepare_Ok:
  assumes "run (worker_prepare M req s a) w = (Ok (cfg, gpid, gpname, fds), w')"
  obtains cfg0 w1 where "run (req_parse M req) w = (Ok cfg0, w1)" "\<forall>r. describes r cfg0 \<longrightarrow> describes r cfg"
    "guard_pid cfg = Some gpid" "gpname = guard_pname cfg" "guard_pname cfg = guard_pname cfg0" "length fds = 3"
proof -
  from worker_prepare_parts [OF assms] obtain cfg0 w1 w2 where p: "run (req_parse M req) w = (Ok cfg0, w1)"
    and i: "run (init M cfg0) w1 = (Ok cfg, w2)" and g: "guard_pid cfg = Some gpid"
    and n: "run (get_namespace_fds M cfg) w2 = (Ok fds, w')" and name: "gpname = guard_pname cfg" .
  from init_keeps_request [OF i] have "\<forall>r. describes r cfg0 \<longrightarrow> describes r cfg" "guard_pname cfg = guard_pname cfg0"
    by (auto simp: describes_def)
  with that p g name namespace_fds_three [OF g n] show ?thesis by blast
qed

lemma reply_not_refusal: "reply M s a gpid gpname fds = refusal M s a \<Longrightarrow> fds = []"
  by (simp add: reply_def refusal_def)

lemma observes_answer_refused:
  "registered \<noteq> Ok () \<Longrightarrow> observes replies (worker_answer M s a gpid gpname fds registered)
     (\<lambda>_ xs. False) (\<lambda>xs. xs = [] \<or> xs = [refusal M s a])"
proof -
  assume "registered \<noteq> Ok ()"
  then have no: "run (check M s a (map_err SrvCore (from_outcome registered))) w \<noteq> (Ok u, w')" for u w w'
    by (cases registered) (auto simp: check_Ok_iff map_err_Ok_iff)
  show ?thesis
  proof (rule reply_obs.observesI)
    fix w r w'
    assume run: "run (worker_answer M s a gpid gpname fds registered) w = (r, w')"
    obtain q w1 where c: "run (check M s a (map_err SrvCore (from_outcome registered))) w = (q, w1)"
      by (cases "run (check M s a (map_err SrvCore (from_outcome registered))) w")
    with no have q: "q \<noteq> Ok ()" by auto
    then have "w' = w1" "r = (case q of Ok _ \<Rightarrow> r | Err e \<Rightarrow> Err e | Panic \<Rightarrow> Panic | Diverge \<Rightarrow> Diverge)"
      using run c by (cases q; auto simp: worker_answer_def run_bnd seq_def)+
    with reply_obs.observesD [OF observes_check [OF emits_worker_parts(4)] c] q
    show "\<exists>xs. replies (trace w') = replies (trace w) @ xs
        \<and> (case r of Ok u \<Rightarrow> False | _ \<Rightarrow> xs = [] \<or> xs = [refusal M s a])"
      by (cases q) auto
  qed
qed


lemma worker_reply_registered:
  assumes run: "worker M req s a hdr w = (q, hdr', w')"
    and rep: "replies (trace w') = replies (trace w) @ [x]" and not: "x \<noteq> refusal M s a"
  obtains cfg0 w1 cfg gpid fds where "run (req_parse M req) w = (Ok cfg0, w1)"
    "\<forall>r. describes r cfg0 \<longrightarrow> describes r cfg" "guard_pid cfg = Some gpid"
    "guard_pname cfg = guard_pname cfg0" "length fds = 3"
    "x = reply M s a gpid (guard_pname cfg) fds" "\<not> poisoned hdr" "resources hdr gpid = None"
    "hdr' = hdr\<lparr>resources := (resources hdr)(gpid \<mapsto> cfg)\<rparr>"
proof -
  obtain q1 w1 where prep: "run (worker_prepare M req s a) w = (q1, w1)"
    by (cases "run (worker_prepare M req s a) w")
  note seen = reply_obs.observesD [OF observes_worker_prepare prep]
  obtain cfg gpid gpname fds where q1: "q1 = Ok (cfg, gpid, gpname, fds)"
  proof (cases q1)
    case (Ok v)
    then show ?thesis using that by (cases v) auto
  qed (use run prep seen rep not in \<open>auto simp: worker_def\<close>)
  with seen have none: "replies (trace w1) = replies (trace w)" by simp
  obtain registered where reg: "registe_resource cfg hdr gpid = (registered, hdr')"
    and ans: "run (worker_answer M s a gpid gpname fds registered) w1 = (q, w')"
    using run prep q1 by (auto simp: worker_def split: prod.splits)
  have ok: "registered = Ok ()"
  proof (rule ccontr)
    assume "registered \<noteq> Ok ()"
    from reply_obs.observesD [OF observes_answer_refused [OF this] ans] none rep not
    show False by (cases q) auto
  qed
  have "x = reply M s a gpid gpname fds"
    using reply_obs.observesD [OF observes_worker_answer ans] none rep not by (cases q) auto
  moreover have "\<not> poisoned hdr" "resources hdr gpid = None"
      "hdr' = hdr\<lparr>resources := (resources hdr)(gpid \<mapsto> cfg)\<rparr>"
    using reg ok by (auto simp: registe_resource_def split: if_splits option.splits)
  moreover obtain cfg0 w0 where "run (req_parse M req) w = (Ok cfg0, w0)" "guard_pid cfg = Some gpid"
      "\<forall>r. describes r cfg0 \<longrightarrow> describes r cfg" "gpname = guard_pname cfg" "guard_pname cfg = guard_pname cfg0"
      "length fds = 3"
    by (rule worker_prepare_Ok [OF prep [unfolded q1]])
  ultimately show ?thesis using that by blast
qed

section \<open>What the client makes of a reply\<close>

text \<open>The name the wrapper reports for a counter value.\<close>

definition shown_name :: "bool \<Rightarrow> u128 \<Rightarrow> string" where
  "shown_name be n = chars_of (utf8_lossy (c_text (u128_to_ne_bytes be n)))"

definition reaches_server :: "bool \<Rightarrow> nat \<Rightarrow> client_env \<Rightarrow> rocker_request \<Rightarrow> bool" where
  "reaches_server be bits env r \<longleftrightarrow> ce_pipe env \<and> ce_fork env \<and> ce_pipe_full env \<and> ce_genaddr env
     \<and> ce_autobound env \<and> (\<exists>rq. metal_request_of r = Inr rq \<and> ce_sendmsg env (ROCKER_parse_request be bits rq))"

lemma client_reads_reply:
  assumes "metal_request_of r = Inr rq"
    and "ce_recv_fd env = Some (i32_to_ne_bytes be gpid @ u128_to_ne_bytes be gpname, cfds)"
  shows "enter_rocker be bits env r = Inr res \<Longrightarrow>
      res_guard_pid res = gpid \<and> res_guard_pname res = shown_name be gpname \<and> 0 \<le> sint gpid \<and> cfds \<noteq> []"
    and "reaches_server be bits env r \<Longrightarrow> (\<And>f. ce_setns env f) \<Longrightarrow> 0 \<le> sint (ce_clone env) \<Longrightarrow>
      enter_rocker be bits env r =
        (if sint gpid < 0 \<or> cfds = [] then Inl RockerBuildRocker
         else Inr \<lparr>app_pid = ce_clone env, res_guard_pid = gpid, res_guard_pname = shown_name be gpname\<rparr>)"
proof -
  note steps = enter_rocker_steps [OF assms(1), of be bits env] assms
  show "enter_rocker be bits env r = Inr res \<Longrightarrow>
      res_guard_pid res = gpid \<and> res_guard_pname res = shown_name be gpname \<and> 0 \<le> sint gpid \<and> cfds \<noteq> []"
    by (auto simp: steps Let_def scatter_reply_parts shown_name_def split: if_splits)
  show "reaches_server be bits env r \<Longrightarrow> (\<And>f. ce_setns env f) \<Longrightarrow> 0 \<le> sint (ce_clone env) \<Longrightarrow>
      enter_rocker be bits env r =
        (if sint gpid < 0 \<or> cfds = [] then Inl RockerBuildRocker
         else Inr \<lparr>app_pid = ce_clone env, res_guard_pid = gpid, res_guard_pname = shown_name be gpname\<rparr>)"
    by (auto simp: steps Let_def scatter_reply_parts shown_name_def reaches_server_def)
qed

lemma refusal_read:
  assumes "(s, parts, fds, a) = refusal M s a" and "length cfds = length fds"
    and "metal_request_of r = Inr rq" and "ce_recv_fd env = Some (concat parts, cfds)"
  shows "enter_rocker (big_endian M) bits env r \<noteq> Inr res"
    and "reaches_server (big_endian M) bits env r \<Longrightarrow> enter_rocker (big_endian M) bits env r = Inl RockerBuildRocker"
proof -
  have rd: "ce_recv_fd env = Some (i32_to_ne_bytes (big_endian M) (- 1) @ u128_to_ne_bytes (big_endian M) 0, [])"
    using assms by (simp add: refusal_def reply_def)
  from client_reads_reply(1) [OF assms(3) rd] show "enter_rocker (big_endian M) bits env r \<noteq> Inr res" by blast
  show "reaches_server (big_endian M) bits env r \<Longrightarrow> enter_rocker (big_endian M) bits env r = Inl RockerBuildRocker"
    using rd assms(3) by (auto simp: enter_rocker_steps [OF assms(3)] Let_def scatter_reply_parts reaches_server_def)
qed


section \<open>A request that fails early\<close>

lemma check_Err_refuses:
  assumes "run ops w = (Err e, w1)" and "replies (trace w1) = replies (trace w)"
    and "run (check M s a ops) w = (q, w')"
  shows "replies (trace w') = replies (trace w) @ [refusal M s a] \<and> (\<forall>x. q \<noteq> Ok x)"
proof -
  have run: "run (seq (send_back M s a (- 1) 0 []) (pdie M)) w1 = (q, w')"
    using assms by (simp add: check_def run_handle)
  have "observes replies (seq (send_back M s a (- 1) 0 []) (pdie M :: (server_error, 'a) io))
      (\<lambda>_ xs. False) (\<lambda>xs. xs = [refusal M s a])"
  proof (rule reply_obs.observes_seq [OF observes_send_back])
    fix xs
    assume "xs = [reply M s a (- 1) 0 []]"
    then show "observes replies (pdie M :: (server_error, 'a) io)
        (\<lambda>_ ys. False) (\<lambda>ys. xs @ ys = [refusal M s a])"
      by (intro observes_pdie) (simp add: refusal_def)
  qed (simp add: refusal_def)
  from reply_obs.observesD [OF this run] assms(2) show ?thesis by (cases q) auto
qed

lemma worker_unparsed:
  assumes "run (req_parse M req) w = (Err e, w1)" and "worker M req s a hdr w = (q, hdr', w')"
  shows "replies (trace w') = replies (trace w) @ [refusal M s a] \<and> hdr' = hdr \<and> q \<noteq> Ok ()"
proof -
  have silent: "replies (trace w1) = replies (trace w)"
    by (rule reply_obs.obs_silent_run [OF emits_req_parse no_reply_silent assms(1)])
  obtain p v where c: "run (check M s a (req_parse M req)) w = (p, v)"
    by (cases "run (check M s a (req_parse M req)) w")
  from check_Err_refuses [OF assms(1) silent c]
  have "replies (trace v) = replies (trace w) @ [refusal M s a]" and no: "\<forall>x. p \<noteq> Ok x" by auto
  moreover from no c assms(2) have "w' = v \<and> hdr' = hdr \<and> q \<noteq> Ok ()"
    by (cases p) (auto simp: worker_def worker_prepare_def run_bnd)
  ultimately show ?thesis by simp
qed


lemma worker_Ok_replies:
  assumes "worker M req s a hdr w = (Ok u, hdr', w')"
  obtains cfg0 w1 cfg gpid fds where "run (req_parse M req) w = (Ok cfg0, w1)"
    "\<forall>r. describes r cfg0 \<longrightarrow> describes r cfg" "guard_pid cfg = Some gpid" "length fds = 3"
    "replies (trace w') = replies (trace w) @ [reply M s a gpid (guard_pname cfg) fds]"
    "hdr' = hdr\<lparr>resources := (resources hdr)(gpid \<mapsto> cfg)\<rparr>"
proof -
  from worker_Ok_parts [OF assms] obtain cfg w1 gpid gpname fds registered
  where prep: "run (worker_prepare M req s a) w = (Ok (cfg, gpid, gpname, fds), w1)"
    and "registe_resource cfg hdr gpid = (registered, hdr')"
    and ans: "run (worker_answer M s a gpid gpname fds registered) w1 = (Ok u, w')" .
  have "replies (trace w') = replies (trace w) @ [reply M s a gpid gpname fds]"
    using reply_obs.observesD [OF observes_worker_prepare prep] reply_obs.observesD [OF observes_worker_answer ans]
    by simp
  moreover from prep obtain cfg0 w0 where "length fds = 3" "gpname = guard_pname cfg"
    by (rule worker_prepare_Ok)
  ultimately have "replies (trace w') = replies (trace w) @ [x] \<Longrightarrow> x \<noteq> refusal M s a" for x
    using reply_not_refusal by fastforce
  from worker_reply_registered [OF assms \<open>replies (trace w') = _\<close> this [OF \<open>replies (trace w') = _\<close>]]
  show ?thesis using that \<open>replies (trace w') = _\<close> by metis
qed


section \<open>A pid that is taken\<close>

lemma plain_refusal:
  assumes "run (seq (send_back M s a (- 1) 0 []) (pdie M) :: (server_error, unit) io) w = (q, w')"
  shows "plain (trace w') = plain (trace w)
    @ [Sendmsg s [i32_to_ne_bytes (big_endian M) (- 1), u128_to_ne_bytes (big_endian M) 0] [] a]"
proof -
  let ?msg = "Sendmsg s [i32_to_ne_bytes (big_endian M) (- 1), u128_to_ne_bytes (big_endian M) 0] [] a"
  have die: "run (pdie M :: (server_error, unit) io) v = (p, v') \<Longrightarrow> plain (trace v') = plain (trace v)" for v p v'
    by (rule plain_logging [OF emits_pdie])
  show ?thesis
  proof (cases "m_unit M (trace w) ?msg")
    case (Inr u)
    then have "run (pdie M :: (server_error, unit) io) (emit ?msg RUnit w) = (q, w')"
      using assms by (simp add: send_back_def pnk_def send_resq_def run_bnd run_handle seq_def)
    from die [OF this] show ?thesis by simp
  next
    case (Inl e)
    obtain p v where pd: "run (pdie M :: (server_error, unit) io) (emit ?msg (RErr e) w) = (p, v)"
      by (cases "run (pdie M :: (server_error, unit) io) (emit ?msg (RErr e) w)")
    have "p = Panic \<or> p = Diverge" using pdie_cases [of M "emit ?msg (RErr e) w"] pd by (metis fst_conv)
    then have "w' = v"
      using assms Inl pd by (auto simp: send_back_def pnk_def send_resq_def run_bnd run_handle seq_def)
    with die [OF pd] show ?thesis by simp
  qed
qed

lemma refused_registration:
  assumes "run (worker_prepare M req s a) w = (Ok (cfg, gpid, gpname, fds), w1)"
    and "\<not> poisoned hdr" and "resources hdr gpid = Some old"
    and "worker M req s a hdr w = (q, hdr', w')"
  shows "q \<noteq> Ok () \<and> hdr' = hdr\<lparr>resources := (resources hdr)(gpid \<mapsto> cfg)\<rparr>
    \<and> plain (trace w') = plain (trace w1)
        @ [Sendmsg s [i32_to_ne_bytes (big_endian M) (- 1), u128_to_ne_bytes (big_endian M) 0] [] a]"
proof -
  have reg: "registe_resource cfg hdr gpid = (Err Unknown, hdr\<lparr>resources := (resources hdr)(gpid \<mapsto> cfg)\<rparr>)"
    using assms(2,3) by (simp add: registe_resource_def)
  have ans: "run (worker_answer M s a gpid gpname fds (Err Unknown)) w1 = (q, w')"
    and tab: "hdr' = hdr\<lparr>resources := (resources hdr)(gpid \<mapsto> cfg)\<rparr>"
    using assms(1,4) reg by (auto simp: worker_def split: prod.splits)
  let ?die = "seq (send_back M s a (- 1) 0 []) (pdie M) :: (server_error, unit) io"
  obtain p v where d: "run ?die w1 = (p, v)" by (cases "run ?die w1")
  have no: "p \<noteq> Ok u" for u using d by (auto simp: seq_Ok_iff)
  have "run (check M s a (map_err SrvCore (from_outcome (Err Unknown)))) w1 = (p, v)"
    using d by (simp add: check_def run_handle map_err_def)
  then have "w' = v \<and> q = p" using ans no by (cases p) (auto simp: worker_answer_def run_bnd seq_def)
  with plain_refusal [OF d] tab no show ?thesis by auto
qed

end
