(* ===== verification/Rk_Pool.thy ===== *)
theory Rk_Pool
  imports Rk_Lifecycle Rk_Service "HOL-Library.Multiset"
begin

text \<open>
  The server as its threads run (\<open>rocker_server/src/main.rs\<close>): the thread that receives, the pool of
  four threads, the jobs waiting for one, and the mutex around the table. The pool is a library; what is
  used of it is documented behaviour: a job handed over waits until a thread is free, any thread may take it, and a
  thread whose job panics serves again. The releasing worker is the first job; it takes a stopped
  process from the kernel before it locks the table, and keeps the lock while it releases.
  Every step is one thread's move; what a thread does between two of them is a run of the
  code's own function, on a 64-bit target and any kernel. A run that starts a guard is placed at its \<open>clone\<close>.

  Two flags are assumptions on timing that the code does not enforce: with \<open>prompt\<close>, no guard is waited for before
  its worker has registered it or given it up; with \<open>fresh\<close>, the kernel gives a pid to no new guard
  while the releasing worker, having waited for its last owner, has not yet looked it up.
\<close>

section \<open>The state\<close>

definition POOL_SIZ :: nat where "POOL_SIZ = 4"

datatype job = ReleaseJob | Serve bytes addr

datatype activity =
    Idle
  | Serving bytes addr
  | Registering rocker_cfg i32 u128 "fd list" addr
  | Answering "(core_error, unit) outcome" rocker_cfg i32 u128 "fd list" addr
  | Waiting
  | Locking machine world i32
  | Releasing i32 rocker_cfg "(server_error, unit) outcome"

record pool =
  table :: resource_hdr
  lock_holder :: "nat option"
  threads :: "nat \<Rightarrow> activity"
  jobs :: "job multiset"
  guards :: "i32 \<Rightarrow> proc_status option"
  received :: "(bytes \<times> addr) multiset"
  outgoing :: "(fd \<times> bytes list \<times> fd list \<times> addr) list"
  entered :: "(i32 \<times> rocker_cfg) list"
  freed :: "(i32 \<times> rocker_cfg) list"

definition pool_init :: pool where
  "pool_init = \<lparr>table = empty_hdr, lock_holder = None, threads = \<lambda>_. Idle, jobs = {#ReleaseJob#},
     guards = \<lambda>_. None, received = {#}, outgoing = [], entered = [], freed = []\<rparr>"

fun begun :: "job \<Rightarrow> activity" where
  "begun ReleaseJob = Waiting"
| "begun (Serve d a) = Serving d a"

text \<open>The process a run has started, if it has: the answer of its \<open>clone\<close>.\<close>

fun cloned :: "event list \<Rightarrow> i32 option" where
  "cloned [] = None"
| "cloned (Ev (Clone fl) (RNum n) # t) = Some (word_of_int n)"
| "cloned (e # t) = cloned t"

text \<open>What the activities of the threads add up to.\<close>

definition over_threads :: "(activity \<Rightarrow> 'a::comm_monoid_add) \<Rightarrow> (nat \<Rightarrow> activity) \<Rightarrow> 'a" where
  "over_threads f th = (\<Sum>i<POOL_SIZ. f (th i))"

fun registering :: "activity \<Rightarrow> (i32 \<times> rocker_cfg) multiset" where
  "registering (Registering cfg gpid gpname fds a) = {#(gpid, cfg)#}"
| "registering x = {#}"

fun looked_for :: "activity \<Rightarrow> i32 multiset" where
  "looked_for (Locking M w pid) = {#pid#}"
| "looked_for x = {#}"

definition awaited :: "pool \<Rightarrow> i32 set" where
  "awaited s = set_mset (over_threads looked_for (threads s))"

definition unregistered :: "pool \<Rightarrow> i32 set" where
  "unregistered s = fst ` set_mset (over_threads registering (threads s))"

section \<open>Steps\<close>

abbreviation moves :: "nat \<Rightarrow> activity \<Rightarrow> pool \<Rightarrow> pool" where
  "moves i x s \<equiv> s\<lparr>threads := (threads s)(i := x)\<rparr>"

inductive pool_step :: "bool \<Rightarrow> bool \<Rightarrow> fd \<Rightarrow> pool \<Rightarrow> pool \<Rightarrow> bool"
  for prompt :: bool and fresh :: bool and serv_fd :: fd
where
  accepted: "pool_step prompt fresh serv_fd s (s\<lparr>jobs := add_mset (Serve (take SERVER_BUF d) a) (jobs s),
       received := add_mset (take SERVER_BUF d, a) (received s)\<rparr>)"
| taken: "\<lbrakk>i < POOL_SIZ; threads s i = Idle; job \<in># jobs s\<rbrakk> \<Longrightarrow>
     pool_step prompt fresh serv_fd s (moves i (begun job) s\<lparr>jobs := jobs s - {#job#}\<rparr>)"
| prepared: "\<lbrakk>i < POOL_SIZ; threads s i = Serving d a; usize_bits M = 64;
     run (worker_prepare M d serv_fd a) w = (Ok (cfg, gpid, gpname, fds), w');
     guards s gpid = None; fresh \<longrightarrow> gpid \<notin> awaited s\<rbrakk> \<Longrightarrow>
     pool_step prompt fresh serv_fd s (moves i (Registering cfg gpid gpname fds a) s\<lparr>guards := (guards s)(gpid \<mapsto> Running)\<rparr>)"
| failed: "\<lbrakk>i < POOL_SIZ; threads s i = Serving d a; usize_bits M = 64;
     run (worker_prepare M d serv_fd a) w = (Panic, w');
     replies (trace w') = replies (trace w) @ xs; cloned (drop (length (trace w)) (trace w')) = c;
     \<forall>pid. c = Some pid \<longrightarrow> guards s pid = None \<and> (fresh \<longrightarrow> pid \<notin> awaited s)\<rbrakk> \<Longrightarrow>
     pool_step prompt fresh serv_fd s (moves i Idle s\<lparr>outgoing := outgoing s @ xs,
       guards := (case c of None \<Rightarrow> guards s | Some pid \<Rightarrow> (guards s)(pid \<mapsto> Running))\<rparr>)"
| registers: "\<lbrakk>i < POOL_SIZ; threads s i = Registering cfg gpid gpname fds a; lock_holder s = None;
     registe_resource cfg (table s) gpid = (r, hdr')\<rbrakk> \<Longrightarrow>
     pool_step prompt fresh serv_fd s (moves i (if r = Panic then Idle else Answering r cfg gpid gpname fds a) s\<lparr>table := hdr',
       entered := (if r = Panic then entered s else (gpid, cfg) # entered s)\<rparr>)"
| answered: "\<lbrakk>i < POOL_SIZ; threads s i = Answering r cfg gpid gpname fds a;
     run (worker_answer M serv_fd a gpid gpname fds r) w = (q, w'); q \<noteq> Diverge;
     replies (trace w') = replies (trace w) @ xs\<rbrakk> \<Longrightarrow>
     pool_step prompt fresh serv_fd s (moves i Idle s\<lparr>outgoing := outgoing s @ xs\<rparr>)"
| stops: "guards s pid = Some Running \<Longrightarrow>
     pool_step prompt fresh serv_fd s (s\<lparr>guards := (guards s)(pid \<mapsto> Stopped)\<rparr>)"
| waited: "\<lbrakk>i < POOL_SIZ; threads s i = Waiting; m_wait M (trace w) WaitAny = Inr (Some pid);
     guards s pid = Some Stopped; prompt \<longrightarrow> pid \<notin> unregistered s\<rbrakk> \<Longrightarrow>
     pool_step prompt fresh serv_fd s (moves i (Locking M w pid) s\<lparr>guards := (guards s)(pid := None)\<rparr>)"
| wait_fails: "\<lbrakk>i < POOL_SIZ; threads s i = Waiting; m_wait M (trace w) WaitAny = Inl e;
     reap M (table s) w = (r, hdr', w'); r \<noteq> Diverge\<rbrakk> \<Longrightarrow>
     pool_step prompt fresh serv_fd s (moves i (if r = Ok () then Waiting else Idle) s)"
| looked_up: "\<lbrakk>i < POOL_SIZ; threads s i = Locking M w pid; lock_holder s = None;
     poisoned (table s) \<or> resources (table s) pid = None; reap M (table s) w = (r, hdr', w')\<rbrakk> \<Longrightarrow>
     pool_step prompt fresh serv_fd s (moves i (if r = Ok () then Waiting else Idle) s)"
| locked: "\<lbrakk>i < POOL_SIZ; threads s i = Locking M w pid; lock_holder s = None;
     \<not> poisoned (table s); resources (table s) pid = Some cfg; reap M (table s) w = (r, hdr', w')\<rbrakk> \<Longrightarrow>
     pool_step prompt fresh serv_fd s (moves i (Releasing pid cfg r) s\<lparr>lock_holder := Some i,
       table := hdr_remove (table s) pid, freed := (pid, cfg) # freed s\<rparr>)"
| unlocked: "\<lbrakk>i < POOL_SIZ; threads s i = Releasing pid cfg r; r \<noteq> Diverge\<rbrakk> \<Longrightarrow>
     pool_step prompt fresh serv_fd s (moves i (if r = Ok () then Waiting else Idle) s\<lparr>lock_holder := None,
       table := (table s)\<lparr>poisoned := (r = Panic)\<rparr>\<rparr>)"

inductive pool_reachable :: "bool \<Rightarrow> bool \<Rightarrow> fd \<Rightarrow> pool \<Rightarrow> bool"
  for prompt :: bool and fresh :: bool and serv_fd :: fd
where
  pool_start: "pool_reachable prompt fresh serv_fd pool_init"
| pool_further: "pool_reachable prompt fresh serv_fd s \<Longrightarrow> pool_step prompt fresh serv_fd s s' \<Longrightarrow>
     pool_reachable prompt fresh serv_fd s'"

inductive_cases pool_stepE: "pool_step prompt fresh serv_fd s s'"

lemma pool_invariant:
  assumes "pool_reachable prompt fresh serv_fd s" and "I pool_init"
    and "\<And>s s'. pool_reachable prompt fresh serv_fd s \<Longrightarrow> I s \<Longrightarrow> pool_step prompt fresh serv_fd s s' \<Longrightarrow> I s'"
  shows "I s"
  using assms(1) by induction (auto intro: assms(2,3))

lemma over_threads_split: "i < POOL_SIZ \<Longrightarrow>
    over_threads f th = f (th i) + (\<Sum>j\<in>{..<POOL_SIZ} - {i}. f (th j))"
  unfolding over_threads_def by (rule sum.remove) auto

text \<open>Moving one thread changes what the threads add up to by the difference of its activities.\<close>

lemma over_threads_update:
  fixes f :: "activity \<Rightarrow> 'a::comm_monoid_add"
  assumes "i < POOL_SIZ"
  shows "over_threads f (th(i := x)) + f (th i) = over_threads f th + f x"
proof -
  have rest: "(\<Sum>j\<in>{..<POOL_SIZ} - {i}. f ((th(i := x)) j)) = (\<Sum>j\<in>{..<POOL_SIZ} - {i}. f (th j))"
    by (intro sum.cong) auto
  show ?thesis
    unfolding over_threads_split [OF assms, of f "th(i := x)"] over_threads_split [OF assms, of f th] rest
    by (simp add: ac_simps)
qed

lemma over_threads_le:
  fixes f :: "activity \<Rightarrow> nat"
  assumes "i < POOL_SIZ" and "f x \<le> f (th i)"
  shows "over_threads f (th(i := x)) \<le> over_threads f th"
  using over_threads_update [OF assms(1), of f th x] assms(2) by linarith

lemma over_threads_two:
  fixes f :: "activity \<Rightarrow> nat"
  assumes "i < POOL_SIZ" and "j < POOL_SIZ" and "i \<noteq> j"
  shows "f (th i) + f (th j) \<le> over_threads f th"
proof -
  have "f (th j) \<le> (\<Sum>j\<in>{..<POOL_SIZ} - {i}. f (th j))"
    using assms by (intro member_le_sum) auto
  then show ?thesis using over_threads_split [OF assms(1), of f th] by simp
qed

section \<open>One releasing worker, one holder of the lock\<close>

fun reaping :: "activity \<Rightarrow> nat" where
  "reaping Waiting = 1"
| "reaping (Locking M w pid) = 1"
| "reaping (Releasing pid cfg r) = 1"
| "reaping x = 0"

fun releasing :: "activity \<Rightarrow> bool" where
  "releasing (Releasing pid cfg r) = True"
| "releasing x = False"

definition reapers :: "pool \<Rightarrow> nat" where
  "reapers s = over_threads reaping (threads s) + count (jobs s) ReleaseJob"

lemma releasing_iff: "releasing x \<longleftrightarrow> (\<exists>pid cfg r. x = Releasing pid cfg r)"
  by (cases x) auto

lemma reaping_le: "reaping x \<le> 1"
  by (cases x) auto

lemma reapers_step:
  assumes "pool_step prompt fresh serv_fd s s'"
  shows "reapers s' \<le> reapers s"
  using assms
proof cases
  case (taken i job)
  have "reaping (begun job) + count (jobs s - {#job#}) ReleaseJob = count (jobs s) ReleaseJob"
    using taken(4) by (cases job) (auto simp: Suc_leI)
  with taken over_threads_update [OF taken(2), of reaping "threads s" "begun job"] show ?thesis
    by (simp add: reapers_def)
qed (simp_all add: reapers_def over_threads_le)

definition locking_sound :: "pool \<Rightarrow> bool" where
  "locking_sound s \<longleftrightarrow>
     (\<forall>i. lock_holder s = Some i \<longleftrightarrow> i < POOL_SIZ \<and> releasing (threads s i))
     \<and> (\<forall>i M w pid. i < POOL_SIZ \<longrightarrow> threads s i = Locking M w pid \<longrightarrow> m_wait M (trace w) WaitAny = Inr (Some pid))
     \<and> (lock_holder s \<noteq> None \<longrightarrow> \<not> poisoned (table s))"

lemma locking_soundD:
  assumes "locking_sound s"
  shows "lock_holder s = Some i \<longleftrightarrow> i < POOL_SIZ \<and> releasing (threads s i)"
    and "i < POOL_SIZ \<Longrightarrow> threads s i = Locking M w pid \<Longrightarrow> m_wait M (trace w) WaitAny = Inr (Some pid)"
    and "lock_holder s = Some i \<Longrightarrow> \<not> poisoned (table s)"
  using assms unfolding locking_sound_def by blast+

lemma begun_simps [simp]: "\<not> releasing (begun job)" "begun job \<noteq> Locking M w pid" "Locking M w pid \<noteq> begun job"
  by (cases job; simp)+

lemma locking_step:
  assumes "locking_sound s" and "pool_step prompt fresh serv_fd s s'"
  shows "locking_sound s'"
  using assms(2)
proof cases
  case (taken i job)
  then have "\<not> releasing (threads s i)" by simp
  with taken assms(1) show ?thesis unfolding locking_sound_def by auto
next
  case (registers i cfg gpid gpname fds a r hdr')
  then have "r \<noteq> Panic \<or> \<not> releasing Idle" "\<not> releasing (threads s i)" by simp_all
  with registers assms(1) show ?thesis unfolding locking_sound_def by auto
next
  case (unlocked i pid cfg r)
  then have "lock_holder s = Some i" using locking_soundD(1) [OF assms(1), of i] by simp
  with unlocked assms(1) show ?thesis unfolding locking_sound_def by auto
next
  case (locked i M w pid cfg r hdr' w')
  then have "\<not> releasing (threads s j)" if "j < POOL_SIZ" for j
    using assms(1) that by (auto simp: locking_sound_def)
  with locked assms(1) show ?thesis unfolding locking_sound_def by (auto simp: hdr_remove_def)
next
  case (stops pid)
  with assms(1) show ?thesis unfolding locking_sound_def by simp
next
  case (accepted d a)
  with assms(1) show ?thesis unfolding locking_sound_def by simp
qed (use assms(1) in \<open>auto simp: locking_sound_def\<close>)

lemma pool_reachable_sound:
  assumes "pool_reachable prompt fresh serv_fd s"
  shows "reapers s \<le> 1" and "locking_sound s"
proof -
  show "reapers s \<le> 1"
    using assms
  proof (rule pool_invariant)
    show "reapers pool_init \<le> 1" by (simp add: reapers_def pool_init_def over_threads_def)
  qed (use reapers_step order_trans in blast)
  show "locking_sound s"
    using assms
  proof (rule pool_invariant)
    show "locking_sound pool_init" by (simp add: locking_sound_def pool_init_def empty_hdr_def)
  qed (rule locking_step)
qed

text \<open>A thread that serves a request, at whatever point.\<close>

fun serving :: "activity \<Rightarrow> nat" where
  "serving (Serving d a) = 1"
| "serving (Registering cfg gpid gpname fds a) = 1"
| "serving (Answering r cfg gpid gpname fds a) = 1"
| "serving x = 0"

lemma serving_reaping_le: "over_threads serving th + over_threads reaping th \<le> 4"
proof -
  have "serving x + reaping x \<le> 1" for x by (cases x) auto
  then have "(\<Sum>i<POOL_SIZ. serving (th i) + reaping (th i)) \<le> (\<Sum>i<POOL_SIZ. 1)"
    by (intro sum_mono)
  then show ?thesis by (simp add: over_threads_def sum.distrib POOL_SIZ_def)
qed

text \<open>
  C24: One holder of the lock. In every state the threads of the server can reach, a thread holds the
  table's mutex beyond one step exactly while it releases a stopped guard, so no two releases ever overlap; and while the
  releasing worker, of which there is at most one, occupies a thread, at most three requests are in service.
\<close>

theorem pool_exclusive:
  assumes "pool_reachable prompt fresh serv_fd s"
  shows "(lock_holder s = Some i \<longleftrightarrow> i < POOL_SIZ \<and> (\<exists>pid cfg r. threads s i = Releasing pid cfg r))
    \<and> over_threads reaping (threads s) \<le> 1
    \<and> over_threads serving (threads s) \<le> (if over_threads reaping (threads s) = 1 then 3 else 4)"
  using pool_reachable_sound(1) [OF assms] serving_reaping_le [of "threads s"]
    locking_soundD(1) [OF pool_reachable_sound(2) [OF assms]]
  by (auto simp: reapers_def releasing_iff)


section \<open>What the threads carry\<close>

text \<open>
  The type of a registered configuration, which the record does not show: it belongs to its guard, has a stack and a
  sane loop device, positive ids, and paths that are C strings of valid UTF-8 which fit into one datagram behind its 22 integers.
\<close>

definition cfg_paths :: "rocker_cfg \<Rightarrow> path list" where
  "cfg_paths c = [app_pkg_path c, app_exec_dir c, app_data_dir c] @ app_overlay_dirs c"

definition asked_cfg :: "rocker_cfg \<Rightarrow> bool" where
  "asked_cfg c \<longleftrightarrow> 0 < sint (app_id c) \<and> 0 < sint (uid c) \<and> (\<exists>g. gid c = Some g \<and> 0 < sint g)
     \<and> (\<forall>q \<in> set (cfg_paths c). CHR 0x00 \<notin> set q \<and> utf8_valid (bytes_of q))
     \<and> length (app_overlay_dirs c) \<le> 16 \<and> (\<Sum>q\<leftarrow>cfg_paths c. length q + 1) \<le> 424"

definition guarded_cfg :: "i32 \<Rightarrow> rocker_cfg \<Rightarrow> bool" where
  "guarded_cfg pid c \<longleftrightarrow> asked_cfg c \<and> guard_pid c = Some pid \<and> guard_stack c = Some STACK_SIZ
     \<and> (\<forall>l. guard_loop_id c = Some l \<longrightarrow> 0 \<le> sint l)"

lemma length_path_images: "length (concat (map path_image qs)) = (\<Sum>q\<leftarrow>qs. length q + 1)"
  by (simp add: length_concat comp_def)

lemma parsed_asked:
  assumes "usize_bits M = 64" and "length req \<le> 512" and run: "run (req_parse M req) w = (Ok cfg, w')"
  shows "asked_cfg cfg" and "guard_loop_id cfg = None"
proof -
  have "length req < 2 ^ 64" using assms(2) by simp
  from req_sound [OF assms(1) this run] obtain g junk where
    ids: "gid cfg = Some g" "0 < sint (app_id cfg)" "0 < sint (uid cfg)" "0 < sint g"
    and paths: "drop 88 req = concat (map path_image (cfg_paths cfg)) @ junk"
    and utf: "\<forall>s \<in> set (cfg_paths cfg). CHR 0x00 \<notin> set s \<and> utf8_valid (bytes_of s)"
    and ovl: "length (app_overlay_dirs cfg) \<le> 16" and loop: "guard_loop_id cfg = None"
    unfolding cfg_paths_def by (auto simp del: concat.simps)
  have "length (concat (map path_image (cfg_paths cfg))) + length junk = length req - 88"
    using arg_cong [OF paths, of length] by (simp del: concat.simps)
  with assms(2) have "(\<Sum>q\<leftarrow>cfg_paths cfg. length q + 1) \<le> 424"
    unfolding length_path_images by linarith
  with ids utf ovl show "asked_cfg cfg" by (simp add: asked_cfg_def)
  show "guard_loop_id cfg = None" by (rule loop)
qed

lemma prepared_guarded:
  assumes "usize_bits M = 64" and "length d \<le> 512"
    and "run (worker_prepare M d serv_fd a) w = (Ok (cfg, gpid, gpname, fds), w')"
  shows "guarded_cfg gpid cfg" and "gpname = guard_pname cfg" and "length fds = 3"
proof -
  from worker_prepare_parts [OF assms(3)] obtain cfg0 w1 w2 where p: "run (req_parse M d) w = (Ok cfg0, w1)"
    and i: "run (init M cfg0) w1 = (Ok cfg, w2)" and g: "guard_pid cfg = Some gpid" and name: "gpname = guard_pname cfg"
    and n: "run (get_namespace_fds M cfg) w2 = (Ok fds, w')" .
  note asked = parsed_asked [OF assms(1,2) p]
  obtain pid l where cfg: "cfg = cfg0\<lparr>guard_stack := Some STACK_SIZ, guard_pid := Some pid, guard_loop_id := l\<rparr>"
    and l: "l = guard_loop_id cfg0 \<or> (\<exists>i. l = Some i \<and> 0 \<le> sint i)"
    by (rule init_shape [OF i])
  have "asked_cfg cfg" using asked(1) by (simp add: cfg asked_cfg_def cfg_paths_def)
  with asked(2) cfg l g show "guarded_cfg gpid cfg" by (auto simp: guarded_cfg_def)
  show "gpname = guard_pname cfg" by (rule name)
  show "length fds = 3" by (rule namespace_fds_three [OF g n])
qed

lemma prepare_replies:
  assumes "run (worker_prepare M d s a) w = (Panic, w')" and "replies (trace w') = replies (trace w) @ xs"
  shows "xs = [] \<or> xs = [refusal M s a]"
  using reply_obs.observesD [OF observes_worker_prepare assms(1)] assms(2) by auto

lemma answer_replies:
  assumes "run (worker_answer M s a gpid gpname fds r) w = (q, w')" and "replies (trace w') = replies (trace w) @ xs"
  shows "xs = [] \<or> xs = [refusal M s a] \<or> xs = [reply M s a gpid gpname fds] \<and> r = Ok ()"
proof (cases "r = Ok ()")
  case True
  with reply_obs.observesD [OF observes_worker_answer assms(1)] assms(2) show ?thesis by (cases q) auto
next
  case False
  from reply_obs.observesD [OF observes_answer_refused [OF this] assms(1)] assms(2) show ?thesis by (cases q) auto
qed

definition prepared_ok :: "rocker_cfg \<Rightarrow> i32 \<Rightarrow> u128 \<Rightarrow> fd list \<Rightarrow> bool" where
  "prepared_ok cfg gpid gpname fds \<longleftrightarrow> guarded_cfg gpid cfg \<and> gpname = guard_pname cfg \<and> length fds = 3"

fun carries :: "(i32 \<times> rocker_cfg) set \<Rightarrow> activity \<Rightarrow> bool" where
  "carries E (Serving d a) = (length d \<le> 512)"
| "carries E (Registering cfg gpid gpname fds a) = prepared_ok cfg gpid gpname fds"
| "carries E (Answering r cfg gpid gpname fds a) = (prepared_ok cfg gpid gpname fds \<and> (r = Ok () \<longrightarrow> (gpid, cfg) \<in> E))"
| "carries E x = True"

lemma carries_mono: "carries E x \<Longrightarrow> E \<subseteq> E' \<Longrightarrow> carries E' x"
  by (cases x) auto

text \<open>A reply is a refusal, or tells a client of a guard that is in \<open>E\<close>.\<close>

definition honest :: "(i32 \<times> rocker_cfg) set \<Rightarrow> fd \<times> bytes list \<times> fd list \<times> addr \<Rightarrow> bool" where
  "honest E x \<longleftrightarrow> (\<exists>M s a. x = refusal M s a)
     \<or> (\<exists>M s a cfg gpid fds. x = reply M s a gpid (guard_pname cfg) fds \<and> length fds = 3 \<and> (gpid, cfg) \<in> E)"

lemma honest_refusal [simp]: "honest E (refusal M s a)"
  unfolding honest_def by blast

lemma honest_reply: "length fds = 3 \<Longrightarrow> (gpid, cfg) \<in> E \<Longrightarrow> honest E (reply M s a gpid (guard_pname cfg) fds)"
  unfolding honest_def by blast

lemma honest_mono: "honest E x \<Longrightarrow> E \<subseteq> E' \<Longrightarrow> honest E' x"
  unfolding honest_def by blast

definition contents_sound :: "pool \<Rightarrow> bool" where
  "contents_sound s \<longleftrightarrow>
     (\<forall>d a. Serve d a \<in># jobs s \<longrightarrow> length d \<le> 512)
     \<and> (\<forall>i. carries (set (entered s)) (threads s i))
     \<and> (\<forall>pid c. resources (table s) pid = Some c \<longrightarrow> guarded_cfg pid c)
     \<and> (\<forall>(pid, c) \<in> set (entered s) \<union> set (freed s). guarded_cfg pid c)
     \<and> (\<forall>x \<in> set (outgoing s). honest (set (entered s)) x)"

lemma contents_soundD:
  assumes "contents_sound s"
  shows "Serve d a \<in># jobs s \<Longrightarrow> length d \<le> 512"
    and "carries (set (entered s)) (threads s i)"
    and "resources (table s) pid = Some c \<Longrightarrow> guarded_cfg pid c"
    and "x \<in> set (outgoing s) \<Longrightarrow> honest (set (entered s)) x"
  using assms unfolding contents_sound_def by blast+

lemma contents_step:
  assumes "contents_sound s" and "pool_step prompt fresh serv_fd s s'"
  shows "contents_sound s'"
  using assms(2)
proof cases
  case (accepted d a)
  with assms(1) show ?thesis by (auto simp: contents_sound_def SERVER_BUF_def)
next
  case (taken i job)
  then have "carries (set (entered s)) (begun job)"
    using contents_soundD(1) [OF assms(1)] by (cases job) auto
  with taken assms(1) show ?thesis by (auto simp: contents_sound_def dest!: in_diffD)
next
  case (prepared i d a M w cfg gpid gpname fds w')
  then have "length d \<le> 512" using contents_soundD(2) [OF assms(1), of i] by simp
  from prepared_guarded [OF prepared(4) this prepared(5)] prepared assms(1) show ?thesis
    by (auto simp: contents_sound_def prepared_ok_def)
next
  case (failed i d a M w w' xs c)
  from prepare_replies [OF failed(5,6)] have "\<forall>x \<in> set xs. honest (set (entered s)) x"
    by auto
  with failed assms(1) show ?thesis by (auto simp: contents_sound_def)
next
  case (registers i cfg gpid gpname fds a r hdr')
  let ?E = "set (entered s)" and ?E' = "insert (gpid, cfg) (set (entered s))"
  from registers(3) have ok: "prepared_ok cfg gpid gpname fds" using contents_soundD(2) [OF assms(1), of i] by simp
  then have "guarded_cfg gpid cfg" by (simp add: prepared_ok_def)
  moreover have "\<forall>j. carries ?E' (threads s j)" "\<forall>x \<in> set (outgoing s). honest ?E' x"
    using contents_soundD(2,4) [OF assms(1)] carries_mono [of ?E _ ?E'] honest_mono [of ?E _ ?E'] by blast+
  ultimately show ?thesis
    using registers assms(1) ok register_table [OF registers(5)]
    by (simp add: contents_sound_def split: if_splits)
next
  case (answered i r cfg gpid gpname fds a M w q w' xs)
  have c: "prepared_ok cfg gpid gpname fds" "r = Ok () \<Longrightarrow> (gpid, cfg) \<in> set (entered s)"
    using answered(3) contents_soundD(2) [OF assms(1), of i] by simp_all
  have "\<forall>x \<in> set xs. honest (set (entered s)) x"
    using answer_replies [OF answered(4,6)] c honest_reply [of fds gpid cfg] by (auto simp: prepared_ok_def)
  with answered assms(1) show ?thesis by (auto simp: contents_sound_def)
next
  case (locked i M w pid cfg r hdr' w')
  with contents_soundD(3) [OF assms(1) locked(6)] assms(1) show ?thesis
    by (auto simp: contents_sound_def hdr_remove_def)
qed (use assms(1) in \<open>auto simp: contents_sound_def\<close>)

lemma pool_reachable_contents: "pool_reachable prompt fresh serv_fd s \<Longrightarrow> contents_sound s"
proof (erule pool_invariant)
  show "contents_sound pool_init" by (simp add: contents_sound_def pool_init_def empty_hdr_def)
qed (rule contents_step)

text \<open>
  C12: What the table holds. In every state the threads of the server can reach, in any interleaving and whatever
  datagrams clients send, each configuration in the table is under the pid of its own guard, has a
  stack of the fixed size, a loop device that is absent or not negative, positive application, user and group
  ids, and three paths and at most 16 overlay directories without NUL and of valid UTF-8, which with their
  terminators take at most 424 bytes.
\<close>

theorem table_typed:
  assumes "pool_reachable prompt fresh serv_fd s" and "resources (table s) pid = Some c"
  shows "guard_pid c = Some pid \<and> guard_stack c = Some STACK_SIZ
    \<and> (case guard_loop_id c of None \<Rightarrow> True | Some l \<Rightarrow> 0 \<le> sint l)
    \<and> 0 < sint (app_id c) \<and> 0 < sint (uid c) \<and> (\<exists>g. gid c = Some g \<and> 0 < sint g)
    \<and> (\<forall>q \<in> set ([app_pkg_path c, app_exec_dir c, app_data_dir c] @ app_overlay_dirs c).
         CHR 0x00 \<notin> set q \<and> utf8_valid (bytes_of q))
    \<and> length (app_overlay_dirs c) \<le> 16
    \<and> (\<Sum>q\<leftarrow>[app_pkg_path c, app_exec_dir c, app_data_dir c] @ app_overlay_dirs c. length q + 1) \<le> 424"
  using contents_soundD(3) [OF pool_reachable_contents [OF assms(1)] assms(2)]
  unfolding guarded_cfg_def asked_cfg_def cfg_paths_def by (auto split: option.split)

section \<open>Replies\<close>

definition destination :: "fd \<times> bytes list \<times> fd list \<times> addr \<Rightarrow> addr" where
  "destination x = (case x of (f, parts, fds, a) \<Rightarrow> a)"

fun owes :: "activity \<Rightarrow> addr multiset" where
  "owes (Serving d a) = {#a#}"
| "owes (Registering cfg gpid gpname fds a) = {#a#}"
| "owes (Answering r cfg gpid gpname fds a) = {#a#}"
| "owes x = {#}"

fun asks :: "job \<Rightarrow> addr multiset" where
  "asks ReleaseJob = {#}"
| "asks (Serve d a) = {#a#}"

text \<open>Who has had a reply, is being served or waits for a thread.\<close>

definition answerable :: "pool \<Rightarrow> addr multiset" where
  "answerable s = mset (map destination (outgoing s)) + over_threads owes (threads s) + (\<Sum>j\<in>#jobs s. asks j)"

lemma destination_simps [simp]: "destination (refusal M s a) = a" "destination (reply M s a gpid gpname fds) = a"
  by (simp_all add: destination_def refusal_def reply_def)

lemma over_threads_sub:
  fixes f :: "activity \<Rightarrow> 'b multiset"
  assumes "i < POOL_SIZ" and "f (th i) = f x + D"
  shows "over_threads f th = over_threads f (th(i := x)) + D"
proof -
  have "over_threads f th + f x = (over_threads f (th(i := x)) + D) + f x"
    using over_threads_update [OF assms(1), of f th x] assms(2) by (simp only: ac_simps)
  then show ?thesis by (simp only: add_right_cancel)
qed

lemma over_threads_still:
  fixes f :: "activity \<Rightarrow> 'a::cancel_comm_monoid_add"
  assumes "i < POOL_SIZ" and "f x = f (th i)"
  shows "over_threads f (th(i := x)) = over_threads f th"
  using over_threads_update [OF assms(1), of f th x] assms(2) by simp

lemma answerable_step:
  assumes "answerable s \<subseteq># image_mset snd (received s)" and "pool_step prompt fresh serv_fd s s'"
  shows "answerable s' \<subseteq># image_mset snd (received s')"
proof -
  have within: "answerable s' \<subseteq># image_mset snd (received s')"
    if "i < POOL_SIZ" "threads s' = (threads s)(i := x)" "jobs s' = jobs s" "received s' = received s"
      "outgoing s' = outgoing s @ xs" "mset (map destination xs) + owes x \<subseteq># owes (threads s i)" for i x xs
  proof -
    from that(6) obtain D where D: "owes (threads s i) = (mset (map destination xs) + owes x) + D"
      by (metis subset_mset.add_diff_inverse)
    then have "over_threads owes (threads s)
        = over_threads owes (threads s') + (mset (map destination xs) + D)"
      using over_threads_sub [OF that(1), of owes "threads s" x] that(2) by (simp add: ac_simps)
    then have "answerable s = answerable s' + D"
      using that(3-5) by (simp add: answerable_def ac_simps)
    with assms(1) that(4) show ?thesis by (metis mset_subset_eq_add_left subset_mset.order_trans)
  qed
  show ?thesis
    using assms(2)
  proof cases
    case (accepted d a)
    with assms(1) show ?thesis by (simp add: answerable_def union_assoc)
  next
    case (taken i job)
    have "over_threads owes ((threads s)(i := begun job)) = over_threads owes (threads s) + asks job"
      using over_threads_update [OF taken(2), of owes "threads s" "begun job"] taken(3) by (cases job) simp_all
    moreover obtain js where "jobs s = add_mset job js" using taken(4) by (metis mset_add)
    ultimately have "answerable s' = answerable s" using taken(1) by (simp add: answerable_def ac_simps)
    with taken(1) assms(1) show ?thesis by simp
  next
    case (failed i d a M w w' xs c)
    have "mset (map destination xs) \<subseteq># {#a#}" using prepare_replies [OF failed(5,6)] by auto
    with failed show ?thesis by (intro within [of i Idle xs]) simp_all
  next
    case (answered i r cfg gpid gpname fds a M w q w' xs)
    have "mset (map destination xs) \<subseteq># {#a#}" using answer_replies [OF answered(4,6)] by auto
    with answered show ?thesis by (intro within [of i Idle xs]) simp_all
  next
    case (stops pid)
    with assms(1) show ?thesis by (simp add: answerable_def)
  next
    case (prepared i d a M w cfg gpid gpname fds w')
    then show ?thesis by (intro within [of i "Registering cfg gpid gpname fds a" "[]"]) simp_all
  next
    case (registers i cfg gpid gpname fds a r hdr')
    then show ?thesis
      by (intro within [of i "if r = Panic then Idle else Answering r cfg gpid gpname fds a" "[]"]) simp_all
  next
    case (waited i M w pid)
    then show ?thesis by (intro within [of i "Locking M w pid" "[]"]) simp_all
  next
    case (wait_fails i M w e r hdr' w')
    then show ?thesis by (intro within [of i "if r = Ok () then Waiting else Idle" "[]"]) simp_all
  next
    case (looked_up i M w pid r hdr' w')
    then show ?thesis by (intro within [of i "if r = Ok () then Waiting else Idle" "[]"]) simp_all
  next
    case (locked i M w pid cfg r hdr' w')
    then show ?thesis by (intro within [of i "Releasing pid cfg r" "[]"]) simp_all
  next
    case (unlocked i pid cfg r)
    then show ?thesis by (intro within [of i "if r = Ok () then Waiting else Idle" "[]"]) simp_all
  qed
qed

text \<open>
  C23: Replies are accounted for. In every state the threads can reach, the addresses that have had a
  reply, together with those of the requests that wait for a thread or are in service, are, with their multiplicity, among
  the senders of the datagrams received: no datagram is answered twice, and nobody is answered unasked.
  Each reply either refuses, or carries three descriptors and names a guard that was entered in the table under its pid before.
\<close>

theorem replies_accounted:
  assumes "pool_reachable prompt fresh serv_fd s"
  shows "mset (map destination (outgoing s)) + over_threads owes (threads s) + (\<Sum>j\<in>#jobs s. asks j)
      \<subseteq># image_mset snd (received s)
    \<and> (\<forall>x \<in> set (outgoing s). (\<exists>M s a. x = refusal M s a)
        \<or> (\<exists>M s' a cfg gpid fds. x = reply M s' a gpid (guard_pname cfg) fds \<and> length fds = 3
             \<and> guard_pid cfg = Some gpid \<and> (gpid, cfg) \<in> set (entered s)))"
proof
  show "mset (map destination (outgoing s)) + over_threads owes (threads s) + (\<Sum>j\<in>#jobs s. asks j)
      \<subseteq># image_mset snd (received s)"
    using assms unfolding answerable_def [symmetric]
  proof (rule pool_invariant)
    show "answerable pool_init \<subseteq># image_mset snd (received pool_init)"
      by (simp add: answerable_def pool_init_def over_threads_def)
  qed (rule answerable_step)
  have sound: "contents_sound s" by (rule pool_reachable_contents [OF assms])
  then have "guard_pid cfg = Some gpid" if "(gpid, cfg) \<in> set (entered s)" for gpid cfg
    using that by (auto simp: contents_sound_def guarded_cfg_def)
  then show "\<forall>x \<in> set (outgoing s). (\<exists>M s a. x = refusal M s a)
        \<or> (\<exists>M s' a cfg gpid fds. x = reply M s' a gpid (guard_pname cfg) fds \<and> length fds = 3
             \<and> guard_pid cfg = Some gpid \<and> (gpid, cfg) \<in> set (entered s))"
    using contents_soundD(4) [OF sound] unfolding honest_def by meson
qed

section \<open>Runs\<close>

text \<open>A pool that has registered a guard for the sample request.\<close>

definition served :: "rocker_cfg \<Rightarrow> fd list \<Rightarrow> pool" where
  "served cfg fds = \<lparr>table = \<lparr>poisoned = False, resources = [4242 \<mapsto> cfg]\<rparr>, lock_holder = None,
     threads = (\<lambda>_. Idle)(0 := Waiting, 1 := Answering (Ok ()) cfg 4242 (guard_pname cfg) fds [1]), jobs = {#},
     guards = [4242 \<mapsto> Running], received = {#(sample_req, [1])#}, outgoing = [], entered = [(4242, cfg)], freed = []\<rparr>"

lemma pool_sum: "over_threads f th = f (th 0) + f (th 1) + f (th 2) + (f (th 3) :: 'a::comm_monoid_add)"
  by (simp add: over_threads_def POOL_SIZ_def eval_nat_numeral ac_simps)

lemma sample_req_short: "length sample_req \<le> 512"
  by (simp add: sample_req_def req_wire_def length_concat sum_list_replicate)

lemma served_reachable:
  assumes "run (worker_prepare live sample_req 9 [1]) start = (Ok (cfg, 4242, guard_pname cfg, fds), w')"
  shows "pool_reachable prompt fresh 9 (served cfg fds)"
proof -
  note go = pool_further [where prompt = prompt and fresh = fresh and serv_fd = 9]
  define s1 where "s1 = moves 0 Waiting pool_init\<lparr>jobs := {#}\<rparr>"
  define s2 where "s2 = s1\<lparr>jobs := {#Serve sample_req [1]#}, received := {#(sample_req, [1])#}\<rparr>"
  define s3 where "s3 = moves 1 (Serving sample_req [1]) s2\<lparr>jobs := {#}\<rparr>"
  define s4 where "s4 = moves 1 (Registering cfg 4242 (guard_pname cfg) fds [1]) s3\<lparr>guards := [4242 \<mapsto> Running]\<rparr>"
  note defs = s1_def s2_def s3_def s4_def pool_init_def
  have len: "take SERVER_BUF sample_req = sample_req"
    using sample_req_short by (simp add: SERVER_BUF_def)
  have "pool_step prompt fresh 9 pool_init s1"
    using pool_step.taken [of 0 pool_init ReleaseJob prompt fresh 9] by (simp add: defs POOL_SIZ_def)
  from go [OF pool_start this] have r1: "pool_reachable prompt fresh 9 s1" .
  have "pool_step prompt fresh 9 s1 s2"
    using pool_step.accepted [of prompt fresh 9 s1 sample_req "[1]"] len by (simp add: defs)
  from go [OF r1 this] have r2: "pool_reachable prompt fresh 9 s2" .
  have "pool_step prompt fresh 9 s2 s3"
    using pool_step.taken [of 1 s2 "Serve sample_req [1]" prompt fresh 9] by (simp add: defs POOL_SIZ_def)
  from go [OF r2 this] have r3: "pool_reachable prompt fresh 9 s3" .
  have "pool_step prompt fresh 9 s3 s4"
    using pool_step.prepared [of 1 s3 sample_req "[1]" live 9 start cfg 4242 "guard_pname cfg" fds w' fresh prompt] assms
    by (simp add: defs POOL_SIZ_def awaited_def pool_sum)
  from go [OF r3 this] have r4: "pool_reachable prompt fresh 9 s4" .
  have "pool_step prompt fresh 9 s4 (served cfg fds)"
    using pool_step.registers [of 1 s4 cfg 4242 "guard_pname cfg" fds "[1]" "Ok ()" _ prompt fresh 9]
    by (simp add: defs POOL_SIZ_def served_def registe_resource_def empty_hdr_def)
  from go [OF r4 this] show ?thesis .
qed


text \<open>From there, its guard stops, the releasing worker takes it from the kernel, looks it up and releases it.\<close>

definition in_lookup :: "rocker_cfg \<Rightarrow> fd list \<Rightarrow> pool" where
  "in_lookup cfg fds = moves 0 (Locking (wait_for 4242) start 4242) (served cfg fds)\<lparr>guards := Map.empty\<rparr>"

definition in_release :: "rocker_cfg \<Rightarrow> pool \<Rightarrow> pool" where
  "in_release cfg s = moves 0 (Releasing 4242 cfg (Ok ())) s\<lparr>lock_holder := Some 0, table := empty_hdr, freed := [(4242, cfg)]\<rparr>"

lemma in_lookup_reachable:
  assumes "pool_reachable prompt fresh 9 (served cfg fds)"
  shows "pool_reachable prompt fresh 9 (in_lookup cfg fds)"
proof -
  define s1 where "s1 = (served cfg fds)\<lparr>guards := [4242 \<mapsto> Stopped]\<rparr>"
  have "pool_step prompt fresh 9 (served cfg fds) s1"
    using pool_step.stops [of "served cfg fds" 4242 prompt fresh 9] by (simp add: s1_def served_def)
  moreover have "pool_step prompt fresh 9 s1 (in_lookup cfg fds)"
    using pool_step.waited [of 0 s1 "wait_for 4242" start 4242 prompt fresh 9]
    by (simp add: s1_def served_def in_lookup_def POOL_SIZ_def wait_for_def unregistered_def pool_sum)
  ultimately show ?thesis using assms pool_further by metis
qed

lemma locks_4242:
  assumes "threads s 0 = Locking (wait_for 4242) start 4242" and "lock_holder s = None" and "freed s = []"
    and "table s = \<lparr>poisoned = False, resources = [4242 \<mapsto> cfg]\<rparr>"
  shows "pool_step prompt fresh 9 s (in_release cfg s)"
proof -
  obtain w' where "run (release_resource (wait_for 4242) cfg :: (server_error, unit) io) (emit WaitAny (RWait (Some 4242)) start) = (Ok (), w')"
    using release_on_sample by blast
  then have "reap (wait_for 4242) (table s) start = (Ok (), empty_hdr, w')"
    using assms(4) by (simp add: reap_def Let_def wait_for_def hdr_remove_def empty_hdr_def)
  from pool_step.locked [OF _ assms(1,2) _ _ this, of cfg] show ?thesis
    using assms by (simp add: in_release_def POOL_SIZ_def hdr_remove_def empty_hdr_def)
qed

lemma live_served: "\<exists>cfg fds. \<forall>prompt fresh. pool_reachable prompt fresh 9 (served cfg fds)"
  using live_prepare served_reachable by blast

theorem pool_exclusive_witness:
  "\<exists>cfg fds. lock_holder (in_release cfg (in_lookup cfg fds)) = Some 0
     \<and> over_threads serving (threads (in_release cfg (in_lookup cfg fds))) = 1"
proof -
  obtain cfg fds where "pool_reachable True True 9 (served cfg fds)" using live_served by blast
  then have "pool_reachable True True 9 (in_lookup cfg fds)" by (rule in_lookup_reachable)
  moreover have "pool_step True True 9 (in_lookup cfg fds) (in_release cfg (in_lookup cfg fds))"
    by (rule locks_4242) (simp_all add: in_lookup_def served_def)
  ultimately have r: "pool_reachable True True 9 (in_release cfg (in_lookup cfg fds))" by (rule pool_further)
  have "lock_holder (in_release cfg (in_lookup cfg fds)) = Some 0"
    using pool_exclusive [OF r, of 0] by (simp add: in_release_def POOL_SIZ_def)
  then show ?thesis by (intro exI [of _ cfg] exI [of _ fds])
    (simp add: in_release_def in_lookup_def served_def pool_sum)
qed


theorem table_typed_witness:
  "\<exists>s c. pool_reachable True True 9 s \<and> resources (table s) 4242 = Some c \<and> guard_stack c = Some STACK_SIZ"
proof -
  obtain cfg fds where r: "pool_reachable True True 9 (served cfg fds)" using live_served by blast
  from table_typed [OF r, of 4242 cfg] r show ?thesis by (auto simp: served_def intro!: exI)
qed

theorem replies_accounted_witness:
  "\<exists>s. pool_reachable True True 9 s \<and> over_threads owes (threads s) = {#[1]#} \<and> received s = {#(sample_req, [1])#}"
proof -
  obtain cfg fds where r: "pool_reachable True True 9 (served cfg fds)" using live_served by blast
  from replies_accounted [OF r] r show ?thesis
    by (intro exI [of _ "served cfg fds"]) (simp add: served_def pool_sum)
qed

end
