(* ===== verification/Rk_Simulation.thy ===== *)
theory Rk_Simulation
  imports Main
begin

text \<open>
  The contract between a detailed system and the abstract one it implements: a relation between their states,
  kept by every detailed step with at most one abstract step. What is proved of every abstract state then holds of
  what it says of the detailed one. The pool of the server and the rockers with their namespaces are instances.
\<close>

locale simulation =
  fixes cstart :: 'c and cstep :: "'c \<Rightarrow> 'c \<Rightarrow> bool"
    and astart :: 'a and astep :: "'a \<Rightarrow> 'a \<Rightarrow> bool"
    and sound :: "'c \<Rightarrow> bool" and rel :: "'c \<Rightarrow> 'a \<Rightarrow> bool"
  assumes sound_start: "sound cstart"
    and sound_step: "sound s \<Longrightarrow> cstep s s' \<Longrightarrow> sound s'"
    and rel_start: "rel cstart astart"
    and rel_step: "\<lbrakk>sound s; rel s t; cstep s s'\<rbrakk> \<Longrightarrow> \<exists>t'. (t' = t \<or> astep t t') \<and> rel s' t'"
begin

lemma sound_reached: "rtranclp cstep cstart s \<Longrightarrow> sound s"
  by (induction rule: rtranclp_induct) (auto intro: sound_start sound_step)

lemma follows:
  assumes "sound s" and "rel s t" and "rtranclp cstep s s'"
  shows "\<exists>t'. rtranclp astep t t' \<and> rel s' t' \<and> sound s'"
  using assms(3)
proof (induction rule: rtranclp_induct)
  case base
  with assms(1,2) show ?case by blast
next
  case (step u v)
  then obtain t' where t': "rtranclp astep t t'" "rel u t'" "sound u" by blast
  from rel_step [OF t'(3,2) step.hyps(2)] obtain t'' where "t'' = t' \<or> astep t' t''" "rel v t''" by blast
  with t' sound_step [OF t'(3) step.hyps(2)] show ?case by (metis rtranclp.rtrancl_into_rtrancl)
qed

lemma simulated: "rtranclp cstep cstart s \<Longrightarrow> \<exists>t. rtranclp astep astart t \<and> rel s t"
  using follows [OF sound_start rel_start] by blast

lemma invariant_carried:
  assumes "rtranclp cstep cstart s" and "\<And>t. rtranclp astep astart t \<Longrightarrow> I t"
  shows "\<exists>t. rel s t \<and> I t"
  using simulated [OF assms(1)] assms(2) by blast

end

end
