(* ===== verification/Rk_Refine.thy ===== *)
theory Rk_Refine
  imports Rk_Pool Rk_Simulation
begin

text \<open>
  The threads of the pool implement the atomic system of the lifecycle: the simulation, what follows from
  it for granted requests, and a run that shows that it needs its assumption on the kernel.
\<close>

section \<open>The threads implement the atomic steps\<close>

text \<open>
  The abstract system is the one of the lifecycle, in which waiting for a guard, looking it up, removing and
  releasing it are one step. A guard the releasing worker has waited for but not looked up is still
  stopped there, and a release that is going to panic has already poisoned the table: nobody can see the difference.
\<close>

fun dying :: "activity \<Rightarrow> nat" where
  "dying (Releasing pid cfg r) = (if r = Panic then 1 else 0)"
| "dying x = 0"

fun surviving :: "activity \<Rightarrow> nat" where
  "surviving Waiting = 1"
| "surviving (Locking M w pid) = 1"
| "surviving (Releasing pid cfg r) = (if r = Ok () then 1 else 0)"
| "surviving x = 0"

definition abs_hdr :: "pool \<Rightarrow> resource_hdr" where
  "abs_hdr s = (table s)\<lparr>poisoned := poisoned (table s) \<or> 0 < over_threads dying (threads s)\<rparr>"

definition abs_procs :: "pool \<Rightarrow> i32 \<Rightarrow> proc_status option" where
  "abs_procs s = override_on (guards s) (\<lambda>_. Some Stopped) (awaited s)"

lemma abs_procs_at: "abs_procs s pid = (if pid \<in> awaited s then Some Stopped else guards s pid)"
  by (simp add: abs_procs_def override_on_def)

definition abs_alive :: "pool \<Rightarrow> bool" where
  "abs_alive s \<longleftrightarrow> 0 < over_threads surviving (threads s) + count (jobs s) ReleaseJob"

definition mirrors :: "pool \<Rightarrow> sys \<Rightarrow> bool" where
  "mirrors s t \<longleftrightarrow> shared t = abs_hdr s \<and> procs t = abs_procs s
     \<and> mset (pending t) = over_threads registering (threads s)
     \<and> reaper_alive t = abs_alive s \<and> released t = freed s"

definition timely :: "bool \<Rightarrow> pool \<Rightarrow> bool" where
  "timely prompt s \<longleftrightarrow> (\<forall>pid \<in> awaited s. guards s pid = None)
     \<and> (prompt \<longrightarrow> awaited s \<inter> unregistered s = {})"

lemma begun_quiet [simp]:
  "looked_for (begun job) = {#}" "registering (begun job) = {#}" "dying (begun job) = 0"
  by (cases job; simp)+

text \<open>The releasing worker is alone: what its kind adds up to is what it adds.\<close>

lemma alone_others:
  assumes "reapers s \<le> 1" and "i < POOL_SIZ" and "reaping (threads s i) = 1"
  shows "j < POOL_SIZ \<Longrightarrow> j \<noteq> i \<Longrightarrow> reaping (threads s j) = 0" and "count (jobs s) ReleaseJob = 0"
proof -
  show "reaping (threads s j) = 0" if "j < POOL_SIZ" "j \<noteq> i"
    using over_threads_two [OF assms(2) that(1), of reaping "threads s"] that(2) assms(1,3)
    by (simp add: reapers_def)
  have "1 \<le> over_threads reaping (threads s)"
    using over_threads_split [OF assms(2), of reaping "threads s"] assms(3) by simp
  with assms(1) show "count (jobs s) ReleaseJob = 0" by (simp add: reapers_def)
qed

lemma alone:
  fixes f :: "activity \<Rightarrow> 'a::comm_monoid_add"
  assumes "reapers s \<le> 1" and "i < POOL_SIZ" and "reaping (threads s i) = 1"
    and "\<And>x. reaping x = 0 \<Longrightarrow> f x = 0"
  shows "over_threads f ((threads s)(i := x)) = f x" and "over_threads f (threads s) = f (threads s i)"
proof -
  have rest: "(\<Sum>j\<in>{..<POOL_SIZ} - {i}. f (((threads s)(i := y)) j)) = 0" for y
    using alone_others(1) [OF assms(1-3)] by (intro sum.neutral) (auto simp: assms(4))
  show "over_threads f ((threads s)(i := x)) = f x"
    using over_threads_split [OF assms(2), of f "(threads s)(i := x)"] rest [of x] by simp
  show "over_threads f (threads s) = f (threads s i)"
    using over_threads_split [OF assms(2), of f "(threads s)(i := threads s i)"] rest [of "threads s i"]
    by (simp only: fun_upd_triv fun_upd_same add_0_right)
qed

lemma quiet_kinds:
  "reaping x = 0 \<Longrightarrow> looked_for x = {#}" "reaping x = 0 \<Longrightarrow> dying x = 0" "reaping x = 0 \<Longrightarrow> surviving x = 0"
  by (cases x; simp)+

lemma unlocked_clean:
  assumes "locking_sound s" and "lock_holder s = None"
  shows "over_threads dying (threads s) = 0" and "abs_hdr s = table s"
proof -
  have "dying (threads s j) = 0" if "j < POOL_SIZ" for j
    using locking_soundD(1) [OF assms(1), of j] assms(2) that by (cases "threads s j") auto
  then show "over_threads dying (threads s) = 0" by (simp add: over_threads_def)
  then show "abs_hdr s = table s" by (simp add: abs_hdr_def)
qed

lemma reap_wait_error:
  assumes "m_wait M (trace w) WaitAny = Inl e"
  shows "fst (reap M h w) = fst (reap M h' w)"
  using assms by (auto simp: reap_def Let_def split: prod.split)

lemma registering_leaves:
  assumes "i < POOL_SIZ" and "threads s i = Registering cfg gpid gpname fds a" and "registering x = {#}"
  shows "over_threads registering (threads s) = add_mset (gpid, cfg) (over_threads registering ((threads s)(i := x)))"
  using over_threads_sub [OF assms(1), of registering "threads s" x "{#(gpid, cfg)#}"] assms(2,3) by simp

lemma timely_step:
  assumes "timely prompt s" and "reapers s \<le> 1" and "pool_step prompt True serv_fd s s'"
  shows "timely prompt s'"
  using assms(3)
proof cases
  case (prepared i d a M w cfg gpid gpname fds w')
  have "awaited s' = awaited s"
    using prepared by (simp add: awaited_def over_threads_still)
  moreover have "unregistered s' = insert gpid (unregistered s)"
    using over_threads_update [OF prepared(2), of registering "threads s" "Registering cfg gpid gpname fds a"] prepared(1,3)
    by (simp add: unregistered_def)
  ultimately show ?thesis using prepared assms(1) by (auto simp: timely_def)
next
  case (waited i M w pid)
  have "awaited s' = {pid}" "awaited s = {}"
    using alone [OF assms(2) waited(2), of looked_for] waited(1,3) quiet_kinds(1) by (simp_all add: awaited_def)
  moreover have "unregistered s' = unregistered s"
    using waited by (simp add: unregistered_def over_threads_still)
  ultimately show ?thesis using waited by (simp add: timely_def)
next
  case (registers i cfg gpid gpname fds a r hdr')
  have "over_threads registering (threads s) = add_mset (gpid, cfg) (over_threads registering (threads s'))"
    using registering_leaves [OF registers(2,3)] registers(1) by simp
  then have "unregistered s' \<subseteq> unregistered s" by (auto simp: unregistered_def)
  moreover have "awaited s' = awaited s" "guards s' = guards s"
    using registers by (simp_all add: awaited_def over_threads_still)
  ultimately show ?thesis using assms(1) by (auto simp: timely_def)
next
  case (failed i d a M w w' xs c)
  have "awaited s' = awaited s" "unregistered s' = unregistered s"
    using failed by (simp_all add: awaited_def unregistered_def over_threads_still)
  with failed assms(1) show ?thesis by (auto simp: timely_def split: option.split)
next
  case (stops pid)
  then have "pid \<notin> awaited s" using assms(1) by (auto simp: timely_def)
  with stops assms(1) show ?thesis by (auto simp: timely_def awaited_def unregistered_def)
next
  case (looked_up i M w pid r hdr' w')
  have "awaited s' = {}" using alone(1) [OF assms(2) looked_up(2), of looked_for] looked_up(1,3) quiet_kinds(1)
    by (simp add: awaited_def)
  then show ?thesis by (simp add: timely_def)
next
  case (locked i M w pid cfg r hdr' w')
  have "awaited s' = {}" using alone(1) [OF assms(2) locked(2), of looked_for] locked(1,3) quiet_kinds(1)
    by (simp add: awaited_def)
  then show ?thesis by (simp add: timely_def)
qed (use assms(1) in \<open>auto simp: timely_def awaited_def unregistered_def over_threads_still\<close>)


text \<open>Looking a guard up, with whatever it starts, is the atomic reaping.\<close>

lemma mirrors_lookup:
  assumes "mirrors s t" and "reapers s \<le> 1" and "locking_sound s" and "timely prompt s"
    and i: "i < POOL_SIZ" "threads s i = Locking M w pid" "lock_holder s = None" "reap M (table s) w = (r, hdr', w')"
    and s': "threads s' = (threads s)(i := x)" "guards s' = guards s" "jobs s' = jobs s" "abs_hdr s' = hdr'"
      "freed s' = handed (table s) pid @ freed s"
    and x: "looked_for x = {#}" "registering x = {#}" "surviving x = (if r = Ok () then 1 else 0)"
  shows "\<exists>t'. step prompt t t' \<and> mirrors s' t'"
proof -
  note sole = alone [OF assms(2) i(1)] and only = alone_others(2) [OF assms(2) i(1)]
  have shared: "shared t = table s" using unlocked_clean(2) [OF assms(3) i(3)] assms(1) by (simp add: mirrors_def)
  have await: "awaited s = {pid}" "awaited s' = {}"
    using sole [of looked_for] i(2) s'(1) x(1) quiet_kinds(1) by (simp_all add: awaited_def)
  have "reaper_alive t" using over_threads_split [OF i(1), of surviving "threads s"] i(2) assms(1)
    by (simp add: mirrors_def abs_alive_def)
  moreover have "procs t pid = Some Stopped" using await(1) assms(1) by (simp add: mirrors_def abs_procs_at)
  moreover have "prompt \<longrightarrow> pid \<notin> fst ` set (pending t)"
  proof -
    have "set (pending t) = set_mset (over_threads registering (threads s))"
      using assms(1) by (simp add: mirrors_def flip: set_mset_mset)
    then show ?thesis using assms(4) await(1) by (simp add: timely_def unregistered_def)
  qed
  moreover have "m_wait M (trace w) WaitAny = Inr (Some pid)" by (rule locking_soundD(2) [OF assms(3) i(1,2)])
  ultimately have st: "step prompt t (t\<lparr>procs := (procs t)(pid := None), shared := hdr', reaper_alive := (r = Ok ()),
      released := handed (shared t) pid @ released t\<rparr>)"
    using i(4) shared by (intro step.reaped) simp_all
  have "abs_procs s' = (abs_procs s)(pid := None)"
    using await s'(2) assms(4) by (intro ext) (simp add: abs_procs_at timely_def)
  moreover have "abs_alive s' = (r = Ok ())"
    using sole(1) [of surviving x] only i(2) s'(1,3) x(3) quiet_kinds(3) by (simp add: abs_alive_def not_in_iff)
  ultimately have "mirrors s' (t\<lparr>procs := (procs t)(pid := None), shared := hdr', reaper_alive := (r = Ok ()),
      released := handed (shared t) pid @ released t\<rparr>)"
    using assms(1) s' shared x(2) i(1,2) by (simp add: mirrors_def over_threads_still)
  with st show ?thesis by blast
qed

lemma reap_nothing:
  assumes "m_wait M (trace w) WaitAny = Inr (Some pid)" and "poisoned h \<or> resources h pid = None"
    and "reap M h w = (r, h', w')"
  shows "h' = h" and "handed h pid = []"
  using assms by (auto simp: reap_def Let_def handed_def split: if_splits)

lemma reap_something:
  assumes "m_wait M (trace w) WaitAny = Inr (Some pid)" and "\<not> poisoned h" "resources h pid = Some cfg"
    and "reap M h w = (r, h', w')"
  shows "h' = (hdr_remove h pid)\<lparr>poisoned := (r = Panic)\<rparr>" and "handed h pid = [(pid, cfg)]"
  using assms by (auto simp: reap_def Let_def handed_def split: prod.splits)

text \<open>One step of a thread is one atomic step, or none.\<close>

lemma mirrors_step:
  assumes "mirrors s t" and "reapers s \<le> 1" and "locking_sound s" and "timely prompt s"
    and "pool_step prompt True serv_fd s s'"
  shows "\<exists>t'. (t' = t \<or> step prompt t t') \<and> mirrors s' t'"
  using assms(5)
proof cases
  case (accepted d a)
  with assms(1) have "mirrors s' t"
    by (simp add: mirrors_def abs_hdr_def abs_procs_def abs_alive_def awaited_def)
  then show ?thesis by blast
next
  case (taken i job)
  have "over_threads surviving ((threads s)(i := begun job)) + count (jobs s - {#job#}) ReleaseJob
      = over_threads surviving (threads s) + count (jobs s) ReleaseJob"
    using over_threads_update [OF taken(2), of surviving "threads s" "begun job"] taken(3,4)
    by (cases job) (auto simp: Suc_leI)
  then have "over_threads surviving (threads s') + count (jobs s') ReleaseJob
      = over_threads surviving (threads s) + count (jobs s) ReleaseJob" using taken(1) by simp
  then have "abs_alive s' = abs_alive s" by (simp only: abs_alive_def)
  with taken assms(1) have "mirrors s' t"
    by (simp add: mirrors_def abs_hdr_def abs_procs_def awaited_def over_threads_still)
  then show ?thesis by blast
next
  case (prepared i d a M w cfg gpid gpname fds w')
  from worker_prepare_parts [OF prepared(5)] obtain cfg0 w1 w2
    where i: "run (init M cfg0) w1 = (Ok cfg, w2)" and g: "guard_pid cfg = Some gpid" .
  have fresh: "procs t gpid = None" using assms(1) prepared by (simp add: mirrors_def abs_procs_at)
  have "abs_procs s' = (abs_procs s)(gpid \<mapsto> Running)"
    using prepared by (intro ext) (simp add: abs_procs_at awaited_def over_threads_still)
  moreover have "over_threads registering (threads s') = add_mset (gpid, cfg) (over_threads registering (threads s))"
    using over_threads_update [OF prepared(2), of registering "threads s" "Registering cfg gpid gpname fds a"] prepared(1,3)
    by simp
  ultimately have "mirrors s' (t\<lparr>procs := (procs t)(gpid \<mapsto> Running), pending := (gpid, cfg) # pending t,
      born := (gpid, cfg) # born t\<rparr>)"
    using prepared assms(1) by (simp add: mirrors_def abs_hdr_def abs_alive_def over_threads_still)
  then show ?thesis using step.started [OF i g fresh] by blast
next
  case (failed i d a M w w' xs c)
  have same: "awaited s' = awaited s" "abs_hdr s' = abs_hdr s" "abs_alive s' = abs_alive s"
      "over_threads registering (threads s') = over_threads registering (threads s)" "freed s' = freed s"
    using failed by (simp_all add: awaited_def abs_hdr_def abs_alive_def over_threads_still)
  show ?thesis
  proof (cases c)
    case None
    with failed same assms(1) have "mirrors s' t" by (simp add: mirrors_def abs_procs_def fun_eq_iff)
    then show ?thesis by blast
  next
    case (Some pid)
    with failed(8) assms(1) have "procs t pid = None" by (simp add: mirrors_def abs_procs_at)
    moreover have "abs_procs s' = (abs_procs s)(pid \<mapsto> Running)"
      using failed(1,8) Some same(1) by (intro ext) (simp add: abs_procs_at)
    with same assms(1) have "mirrors s' (t\<lparr>procs := (procs t)(pid \<mapsto> Running)\<rparr>)" by (simp add: mirrors_def)
    ultimately show ?thesis using step.stillborn by blast
  qed
next
  case (registers i cfg gpid gpname fds a r hdr')
  have shared: "shared t = table s" using unlocked_clean(2) [OF assms(3) registers(4)] assms(1) by (simp add: mirrors_def)
  have left: "over_threads registering (threads s) = add_mset (gpid, cfg) (over_threads registering (threads s'))"
    using registering_leaves [OF registers(2,3)] registers(1) by simp
  then have pend: "(gpid, cfg) \<in> set (pending t)" using assms(1) by (auto simp: mirrors_def simp flip: set_mset_mset)
  have "abs_hdr s' = hdr'" using unlocked_clean(1) [OF assms(3) registers(4)] registers(1-3)
    by (simp add: abs_hdr_def over_threads_still)
  moreover have "abs_procs s' = abs_procs s" "abs_alive s' = abs_alive s" "freed s' = freed s"
    using registers by (simp_all add: abs_procs_def awaited_def abs_alive_def over_threads_still fun_eq_iff)
  ultimately have mir: "mirrors s' (t\<lparr>shared := hdr', pending := remove1 (gpid, cfg) (pending t), lost := l\<rparr>)" for l
    using assms(1) left by (simp add: mirrors_def)
  show ?thesis
  proof (cases "r = Panic")
    case True
    then have "hdr' = shared t" using registers(5) shared by (auto simp: registe_resource_def split: if_splits option.splits)
    then have "t\<lparr>shared := hdr', pending := remove1 (gpid, cfg) (pending t), lost := l\<rparr>
        = t\<lparr>pending := remove1 (gpid, cfg) (pending t), lost := l\<rparr>" for l by simp
    with mir step.given_up [OF pend] show ?thesis by metis
  next
    case False
    have "t\<lparr>shared := hdr', pending := remove1 (gpid, cfg) (pending t), lost := lost t\<rparr>
        = t\<lparr>shared := hdr', pending := remove1 (gpid, cfg) (pending t)\<rparr>" by simp
    with mir [of "lost t"] step.registered [OF pend _ False] registers(5) shared show ?thesis by metis
  qed
next
  case (answered i r cfg gpid gpname fds a M w q w' xs)
  with assms(1) have "mirrors s' t"
    by (simp add: mirrors_def abs_hdr_def abs_procs_def abs_alive_def awaited_def over_threads_still)
  then show ?thesis by blast
next
  case (stops pid)
  then have "pid \<notin> awaited s" using assms(4) by (auto simp: timely_def)
  with stops assms(1) have "procs t pid = Some Running"
    and "mirrors s' (t\<lparr>procs := (procs t)(pid \<mapsto> Stopped)\<rparr>)"
    by (auto simp: mirrors_def abs_hdr_def abs_procs_at abs_alive_def awaited_def fun_eq_iff)
  then show ?thesis using step.stopped by blast
next
  case (waited i M w pid)
  note sole = alone [OF assms(2) waited(2)]
  have "awaited s' = {pid}" "awaited s = {}"
    using sole [of looked_for] waited(1,3) quiet_kinds(1) by (simp_all add: awaited_def)
  then have "abs_procs s' = abs_procs s"
    using waited(1,5) by (intro ext) (simp add: abs_procs_at)
  with waited assms(1) have "mirrors s' t"
    by (simp add: mirrors_def abs_hdr_def abs_alive_def over_threads_still)
  then show ?thesis by blast
next
  case (wait_fails i M w e r hdr' w')
  note sole = alone [OF assms(2) wait_fails(2)]
  let ?x = "if r = Ok () then Waiting else Idle"
  have alive: "reaper_alive t" using over_threads_split [OF wait_fails(2), of surviving "threads s"] wait_fails(3) assms(1)
    by (simp add: mirrors_def abs_alive_def)
  obtain h v where reap: "reap M (shared t) w = (r, h, v)"
    using reap_wait_error [OF wait_fails(4), of "shared t" "table s"] wait_fails(5) by (cases "reap M (shared t) w") auto
  have "awaited s' = awaited s" "over_threads dying (threads s') = over_threads dying (threads s)"
    "over_threads registering (threads s') = over_threads registering (threads s)"
    using wait_fails(1-3) by (simp_all add: awaited_def over_threads_still)
  moreover have "abs_alive s' = (r = Ok ())"
    using sole(1) [of surviving ?x] alone_others(2) [OF assms(2) wait_fails(2)] wait_fails(1,3) quiet_kinds(3)
    by (simp add: abs_alive_def not_in_iff)
  ultimately have "mirrors s' (t\<lparr>reaper_alive := (r = Ok ())\<rparr>)"
    using wait_fails(1) assms(1) by (simp add: mirrors_def abs_hdr_def abs_procs_def fun_eq_iff)
  then show ?thesis using step.wait_failed [OF alive wait_fails(4) reap] by blast
next
  case (looked_up i M w pid r hdr' w')
  note none = reap_nothing [OF locking_soundD(2) [OF assms(3) looked_up(2,3)] looked_up(5,6)]
  let ?x = "if r = Ok () then Waiting else Idle"
  have "over_threads dying (threads s') = 0"
    using alone(1) [OF assms(2) looked_up(2), of dying ?x] looked_up(1,3) quiet_kinds(2) by simp
  then have "abs_hdr s' = hdr'" using looked_up(1) none(1) by (simp add: abs_hdr_def)
  then show ?thesis
    using mirrors_lookup [OF assms(1-4) looked_up(2-4,6), of s' ?x] looked_up(1) none(2) by auto
next
  case (locked i M w pid cfg r hdr' w')
  note some = reap_something [OF locking_soundD(2) [OF assms(3) locked(2,3)] locked(5-7)]
  let ?x = "Releasing pid cfg r"
  have "over_threads dying (threads s') = dying ?x"
    using alone(1) [OF assms(2) locked(2), of dying ?x] locked(1,3) quiet_kinds(2) by simp
  then have "abs_hdr s' = hdr'" using locked(1,5) some(1) by (simp add: abs_hdr_def hdr_remove_def)
  then show ?thesis
    using mirrors_lookup [OF assms(1-4) locked(2-4,7), of s' ?x] locked(1) some(2) by auto
next
  case (unlocked i pid cfg r)
  note sole = alone [OF assms(2) unlocked(2)]
  have "lock_holder s = Some i" using locking_soundD(1) [OF assms(3), of i] unlocked(2,3) by simp
  then have np: "\<not> poisoned (table s)" by (rule locking_soundD(3) [OF assms(3)])
  have "abs_hdr s' = abs_hdr s"
    using sole [of dying] np unlocked(1,3) quiet_kinds(2) by (simp add: abs_hdr_def)
  moreover have "abs_alive s' = abs_alive s"
    using sole [of surviving] unlocked(1,3) quiet_kinds(3) by (simp add: abs_alive_def)
  moreover have "abs_procs s' = abs_procs s" "over_threads registering (threads s') = over_threads registering (threads s)"
    using unlocked by (simp_all add: abs_procs_def awaited_def over_threads_still)
  ultimately have "mirrors s' t" using unlocked(1) assms(1) by (simp add: mirrors_def)
  then show ?thesis by blast
qed

lemma pool_reachable_steps:
  "pool_reachable prompt fresh serv_fd s \<Longrightarrow> rtranclp (pool_step prompt fresh serv_fd) pool_init s"
  by (induction rule: pool_reachable.induct) auto

interpretation pool_sim: simulation pool_init "pool_step prompt True serv_fd" sys_init "step prompt"
  "\<lambda>s. pool_reachable prompt True serv_fd s \<and> timely prompt s" mirrors
  for prompt serv_fd
proof unfold_locales
  show "pool_reachable prompt True serv_fd pool_init \<and> timely prompt pool_init"
    by (rule conjI [OF pool_start]) (simp add: timely_def awaited_def over_threads_def pool_init_def)
  show "mirrors pool_init sys_init"
    by (simp add: mirrors_def abs_hdr_def abs_procs_def abs_alive_def awaited_def over_threads_def
        pool_init_def sys_init_def empty_hdr_def)
next
  fix s s'
  assume "pool_reachable prompt True serv_fd s \<and> timely prompt s" and st: "pool_step prompt True serv_fd s s'"
  then have r: "pool_reachable prompt True serv_fd s" and ti: "timely prompt s" by blast+
  note sound = pool_reachable_sound [OF r]
  show "pool_reachable prompt True serv_fd s' \<and> timely prompt s'"
    using pool_further [OF r st] timely_step [OF ti sound(1) st] by blast
  show "\<exists>t'. (t' = t \<or> step prompt t t') \<and> mirrors s' t'" if "mirrors s t" for t
    using mirrors_step [OF that sound ti st] by blast
qed

lemma pool_mirrored:
  assumes "pool_reachable prompt True serv_fd s"
  shows "timely prompt s \<and> (\<exists>t. reachable prompt t \<and> mirrors s t)"
  using pool_sim.simulated [OF pool_reachable_steps [OF assms]]
    pool_sim.sound_reached [OF pool_reachable_steps [OF assms]] by (auto simp: reachable_steps)

text \<open>
  C7: The threads implement the lifecycle. If the kernel does not reuse a pid between the releasing worker's
  \<open>wait\<close> and its lookup, every state of the pool, its threads and its mutex stands for a state the atomic
  system of the lifecycle reaches: with the same processes, a guard not yet looked up counting as stopped, the same pending
  registrations and releases, a releasing worker in the same health, and the same table whenever the lock is free.
\<close>

theorem pool_refines_lifecycle:
  assumes "pool_reachable prompt True serv_fd s"
  shows "\<exists>t. reachable prompt t
    \<and> (\<forall>pid. procs t pid = (if pid \<in> awaited s then Some Stopped else guards s pid))
    \<and> mset (pending t) = over_threads registering (threads s) \<and> released t = freed s
    \<and> resources (shared t) = resources (table s) \<and> (lock_holder s = None \<longrightarrow> shared t = table s)
    \<and> (reaper_alive t \<longleftrightarrow> 0 < over_threads surviving (threads s) \<or> ReleaseJob \<in># jobs s)"
proof -
  from pool_mirrored [OF assms] obtain t where t: "reachable prompt t" "mirrors s t" by blast
  then show ?thesis
    using unlocked_clean(2) [OF pool_reachable_sound(2) [OF assms]]
    by (intro exI [of _ t]) (auto simp: mirrors_def abs_procs_at abs_alive_def abs_hdr_def)
qed

definition kept :: "pool \<Rightarrow> bool" where
  "kept s \<longleftrightarrow> (\<forall>pid c. (pid, c) \<in> set (entered s) \<longrightarrow> resources (table s) pid = Some c \<or> (pid, c) \<in> set (freed s))"

lemma kept_step:
  assumes "kept s" and "pool_reachable True True serv_fd s" and "pool_step True True serv_fd s s'"
  shows "kept s'"
  using assms(3)
proof cases
  case (registers i cfg gpid gpname fds a r hdr')
  from pool_mirrored [OF assms(2)] obtain t where t: "reachable True t" "mirrors s t" by blast
  have "shared t = table s"
    using unlocked_clean(2) [OF pool_reachable_sound(2) [OF assms(2)] registers(4)] t(2) by (simp add: mirrors_def)
  moreover have "(gpid, cfg) \<in> set (pending t)"
    using registering_leaves [OF registers(2,3), of Idle] t(2) by (simp add: mirrors_def flip: set_mset_mset)
  ultimately have "resources (table s) gpid = None"
    using owned_reachable [OF t(1)] by (force simp: owned_def)
  with registers(1) register_table [OF registers(5)] assms(1) show ?thesis
    by (force simp: kept_def split: if_splits)
next
  case (locked i M w pid cfg r hdr' w')
  with assms(1) show ?thesis by (force simp: kept_def hdr_remove_def)
qed (use assms(1) in \<open>auto simp: kept_def\<close>)

text \<open>
  C11: No granted guard is forgotten. If guards outlive their registration and the kernel does not reuse a pid before
  the lookup, then in every state the threads can reach, each reply that is not a refusal names a guard whose
  configuration is in the table under its pid, or has been handed to a release.
\<close>

theorem grants_kept:
  assumes "pool_reachable True True serv_fd s" and "x \<in> set (outgoing s)" and "\<And>M s' a. x \<noteq> refusal M s' a"
  shows "\<exists>M s' a cfg gpid fds. x = reply M s' a gpid (guard_pname cfg) fds
    \<and> (resources (table s) gpid = Some cfg \<or> (gpid, cfg) \<in> set (freed s))"
proof -
  have "kept s"
    using assms(1)
  proof (rule pool_invariant)
    show "kept pool_init" by (simp add: kept_def pool_init_def)
  qed (use kept_step in blast)
  moreover have "honest (set (entered s)) x"
    by (rule contents_soundD(4) [OF pool_reachable_contents [OF assms(1)] assms(2)])
  ultimately show ?thesis using assms(3) unfolding honest_def kept_def by fast
qed

theorem pool_refines_lifecycle_witness:
  "\<exists>s t. pool_reachable True True 9 s \<and> awaited s = {4242} \<and> guards s 4242 = None
     \<and> reachable True t \<and> procs t 4242 = Some Stopped \<and> dom (resources (shared t)) = {4242}"
proof -
  obtain cfg fds where "pool_reachable True True 9 (served cfg fds)" using live_served by blast
  then have r: "pool_reachable True True 9 (in_lookup cfg fds)" by (rule in_lookup_reachable)
  have aw: "awaited (in_lookup cfg fds) = {4242}" "guards (in_lookup cfg fds) 4242 = None"
    "resources (table (in_lookup cfg fds)) = [4242 \<mapsto> cfg]"
    by (simp_all add: in_lookup_def served_def awaited_def pool_sum)
  from pool_refines_lifecycle [OF r] obtain t where "reachable True t"
    "\<forall>pid. procs t pid = (if pid \<in> awaited (in_lookup cfg fds) then Some Stopped else guards (in_lookup cfg fds) pid)"
    "resources (shared t) = resources (table (in_lookup cfg fds))" by blast
  with r aw show ?thesis by (intro exI [of _ "in_lookup cfg fds"] exI [of _ t]) simp
qed

lemma reply_is_no_refusal: "fds \<noteq> [] \<Longrightarrow> reply M s a gpid gpname fds \<noteq> refusal M' s' a'"
  by (simp add: reply_def refusal_def)

theorem grants_kept_witness:
  "\<exists>s x cfg gpid. pool_reachable True True 9 s \<and> outgoing s = [x] \<and> resources (table s) gpid = Some cfg"
proof -
  obtain cfg fds w' where prep: "run (worker_prepare live sample_req 9 [1]) start = (Ok (cfg, 4242, guard_pname cfg, fds), w')"
    using live_prepare by blast
  have fds: "fds \<noteq> []" using prepared_guarded(3) [OF _ _ prep] sample_req_short by auto
  let ?x = "reply live 9 [1] 4242 (guard_pname cfg) fds"
  obtain w2 where ans: "run (worker_answer live 9 [1] 4242 (guard_pname cfg) fds (Ok ())) start = (Ok (), w2)"
    using live_answer by blast
  from reply_obs.observesD [OF observes_worker_answer ans]
  have xs: "replies (trace w2) = replies (trace start) @ [?x]" by simp
  define s where "s = moves 1 Idle (served cfg fds)\<lparr>outgoing := [?x]\<rparr>"
  have "pool_step True True 9 (served cfg fds) s"
    using pool_step.answered [of 1 "served cfg fds" "Ok ()" cfg 4242 "guard_pname cfg" fds "[1]" live 9 start, OF _ _ ans _ xs]
    by (simp add: s_def served_def POOL_SIZ_def)
  with served_reachable [OF prep] have r: "pool_reachable True True 9 s" by (rule pool_further)
  have "\<exists>M s' a cfg gpid fds. ?x = reply M s' a gpid (guard_pname cfg) fds
      \<and> (resources (table s) gpid = Some cfg \<or> (gpid, cfg) \<in> set (freed s))"
    by (rule grants_kept [OF r]) (simp_all add: s_def reply_is_no_refusal [OF fds])
  then obtain c gpid where "resources (table s) gpid = Some c" by (auto simp: s_def served_def)
  with r show ?thesis by (intro exI [of _ s] exI [of _ ?x]) (auto simp: s_def)
qed


end
