(* ===== verification/Rk_Rocker.thy ===== *)
theory Rk_Rocker
  imports Rk_Lifecycle Rk_Simulation
begin

text \<open>
  Rockers in use: the server of \<open>Rk_Lifecycle\<close> together with the pid namespaces of its guards
  (\<open>start_guard\<close> of \<open>core/src/master.rs\<close>). A guard looks at \<open>/proc\<close> with the code's own
  \<open>guard_running_alone\<close> on any kernel whose listing shows every process of the namespace; when it finds itself alone it
  ends. Processes enter a namespace and leave it at any time. Of the kernel the documented behaviour of pid
  namespaces is used: the guard is process 1 of its own, nobody enters it once the guard is gone, and
  the end of the guard kills everybody in it.
\<close>

section \<open>The system\<close>

datatype phase = Watching | Leaving | Hung

record rockers =
  srv :: sys
  phase :: "i32 \<Rightarrow> phase"
  inside :: "i32 \<Rightarrow> u32 set"

definition rockers_init :: rockers where
  "rockers_init = \<lparr>srv = sys_init, phase = \<lambda>_. Watching, inside = \<lambda>_. {}\<rparr>"

datatype rk_event =
    Serve_step
  | Look i32 bool
  | Look_fails i32
  | Look_hangs i32
  | Leave i32
  | Kill i32
  | Enter i32 u32
  | Exit_app i32 u32

definition lists_all :: "machine \<Rightarrow> world \<Rightarrow> u32 set \<Rightarrow> bool" where
  "lists_all K w A \<longleftrightarrow> (\<forall>es. m_dir K (trace w) (ReadDir ''/proc'') = Inr es \<longrightarrow>
     (\<forall>app \<in> A. \<exists>name. Inr (name, True) \<in> set es \<and> parse_u32 name = Some app))"

text \<open>The end of a guard: the server can reap it, and its namespace is emptied.\<close>

definition guard_ends :: "i32 \<Rightarrow> rockers \<Rightarrow> rockers" where
  "guard_ends pid s = s\<lparr>srv := (srv s)\<lparr>procs := (procs (srv s))(pid \<mapsto> Stopped)\<rparr>, inside := (inside s)(pid := {})\<rparr>"

abbreviation guarded :: "rockers \<Rightarrow> i32 \<Rightarrow> bool" where
  "guarded s pid \<equiv> procs (srv s) pid = Some Running"

inductive rk_step :: "bool \<Rightarrow> rk_event \<Rightarrow> rockers \<Rightarrow> rockers \<Rightarrow> bool" for prompt :: bool where
  served: "\<lbrakk>step prompt (srv s) t; \<And>pid. guarded s pid \<Longrightarrow> procs t pid = Some Running\<rbrakk> \<Longrightarrow>
     rk_step prompt Serve_step s
       (s\<lparr>srv := t, phase := \<lambda>pid. if procs (srv s) pid = None then Watching else phase s pid\<rparr>)"
| looked: "\<lbrakk>guarded s pid; phase s pid = Watching; lists_all K w (inside s pid);
     run (guard_running_alone K :: (core_error, bool) io) w = (Ok alone, w')\<rbrakk> \<Longrightarrow>
     rk_step prompt (Look pid alone) s (s\<lparr>phase := (phase s)(pid := if alone then Leaving else Watching)\<rparr>)"
| look_failed: "\<lbrakk>guarded s pid; phase s pid = Watching; lists_all K w (inside s pid);
     run (guard_running_alone K :: (core_error, bool) io) w = (Panic, w')\<rbrakk> \<Longrightarrow>
     rk_step prompt (Look_fails pid) s (guard_ends pid s)"
| look_hung: "\<lbrakk>guarded s pid; phase s pid = Watching; lists_all K w (inside s pid);
     run (guard_running_alone K :: (core_error, bool) io) w = (Diverge, w')\<rbrakk> \<Longrightarrow>
     rk_step prompt (Look_hangs pid) s (s\<lparr>phase := (phase s)(pid := Hung)\<rparr>)"
| left: "\<lbrakk>guarded s pid; phase s pid = Leaving\<rbrakk> \<Longrightarrow> rk_step prompt (Leave pid) s (guard_ends pid s)"
| killed: "guarded s pid \<Longrightarrow> rk_step prompt (Kill pid) s (guard_ends pid s)"
| entered_ns: "\<lbrakk>guarded s pid; app \<notin> insert 1 (inside s pid)\<rbrakk> \<Longrightarrow>
     rk_step prompt (Enter pid app) s (s\<lparr>inside := (inside s)(pid := insert app (inside s pid))\<rparr>)"
| exited: "app \<in> inside s pid \<Longrightarrow>
     rk_step prompt (Exit_app pid app) s (s\<lparr>inside := (inside s)(pid := inside s pid - {app})\<rparr>)"

inductive_cases rk_stepE: "rk_step prompt e s s'"
inductive_cases rk_leaveE: "rk_step prompt (Leave pid) s s'"
inductive_cases rk_lookE: "rk_step prompt (Look pid alone) s s'"
inductive_simps rk_enter_iff: "rk_step prompt (Enter pid app) s s'"

text \<open>A run and its events, the last one first.\<close>

inductive rk_run :: "bool \<Rightarrow> rk_event list \<Rightarrow> rockers \<Rightarrow> bool" for prompt :: bool where
  run_start: "rk_run prompt [] rockers_init"
| run_further: "\<lbrakk>rk_run prompt es s; rk_step prompt e s s'\<rbrakk> \<Longrightarrow> rk_run prompt (e # es) s'"

definition rk_any :: "bool \<Rightarrow> rockers \<Rightarrow> rockers \<Rightarrow> bool" where
  "rk_any prompt s s' \<longleftrightarrow> (\<exists>e. rk_step prompt e s s')"

section \<open>The server in it\<close>

lemma ends_is_stopped: "guarded s pid \<Longrightarrow> step prompt (srv s) (srv (guard_ends pid s))"
  using step.stopped [of "srv s" pid prompt] by (simp add: guard_ends_def)

lemma rk_step_srv: "rk_step prompt e s s' \<Longrightarrow> srv s' = srv s \<or> step prompt (srv s) (srv s')"
  by (erule rk_stepE) (auto intro: ends_is_stopped)

interpretation rk_sim: simulation rockers_init "rk_any prompt" sys_init "step prompt" "\<lambda>_. True" "\<lambda>s t. t = srv s"
  for prompt
proof unfold_locales
  show "\<exists>t'. (t' = t \<or> step prompt t t') \<and> t' = srv s'" if "t = srv s" "rk_any prompt s s'" for s t s'
    using that rk_step_srv by (auto simp: rk_any_def)
qed (simp_all add: rockers_init_def)

lemma rk_run_steps: "rk_run prompt es s \<Longrightarrow> rtranclp (rk_any prompt) rockers_init s"
  by (induction rule: rk_run.induct) (auto simp: rk_any_def intro: rtranclp.rtrancl_into_rtrancl)

lemma rk_run_srv: "rk_run prompt es s \<Longrightarrow> reachable prompt (srv s)"
  using rk_sim.simulated [OF rk_run_steps] by (auto simp: reachable_steps)

lemma not_revived: "step prompt s t \<Longrightarrow> procs t pid = Some Running \<Longrightarrow> procs s pid \<in> {None, Some Running}"
  by (erule stepE) (auto split: if_splits)

section \<open>The namespaces\<close>

definition housed :: "rockers \<Rightarrow> bool" where
  "housed s \<longleftrightarrow> (\<forall>pid. 1 \<notin> inside s pid \<and> (inside s pid \<noteq> {} \<longrightarrow> guarded s pid))"

lemma housed_step: "housed s \<Longrightarrow> rk_step prompt e s s' \<Longrightarrow> housed s'"
  by (erule rk_stepE) (auto simp: housed_def guard_ends_def split: if_splits)

lemma housed_run: "rk_run prompt es s \<Longrightarrow> housed s"
  proof (induction rule: rk_run.induct)
  case run_start
  show ?case by (simp add: housed_def rockers_init_def)
qed (rule housed_step)

text \<open>Who finds itself alone is alone; who does not is not.\<close>

lemma look_alone:
  assumes "run (guard_running_alone K :: (core_error, bool) io) w = (Ok True, w')" and "lists_all K w A" and "1 \<notin> A"
  shows "A = {}"
proof -
  obtain es where es: "m_dir K (trace w) (ReadDir ''/proc'') = Inr es" "scan_proc es True = Some True"
  proof (cases "m_dir K (trace w) (ReadDir ''/proc'')")
    case (Inl e)
    obtain q v where die: "run (pdie K :: (core_error, (errno + string \<times> bool) list) io)
        (emit (ReadDir ''/proc'') (RErr e) w) = (q, v)" "q = Panic \<or> q = Diverge"
      using pdie_cases [of K] by (metis prod.collapse)
    with assms(1) Inl show ?thesis
      by (auto simp: guard_running_alone_def pnk_def run_bnd run_handle)
  next
    case (Inr es)
    with assms(1) that show ?thesis
      by (cases "scan_proc es True") (auto simp: guard_running_alone_def pnk_def run_bnd run_handle)
  qed
  then have none: "\<not> (\<exists>x \<in> set es. other_process x)" by (simp add: scan_proc_eq split: if_splits)
  have "app \<notin> A" for app
  proof
    assume "app \<in> A"
    with assms(2) es(1) obtain name where "Inr (name, True) \<in> set es" "parse_u32 name = Some app"
      by (auto simp: lists_all_def)
    moreover from \<open>app \<in> A\<close> assms(3) have "app \<noteq> 1" by auto
    ultimately have "other_process (Inr (name, True))" by simp
    with none \<open>Inr (name, True) \<in> set es\<close> show False by blast
  qed
  then show ?thesis by blast
qed

text \<open>
  Who is inside when a guard decides to leave arrived after its last look.
\<close>

definition latecomers :: "rk_event list \<Rightarrow> i32 \<Rightarrow> u32 set \<Rightarrow> bool" where
  "latecomers es pid A \<longleftrightarrow> (\<exists>later earlier. es = later @ Look pid True # earlier
     \<and> Look pid True \<notin> set later \<and> (\<forall>app \<in> A. Enter pid app \<in> set later))"

lemma latecomers_more:
  assumes "latecomers es pid A" and "e \<noteq> Look pid True" and "\<And>app. app \<in> B \<Longrightarrow> app \<in> A \<or> e = Enter pid app"
  shows "latecomers (e # es) pid B"
proof -
  from assms(1) obtain later earlier where l: "es = later @ Look pid True # earlier" "Look pid True \<notin> set later"
    "\<forall>app \<in> A. Enter pid app \<in> set later" by (auto simp: latecomers_def)
  then have "e # es = (e # later) @ Look pid True # earlier" by simp
  moreover have "Look pid True \<notin> set (e # later)" "\<forall>app \<in> B. Enter pid app \<in> set (e # later)"
    using l assms(2,3) by auto
  ultimately show ?thesis unfolding latecomers_def by blast
qed

lemma leaving_latecomers:
  "rk_run prompt es s \<Longrightarrow> guarded s pid \<Longrightarrow> phase s pid = Leaving \<Longrightarrow> latecomers es pid (inside s pid)"
proof (induction rule: rk_run.induct)
  case run_start
  then show ?case by (simp add: rockers_init_def)
next
  case (run_further es s e s')
  show ?case
  proof (cases "guarded s pid \<and> phase s pid = Leaving")
    case True
    then have "latecomers es pid (inside s pid)" using run_further.IH by simp
    moreover have "e \<noteq> Look pid True" using True run_further.hyps(2) by (auto elim: rk_lookE)
    moreover have "app \<in> inside s pid \<or> e = Enter pid app" if "app \<in> inside s' pid" for app
      using run_further.hyps(2) that by cases (auto simp: guard_ends_def split: if_splits)
    ultimately show ?thesis by (rule latecomers_more)
  next
    case False
    with run_further.hyps(2) run_further.prems show ?thesis
    proof cases
      case (looked q K w alone w')
      with False run_further.prems have q: "q = pid" "alone" by (auto split: if_splits)
      with looked housed_run [OF run_further.hyps(1)] have "inside s' pid = {}"
        by (auto simp: housed_def dest: look_alone)
      with q looked(1) show ?thesis
        by (intro exI [of _ "[]"] exI [of _ es] | simp add: latecomers_def)+
    next
      case (served t)
      with False run_further.prems not_revived [OF served(3), of pid] show ?thesis by (auto split: if_splits)
    qed (auto simp: guard_ends_def split: if_splits)
  qed
qed

section \<open>Rockers in use\<close>

text \<open>
  C9: A guard leaves an empty rocker only. A guard whose look at \<open>/proc\<close> tells it that it is alone has nobody in its
  namespace at that moment; and when a guard then ends by itself, everybody it takes along has
  entered after that look, in any interleaving of the server's threads, the guards and their clients.
\<close>

theorem guard_leaves_empty:
  assumes "rk_run prompt es s"
  shows "(rk_step prompt (Look pid True) s s' \<longrightarrow> inside s pid = {})
    \<and> (rk_step prompt (Leave pid) s s' \<longrightarrow>
        (\<exists>later earlier. es = later @ Look pid True # earlier \<and> Look pid True \<notin> set later
          \<and> (\<forall>app \<in> inside s pid. Enter pid app \<in> set later)))"
proof (intro conjI impI)
  assume "rk_step prompt (Look pid True) s s'"
  then show "inside s pid = {}"
    using housed_run [OF assms] by (auto simp: housed_def elim!: rk_lookE dest: look_alone)
next
  assume "rk_step prompt (Leave pid) s s'"
  then show "\<exists>later earlier. es = later @ Look pid True # earlier \<and> Look pid True \<notin> set later
      \<and> (\<forall>app \<in> inside s pid. Enter pid app \<in> set later)"
    using leaving_latecomers [OF assms] by (auto simp: latecomers_def elim!: rk_leaveE)
qed

lemma step_keeps_entry:
  assumes "owned s" and "keyed s" and "step True s t"
    and "procs s pid = Some Running" and "resources (shared s) pid = Some c"
  shows "resources (shared t) pid = Some c"
  using assms(3)
proof cases
  case (registered q cfg r hdr')
  then have "q \<noteq> pid" using assms(1,5) by (force simp: owned_def)
  with registered assms(5) register_table(1) [OF registered(3)] show ?thesis by auto
next
  case (reaped q M w r hdr' w')
  then have "q \<noteq> pid" using assms(4) by auto
  with reaped assms(5) reap_table(1) [OF reaped(5,6)] show ?thesis by auto
qed (use assms(5) in auto)

lemma step_hands_stopped:
  assumes "step prompt s t"
  shows "\<exists>xs. released t = xs @ released s \<and> (\<forall>x \<in> set xs. procs s (fst x) = Some Stopped)"
  using assms
proof cases
  case (reaped q M w r hdr' w')
  then show ?thesis by (auto simp: handed_def split: option.splits)
qed auto

text \<open>
  C8: Nothing is released under a running program. With prompt registration, as long as a program is in the
  namespace of a registered guard, the guard runs, and no step of any thread, guard or client takes its entry from
  the table; and whatever is handed to a release, in this or any step, is the rocker of a guard that has stopped
  and has nobody in its namespace.
\<close>

theorem rocker_in_use_kept:
  assumes "rk_run True es s" and "rk_step True e s s'"
    and "app \<in> inside s pid" and "resources (shared (srv s)) pid = Some c"
  shows "procs (srv s) pid = Some Running \<and> resources (shared (srv s')) pid = Some c
    \<and> (\<exists>xs. released (srv s') = xs @ released (srv s)
        \<and> (\<forall>(q, d) \<in> set xs. procs (srv s) q = Some Stopped \<and> inside s q = {}))"
proof -
  from housed_run [OF assms(1)] have h: "housed s" .
  with assms(3) have g: "guarded s pid" by (auto simp: housed_def)
  note inv = owned_reachable [OF rk_run_srv [OF assms(1)]] keyed_reachable [OF rk_run_srv [OF assms(1)]]
  have empty: "inside s q = {}" if "procs (srv s) q = Some Stopped" for q
    using h that by (force simp: housed_def)
  from rk_step_srv [OF assms(2)] show ?thesis
  proof
    assume "srv s' = srv s"
    with g assms(4) show ?thesis by auto
  next
    assume st: "step True (srv s) (srv s')"
    have "resources (shared (srv s')) pid = Some c"
      using step_keeps_entry [OF _ inv(2) st g assms(4)] inv(1) by blast
    moreover obtain xs where "released (srv s') = xs @ released (srv s)"
      "\<forall>x \<in> set xs. procs (srv s) (fst x) = Some Stopped" using step_hands_stopped [OF st] by blast
    ultimately show ?thesis using g empty by (intro conjI exI [of _ xs]) auto
  qed
qed

text \<open>Decimal numbers are ASCII.\<close>

lemma utf8_ascii: "\<forall>b \<in> set bs. b < 0x80 \<Longrightarrow> utf8_valid bs"
  by (induction bs rule: utf8_valid.induct) simp_all

lemma show_nat_ascii: "c \<in> set (show_nat n) \<Longrightarrow> (word_of_nat (of_char c) :: u8) < 0x80"
proof (induction n rule: show_nat.induct)
  case (1 n)
  have digit: "(word_of_nat (of_char (digit_char d)) :: u8) < 0x80" if "d < 10" for d
    using that by (simp add: digit_char_def word_less_nat_alt unat_of_nat del: of_nat_add)
  show ?case
  proof (cases "n < 10")
    case True
    with "1.prems" digit show ?thesis by (simp add: show_nat.simps [of n])
  next
    case False
    with "1.prems" have "c \<in> set (show_nat (n div 10)) \<or> c = digit_char (n mod 10)"
      by (auto simp: show_nat.simps [of n])
    with False "1.IH" digit [of "n mod 10"] show ?thesis by auto
  qed
qed

lemma utf8_show_u32 [simp]: "utf8_valid (bytes_of (show_u32 x))"
  by (rule utf8_ascii) (auto simp: bytes_of_def show_u32_def dest: show_nat_ascii)

text \<open>A kernel that lists the processes of a namespace as they are.\<close>

definition proc_view :: "u32 list \<Rightarrow> machine" where
  "proc_view apps = sample\<lparr>m_dir := \<lambda>_ _. Inr (map (\<lambda>app. Inr (show_u32 app, True)) (1 # apps))\<rparr>"

lemma look_proc_view:
  "\<exists>w'. run (guard_running_alone (proc_view apps) :: (core_error, bool) io) w = (Ok (\<forall>app \<in> set apps. app = 1), w')"
proof -
  have "scan_proc (map (\<lambda>app. Inr (show_u32 app, True)) xs) b = Some (b \<and> (\<forall>app \<in> set xs. app = 1))" for xs b
    by (induction xs arbitrary: b) auto
  then show ?thesis
    by (simp add: guard_running_alone_def proc_view_def pnk_def run_bnd run_handle del: scan_proc.simps list.map)
qed

lemma proc_view_shows: "A \<subseteq> set apps \<Longrightarrow> lists_all (proc_view apps) w A"
  unfolding lists_all_def
proof (intro allI impI ballI)
  fix es app
  assume "A \<subseteq> set apps" and "m_dir (proc_view apps) (trace w) (ReadDir ''/proc'') = Inr es" and "app \<in> A"
  then have "Inr (show_u32 app, True) \<in> set es" by (auto simp: proc_view_def)
  then show "\<exists>name. Inr (name, True) \<in> set es \<and> parse_u32 name = Some app" by (intro exI [of _ "show_u32 app"]) simp
qed

text \<open>
  An abandoned rocker is released. With prompt registration, while the releasing worker lives, a registered guard
  that is still watching finds itself alone as soon as nobody is in its namespace and \<open>/proc\<close> shows that, ends, and can then
  be reaped: its configuration is handed to a release, and its entry and its pid are free again. While somebody is
  inside, no look lets it leave.
\<close>

lemma abandoned_rocker_released:
  assumes "rk_run True es s" and "reaper_alive (srv s)" and "procs (srv s) pid = Some Running" and "phase s pid = Watching"
    and "resources (shared (srv s)) pid = Some c"
  shows "if inside s pid = {}
    then \<exists>s1 s2 s3. rk_step True (Look pid True) s s1 \<and> rk_step True (Leave pid) s1 s2 \<and> rk_step True Serve_step s2 s3
      \<and> (pid, c) \<in> set (released (srv s3)) \<and> resources (shared (srv s3)) = (resources (shared (srv s)))(pid := None)
      \<and> procs (srv s3) = (procs (srv s))(pid := None) \<and> reaper_alive (srv s3)
      \<and> inside s1 = inside s \<and> inside s2 = inside s \<and> inside s3 = inside s
    else (\<forall>alone s'. rk_step True (Look pid alone) s s' \<longrightarrow> \<not> alone \<and> phase s' pid = Watching)"
proof (cases "inside s pid = {}")
  case False
  from housed_run [OF assms(1)] have one: "1 \<notin> inside s pid" by (simp add: housed_def)
  have "\<not> alone \<and> phase s' pid = Watching" if "rk_step True (Look pid alone) s s'" for alone s'
    using that False one by (cases alone) (auto elim!: rk_lookE dest: look_alone)
  then show ?thesis unfolding if_not_P [OF False] by blast
next
  case True
  let ?s1 = "s\<lparr>phase := (phase s)(pid := Leaving)\<rparr>"
  let ?s2 = "guard_ends pid ?s1"
  obtain w' where "run (guard_running_alone (proc_view []) :: (core_error, bool) io) start = (Ok True, w')"
    using look_proc_view [of "[]" start] by auto
  from looked [OF assms(3,4) _ this, of True] True proc_view_shows
  have look: "rk_step True (Look pid True) s ?s1" by simp
  have leave: "rk_step True (Leave pid) ?s1 ?s2"
    by (rule left) (simp_all add: assms(3))
  from run_further [OF run_further [OF assms(1) look] leave] have r2: "reachable True (srv ?s2)" by (rule rk_run_srv)
  have "awaits (srv ?s2) pid c" using assms(5) by (simp add: awaits_def guard_ends_def)
  with reap_enabled [OF _ keyed_reachable [OF r2], of pid c] owned_reachable [OF r2] assms(2)
  obtain t where t: "step True (srv ?s2) t" "(pid, c) \<in> set (released t)" "reaper_alive t"
    "resources (shared t) = (resources (shared (srv ?s2)))(pid := None)" "procs t = (procs (srv ?s2))(pid := None)"
    by (auto simp: guard_ends_def)
  have "procs t q = Some Running" if "guarded ?s2 q" for q
    using that t(5) by (auto simp: guard_ends_def split: if_splits)
  with t(1) obtain s3 where reap: "rk_step True Serve_step ?s2 s3" "srv s3 = t" "inside s3 = inside ?s2"
    using served by fastforce
  have "resources (shared t) = (resources (shared (srv s)))(pid := None)" "procs t = (procs (srv s))(pid := None)"
    "inside ?s2 = inside s"
    using t(4,5) True by (simp_all add: guard_ends_def fun_upd_idem)
  with look leave reap t(2,3) show ?thesis
    unfolding if_P [OF True] by (intro exI [of _ ?s1] exI [of _ ?s2] exI [of _ s3]) simp
qed

section \<open>A late guest\<close>

text \<open>One registered guard with one program in its namespace, and the same rocker abandoned.\<close>

definition one_rocker :: "u32 set \<Rightarrow> rockers" where
  "one_rocker A = rockers_init\<lparr>srv := one_started\<lparr>pending := [],
     shared := \<lparr>poisoned = False, resources = [4242 \<mapsto> started_cfg]\<rparr>\<rparr>, inside := (\<lambda>_. {})(4242 := A)\<rparr>"

lemma served_prompt_free:
  assumes "step prompt (srv s) t" and "\<And>pid. guarded s pid \<Longrightarrow> procs t pid = Some Running"
    and "phase s = (\<lambda>_. Watching)"
  shows "rk_step prompt Serve_step s (s\<lparr>srv := t\<rparr>)"
proof -
  have "s\<lparr>srv := t, phase := \<lambda>pid. if procs (srv s) pid = None then Watching else phase s pid\<rparr> = s\<lparr>srv := t\<rparr>"
    using assms(3) by (cases s) (simp add: fun_eq_iff)
  with served [OF assms(1,2)] show ?thesis by simp
qed

lemma one_rocker_steps:
  "rk_step prompt Serve_step rockers_init (rockers_init\<lparr>srv := one_started\<rparr>)"
  "rk_step prompt Serve_step (rockers_init\<lparr>srv := one_started\<rparr>) (one_rocker {})"
proof -
  note defs = one_started_def sys_init_def empty_hdr_def rockers_init_def
  let ?s1 = "rockers_init\<lparr>srv := one_started\<rparr>"
  obtain w' where "run (init live sample_cfg) start = (Ok started_cfg, w')" using init_started by blast
  from step.started [OF this, of 4242 sys_init prompt] have "step prompt (srv rockers_init) one_started"
    by (simp add: defs started_cfg_def)
  then show "rk_step prompt Serve_step rockers_init ?s1"
    by (rule served_prompt_free) (simp_all add: defs)
  have "step prompt (srv ?s1) (srv (one_rocker {}))"
    using step.registered [of 4242 started_cfg one_started _ _ prompt, OF _ prod.collapse [symmetric]]
    by (simp add: one_rocker_def defs registe_resource_def)
  then have "rk_step prompt Serve_step ?s1 (?s1\<lparr>srv := srv (one_rocker {})\<rparr>)"
    by (rule served_prompt_free) (simp_all add: one_rocker_def defs split: if_splits)
  moreover have "?s1\<lparr>srv := srv (one_rocker {})\<rparr> = one_rocker {}"
    by (simp add: one_rocker_def rockers_init_def fun_eq_iff)
  ultimately show "rk_step prompt Serve_step ?s1 (one_rocker {})" by metis
qed

lemma one_rocker_run: "rk_run prompt [Serve_step, Serve_step] (one_rocker {})"
  by (rule run_further [OF run_further [OF run_start one_rocker_steps(1)] one_rocker_steps(2)])

lemma one_rocker_enter: "rk_step prompt (Enter 4242 2) (one_rocker {}) (one_rocker {2})"
  by (simp add: rk_enter_iff one_rocker_def one_started_def)

lemmas one_rocker_used = run_further [OF one_rocker_run one_rocker_enter]

definition late_guest :: rockers where
  "late_guest = one_rocker {2}\<lparr>phase := (\<lambda>_. Watching)(4242 := Leaving)\<rparr>"

lemma late_guest_run: "rk_run prompt [Enter 4242 2, Look 4242 True, Serve_step, Serve_step] late_guest"
proof -
  let ?s = "one_rocker {}\<lparr>phase := (\<lambda>_. Watching)(4242 := Leaving)\<rparr>"
  obtain w' where "run (guard_running_alone (proc_view []) :: (core_error, bool) io) start = (Ok True, w')"
    using look_proc_view [of "[]" start] by auto
  from looked [OF _ _ _ this, of "one_rocker {}" 4242 prompt] have "rk_step prompt (Look 4242 True) (one_rocker {}) ?s"
    by (simp add: one_rocker_def one_started_def rockers_init_def lists_all_def)
  with one_rocker_run have r: "rk_run prompt [Look 4242 True, Serve_step, Serve_step] ?s" by (rule run_further)
  have "rk_step prompt (Enter 4242 2) ?s late_guest"
    by (simp add: rk_enter_iff late_guest_def one_rocker_def one_started_def)
  with r show ?thesis by (rule run_further)
qed

lemma late_guest_leave: "rk_step prompt (Leave 4242) late_guest (guard_ends 4242 late_guest)"
  by (rule left) (simp_all add: late_guest_def one_rocker_def one_started_def)

theorem guard_leaves_empty_witness:
  "\<exists>s later earlier. rk_run True (later @ Look 4242 True # earlier) s \<and> inside s 4242 = {2} \<and> Enter 4242 2 \<in> set later"
proof -
  have i: "inside late_guest 4242 = {2}" by (simp add: late_guest_def one_rocker_def)
  from guard_leaves_empty [OF late_guest_run [of True], where pid = 4242 and s' = "guard_ends 4242 late_guest"] late_guest_leave [of True]
  obtain later earlier where "[Enter 4242 2, Look 4242 True, Serve_step, Serve_step] = later @ Look 4242 True # earlier"
    and "\<forall>app \<in> inside late_guest 4242. Enter 4242 app \<in> set later" by blast
  with late_guest_run [of True] show ?thesis
    using i by (intro exI [of _ late_guest] exI [of _ later] exI [of _ earlier]) simp
qed

text \<open>
  A program that enters between the guard's last look and its end is killed with it, although its server has the
  rocker registered and every call has succeeded.
\<close>

lemma late_guest_killed:
  "\<exists>s s'. rk_run True [Enter 4242 2, Look 4242 True, Serve_step, Serve_step] s \<and> inside s 4242 = {2}
     \<and> resources (shared (srv s)) 4242 = Some started_cfg \<and> rk_step True (Leave 4242) s s' \<and> inside s' 4242 = {}"
  using late_guest_run late_guest_leave
  by (intro exI [of _ late_guest] exI [of _ "guard_ends 4242 late_guest"] conjI)
    (auto simp: late_guest_def one_rocker_def one_started_def guard_ends_def)

text \<open>
  A guard that cannot read \<open>/proc\<close>, for want of a descriptor, say, panics instead of waiting, and takes
  the programs in its namespace along.
\<close>

lemma failed_look_kills:
  "\<exists>s'. rk_step True (Look_fails 4242) (one_rocker {2}) s' \<and> inside s' 4242 = {} \<and> procs (srv s') 4242 = Some Stopped"
proof -
  let ?K = "sample\<lparr>m_dir := \<lambda>_ _. Inl 24\<rparr>"
  let ?w = "emit (ReadDir ''/proc'') (RErr 24) start"
  obtain w1 where "run (p ?K :: (core_error, unit) io) ?w = (Ok (), w1)"
    using p_returns [of ?K ?w] by auto
  then have "run (guard_running_alone ?K :: (core_error, bool) io) start = (Panic, w1)"
    by (simp add: guard_running_alone_def pnk_def pdie_def run_bnd run_handle seq_def)
  from look_failed [OF _ _ _ this, of "one_rocker {2}" 4242 True]
  have "rk_step True (Look_fails 4242) (one_rocker {2}) (guard_ends 4242 (one_rocker {2}))"
    by (simp add: one_rocker_def one_started_def rockers_init_def lists_all_def)
  then show ?thesis by (auto simp: guard_ends_def)
qed

theorem rocker_in_use_kept_witness:
  "\<exists>es s s'. rk_run True es s \<and> rk_step True (Enter 4242 3) s s' \<and> inside s 4242 = {2}
     \<and> procs (srv s) 4242 = Some Running \<and> resources (shared (srv s')) 4242 = Some started_cfg"
proof -
  let ?s = "one_rocker {2}"
  let ?s' = "?s\<lparr>inside := (inside ?s)(4242 := insert 3 (inside ?s 4242))\<rparr>"
  have st: "rk_step True (Enter 4242 3) ?s ?s'"
    by (simp add: rk_enter_iff one_rocker_def one_started_def)
  have "2 \<in> inside ?s 4242" "resources (shared (srv ?s)) 4242 = Some started_cfg" by (simp_all add: one_rocker_def)
  note kept = rocker_in_use_kept [OF one_rocker_used st this]
  have "inside ?s 4242 = {2}" by (simp add: one_rocker_def)
  with kept st one_rocker_used show ?thesis by blast
qed

lemma abandoned_rocker_released_instance:
  "\<exists>s1 s2 s3. rk_step True (Look 4242 True) (one_rocker {}) s1 \<and> rk_step True (Leave 4242) s1 s2
     \<and> rk_step True Serve_step s2 s3 \<and> (4242, started_cfg) \<in> set (released (srv s3))"
proof -
  have e: "inside (one_rocker {}) 4242 = {}" by (simp add: one_rocker_def)
  from abandoned_rocker_released [OF one_rocker_run, of 4242 started_cfg] show ?thesis
    unfolding if_P [OF e] by (auto simp: one_rocker_def one_started_def sys_init_def rockers_init_def)
qed

end
