(* ===== verification/Rk_Fair.thy ===== *)
theory Rk_Fair
  imports Rk_Rocker
begin

text \<open>
  What happens to a rocker in the end: endless runs of the system of \<open>Rk_Rocker\<close>, in which a guard that waits looks
  again and again (the loop of \<open>guard_ops\<close> has no way out but an empty namespace), a guard that leaves ends, and the
  releasing worker, while it lives, waits for every stopped guard in turn.
\<close>

section \<open>Endless runs\<close>

text \<open>An event, or nothing, at each moment.\<close>

definition rk_trace :: "bool \<Rightarrow> (nat \<Rightarrow> rockers) \<Rightarrow> (nat \<Rightarrow> rk_event option) \<Rightarrow> bool" where
  "rk_trace prompt \<sigma> ev \<longleftrightarrow> \<sigma> 0 = rockers_init
     \<and> (\<forall>i. case ev i of None \<Rightarrow> \<sigma> (Suc i) = \<sigma> i | Some e \<Rightarrow> rk_step prompt e (\<sigma> i) (\<sigma> (Suc i)))"

definition looks :: "i32 \<Rightarrow> rk_event option \<Rightarrow> bool" where
  "looks pid e \<longleftrightarrow> e \<in> {Some (Look pid True), Some (Look pid False), Some (Look_fails pid), Some (Look_hangs pid)}"

text \<open>The guard is scheduled, and its kernel shows an empty namespace as empty.\<close>

definition fair_guard :: "(nat \<Rightarrow> rockers) \<Rightarrow> (nat \<Rightarrow> rk_event option) \<Rightarrow> i32 \<Rightarrow> bool" where
  "fair_guard \<sigma> ev pid \<longleftrightarrow>
     (\<forall>i. guarded (\<sigma> i) pid \<longrightarrow> phase (\<sigma> i) pid = Watching \<longrightarrow> (\<exists>j \<ge> i. looks pid (ev j) \<or> \<not> guarded (\<sigma> j) pid))
     \<and> (\<forall>i. guarded (\<sigma> i) pid \<longrightarrow> phase (\<sigma> i) pid = Leaving \<longrightarrow> (\<exists>j \<ge> i. \<not> guarded (\<sigma> j) pid))"

definition sighted :: "(nat \<Rightarrow> rockers) \<Rightarrow> (nat \<Rightarrow> rk_event option) \<Rightarrow> i32 \<Rightarrow> bool" where
  "sighted \<sigma> ev pid \<longleftrightarrow> (\<forall>i. ev i = Some (Look pid False) \<longrightarrow> inside (\<sigma> i) pid \<noteq> {})
     \<and> (\<forall>i. ev i \<notin> {Some (Look_fails pid), Some (Look_hangs pid)})"

text \<open>A registered guard that has stopped is waited for, as long as somebody waits.\<close>

definition fair_reaper :: "(nat \<Rightarrow> rockers) \<Rightarrow> i32 \<Rightarrow> bool" where
  "fair_reaper \<sigma> pid \<longleftrightarrow> (\<forall>i. procs (srv (\<sigma> i)) pid = Some Stopped \<longrightarrow> resources (shared (srv (\<sigma> i))) pid \<noteq> None \<longrightarrow>
     (\<exists>j \<ge> i. procs (srv (\<sigma> j)) pid \<noteq> Some Stopped \<or> \<not> reaper_alive (srv (\<sigma> j))))"

lemma rk_trace_event:
  assumes "rk_trace prompt \<sigma> ev" and "ev i = Some e"
  shows "rk_step prompt e (\<sigma> i) (\<sigma> (Suc i))"
proof -
  from assms(1) have "case ev i of None \<Rightarrow> \<sigma> (Suc i) = \<sigma> i | Some e \<Rightarrow> rk_step prompt e (\<sigma> i) (\<sigma> (Suc i))"
    unfolding rk_trace_def by blast
  with assms(2) show ?thesis by simp
qed

lemma rk_trace_next:
  assumes "rk_trace prompt \<sigma> ev"
  shows "\<sigma> (Suc i) = \<sigma> i \<or> (\<exists>e. ev i = Some e \<and> rk_step prompt e (\<sigma> i) (\<sigma> (Suc i)))"
proof (cases "ev i")
  case None
  from assms have "case ev i of None \<Rightarrow> \<sigma> (Suc i) = \<sigma> i | Some e \<Rightarrow> rk_step prompt e (\<sigma> i) (\<sigma> (Suc i))"
    unfolding rk_trace_def by blast
  with None show ?thesis by simp
qed (use assms rk_trace_event in blast)

lemma rk_trace_reached:
  assumes "rk_trace prompt \<sigma> ev"
  shows "\<exists>es. rk_run prompt es (\<sigma> i)"
proof (induction i)
  case 0
  from assms have "\<sigma> 0 = rockers_init" by (simp add: rk_trace_def)
  with run_start show ?case by metis
next
  case (Suc i)
  with rk_trace_next [OF assms, of i] run_further show ?case by metis
qed

lemma rk_trace_srv: "rk_trace prompt \<sigma> ev \<Longrightarrow> reachable prompt (srv (\<sigma> i))"
  using rk_trace_reached rk_run_srv by blast

lemma rk_trace_srv_next:
  "rk_trace prompt \<sigma> ev \<Longrightarrow> srv (\<sigma> (Suc i)) = srv (\<sigma> i) \<or> step prompt (srv (\<sigma> i)) (srv (\<sigma> (Suc i)))"
  using rk_trace_next [of prompt \<sigma> ev i] rk_step_srv by metis

section \<open>From the last program to the release\<close>

definition occupied :: "rockers \<Rightarrow> i32 \<Rightarrow> rocker_cfg \<Rightarrow> bool" where
  "occupied s pid c \<longleftrightarrow> guarded s pid \<and> phase s pid \<noteq> Hung \<and> resources (shared (srv s)) pid = Some c"

definition over :: "rockers \<Rightarrow> i32 \<Rightarrow> rocker_cfg \<Rightarrow> bool" where
  "over s pid c \<longleftrightarrow> awaits (srv s) pid c \<or> (pid, c) \<in> set (released (srv s))"

lemma step_running: "step prompt s t \<Longrightarrow> procs s pid = Some Running \<Longrightarrow> procs t pid \<in> {Some Running, Some Stopped}"
  by (erule stepE) auto

lemma occupied_next:
  assumes "rk_trace True \<sigma> ev" and "sighted \<sigma> ev pid" and "occupied (\<sigma> i) pid c"
  shows "occupied (\<sigma> (Suc i)) pid c \<or> over (\<sigma> (Suc i)) pid c"
proof -
  note reach = rk_trace_srv [OF assms(1), of i]
  from assms(3) have o: "guarded (\<sigma> i) pid" "phase (\<sigma> i) pid \<noteq> Hung" "resources (shared (srv (\<sigma> i))) pid = Some c"
    by (auto simp: occupied_def)
  have entry: "resources (shared (srv (\<sigma> (Suc i)))) pid = Some c"
    using rk_trace_srv_next [OF assms(1), of i] step_keeps_entry [OF _ keyed_reachable [OF reach] _ o(1,3)]
      owned_reachable [OF reach] o(3) by metis
  have "phase (\<sigma> (Suc i)) pid \<noteq> Hung"
    using rk_trace_next [OF assms(1), of i]
  proof
    assume "\<exists>e. ev i = Some e \<and> rk_step True e (\<sigma> i) (\<sigma> (Suc i))"
    then obtain e where e: "ev i = Some e" "rk_step True e (\<sigma> i) (\<sigma> (Suc i))" by blast
    with assms(2) have "e \<noteq> Look_hangs pid" by (auto simp: sighted_def)
    with e(2) o(2) show ?thesis by cases (auto simp: guard_ends_def)
  qed (use o(2) in simp)
  moreover have "procs (srv (\<sigma> (Suc i))) pid \<in> {Some Running, Some Stopped}"
    using rk_trace_srv_next [OF assms(1), of i] step_running o(1) by auto
  ultimately show ?thesis using entry by (auto simp: occupied_def over_def awaits_def)
qed

lemma released_stays: "step prompt s t \<Longrightarrow> x \<in> set (released s) \<Longrightarrow> x \<in> set (released t)"
  using step_hands_stopped by fastforce

lemma over_next:
  assumes "rk_trace True \<sigma> ev" and "over (\<sigma> i) pid c"
  shows "over (\<sigma> (Suc i)) pid c"
proof -
  note reach = rk_trace_srv [OF assms(1), of i]
  show ?thesis
    using rk_trace_srv_next [OF assms(1), of i] awaits_step [OF _ keyed_reachable [OF reach], of pid c]
      owned_reachable [OF reach] released_stays assms(2) unfolding over_def by metis
qed

lemma over_later:
  assumes "rk_trace True \<sigma> ev" and "over (\<sigma> i) pid c" and "i \<le> j"
  shows "over (\<sigma> j) pid c"
  using assms(3) by (induction j rule: dec_induct) (auto intro: over_next [OF assms(1)] assms(2))

lemma occupied_later:
  assumes "rk_trace True \<sigma> ev" and "sighted \<sigma> ev pid" and "occupied (\<sigma> i) pid c" and "i \<le> j"
  shows "occupied (\<sigma> j) pid c \<or> over (\<sigma> j) pid c"
  using assms(4)
proof (induction j rule: dec_induct)
  case (step n)
  with occupied_next [OF assms(1,2)] over_next [OF assms(1)] show ?case by blast
qed (use assms(3) in simp)

lemma leaving_ends:
  assumes "rk_trace True \<sigma> ev" and "sighted \<sigma> ev pid" and "fair_guard \<sigma> ev pid"
    and "occupied (\<sigma> i) pid c" and "phase (\<sigma> i) pid = Leaving"
  shows "\<exists>j \<ge> i. over (\<sigma> j) pid c"
proof -
  from assms(3-5) obtain j where j: "j \<ge> i" "\<not> guarded (\<sigma> j) pid"
    unfolding fair_guard_def occupied_def by blast
  with occupied_later [OF assms(1,2,4) j(1)] have "over (\<sigma> j) pid c" by (auto simp: occupied_def)
  with j(1) show ?thesis by blast
qed

lemma abandoned_ends:
  assumes "rk_trace True \<sigma> ev" and "sighted \<sigma> ev pid" and "fair_guard \<sigma> ev pid"
    and "occupied (\<sigma> i) pid c" and empty: "\<And>j. i \<le> j \<Longrightarrow> inside (\<sigma> j) pid = {}"
  shows "\<exists>j \<ge> i. over (\<sigma> j) pid c"
proof (cases "phase (\<sigma> i) pid")
  case Leaving
  with leaving_ends [OF assms(1-4)] show ?thesis by blast
next
  case Watching
  with assms(3,4) obtain j where j: "j \<ge> i" "looks pid (ev j) \<or> \<not> guarded (\<sigma> j) pid"
    unfolding fair_guard_def occupied_def by blast
  show ?thesis
  proof (cases "over (\<sigma> j) pid c \<or> over (\<sigma> (Suc j)) pid c")
    case True
    with j(1) show ?thesis by (meson le_SucI)
  next
    case False
    with occupied_later [OF assms(1,2,4)] j(1) have o: "occupied (\<sigma> j) pid c" "occupied (\<sigma> (Suc j)) pid c"
      by (meson le_SucI)+
    with j(2) have "looks pid (ev j)" by (auto simp: occupied_def)
    with assms(2) empty [OF j(1)] have "ev j = Some (Look pid True)" by (auto simp: looks_def sighted_def)
    from rk_trace_event [OF assms(1) this] have "phase (\<sigma> (Suc j)) pid = Leaving" by (auto elim: rk_lookE)
    from leaving_ends [OF assms(1-3) o(2) this] j(1) show ?thesis by (meson Suc_leD le_trans)
  qed
qed (use assms(4) in \<open>simp add: occupied_def\<close>)


section \<open>A run that ends\<close>

definition played :: "rockers list \<Rightarrow> nat \<Rightarrow> rockers" where
  "played xs i = xs ! min i (length xs - 1)"

definition events_of :: "rk_event list \<Rightarrow> nat \<Rightarrow> rk_event option" where
  "events_of es i = (if i < length es then Some (es ! i) else None)"

lemma played_trace:
  assumes "xs ! 0 = rockers_init" and "length xs = Suc (length es)"
    and "\<And>i. i < length es \<Longrightarrow> rk_step prompt (es ! i) (xs ! i) (xs ! Suc i)"
  shows "rk_trace prompt (played xs) (events_of es)"
proof -
  have "case events_of es i of None \<Rightarrow> played xs (Suc i) = played xs i
      | Some e \<Rightarrow> rk_step prompt e (played xs i) (played xs (Suc i))" for i
    using assms(2) assms(3) [of i] by (cases "i < length es") (simp_all add: played_def events_of_def min_def)
  then show ?thesis using assms(1) by (simp add: rk_trace_def played_def)
qed


end
