(* ===== verification/Rk_Guardname.thy ===== *)
theory Rk_Guardname
  imports Rk_Client
begin

text \<open>
  The name of a process as a client reads it: \<open>get_process_name\<close> of \<open>librocker_client/src/utils.c\<close>,
  \<open>ROCKER_get_guardname\<close> of \<open>lib.c\<close> and the wrapper's \<open>get_guardname\<close>. The files of \<open>/proc\<close> are
  an argument: what \<open>fopen\<close> finds under a path. A failed assertion ends the calling process, as \<open>Panic\<close>.
\<close>

section \<open>Scanning in C\<close>

text \<open>\<open>isspace\<close> and the conversions of \<open>fscanf\<close> the source uses: \<open>%*d\<close>, a blank, a literal and \<open>%15s\<close>.\<close>

definition c_space :: "u8 \<Rightarrow> bool" where
  "c_space b \<longleftrightarrow> b = 32 \<or> 9 \<le> b \<and> b \<le> 13"

definition c_digit :: "u8 \<Rightarrow> bool" where
  "c_digit b \<longleftrightarrow> 48 \<le> b \<and> b \<le> 57"

definition scan_int :: "bytes \<Rightarrow> bytes option" where
  "scan_int bs =
     (let t = dropWhile c_space bs;
          t = (case t of s # r \<Rightarrow> if s = 43 \<or> s = 45 then r else t | [] \<Rightarrow> t)
      in if takeWhile c_digit t = [] then None else Some (dropWhile c_digit t))"

definition scan_word :: "nat \<Rightarrow> bytes \<Rightarrow> bytes option" where
  "scan_word n bs =
     (let t = take n (takeWhile (\<lambda>b. \<not> c_space b) (dropWhile c_space bs)) in if t = [] then None else Some t)"

definition fscanf_stat :: "bytes \<Rightarrow> bytes option" where
  "fscanf_stat bs = (case scan_int bs of
       None \<Rightarrow> None
     | Some t \<Rightarrow> (case dropWhile c_space t of
         c # r \<Rightarrow> if c = 40 then scan_word 15 r else None
       | [] \<Rightarrow> None))"

section \<open>The name of a process\<close>

definition get_process_name :: "(path \<Rightarrow> bytes option) \<Rightarrow> i32 \<Rightarrow> bytes \<Rightarrow> (unit, bytes) outcome" where
  "get_process_name proc pid buf = (case proc (''/proc/'' @ show_i32 pid @ ''/stat'') of
       None \<Rightarrow> Err ()
     | Some f \<Rightarrow> (case fscanf_stat f of
         None \<Rightarrow> Err ()
       | Some word \<Rightarrow>
           let buf = word @ 0 # drop (Suc (length word)) buf;
               reslen = length (c_text buf)
           in if \<not> 1 < reslen then Panic
              else Ok (if buf ! (reslen - 1) = 41 then buf[reslen - 1 := 0] else buf)))"

definition ROCKER_get_guardname :: "(path \<Rightarrow> bytes option) \<Rightarrow> i32 \<Rightarrow> (unit, metal_result) outcome" where
  "ROCKER_get_guardname proc pid =
     (let jr = Rocker_result_new\<lparr>rs_guard_pid := pid\<rparr>
      in case get_process_name proc pid (rs_guard_pname jr) of
           Ok buf \<Rightarrow> Ok (jr\<lparr>rs_guard_pname := buf\<rparr>)
         | Err e \<Rightarrow> Ok (jr\<lparr>err_no := ROCKER_ERR_get_guardname_failed\<rparr>)
         | Panic \<Rightarrow> Panic
         | Diverge \<Rightarrow> Diverge)"

definition get_guardname :: "(path \<Rightarrow> bytes option) \<Rightarrow> u32 \<Rightarrow> (wrapper_error, string) outcome" where
  "get_guardname proc pid = (case ROCKER_get_guardname proc pid of
       Ok res \<Rightarrow> (case res_convert res of
           Inl e \<Rightarrow> Err e
         | Inr res \<Rightarrow> (case result_name (rs_guard_pname res) of Inl e \<Rightarrow> Err e | Inr name \<Rightarrow> Ok name))
     | Err e \<Rightarrow> Err WUnknown
     | Panic \<Rightarrow> Panic
     | Diverge \<Rightarrow> Diverge)"

section \<open>Reading what the kernel shows\<close>

text \<open>
  \<open>proc(5)\<close>: the status line starts with the pid in decimal, a blank and the name of the process in
  parentheses.
\<close>

definition stat_line :: "i32 \<Rightarrow> bytes \<Rightarrow> bytes \<Rightarrow> bytes" where
  "stat_line pid comm rest = bytes_of (show_i32 pid) @ [32, 40] @ comm @ [41, 32] @ rest"

lemma digit_char_byte: "d < 10 \<Longrightarrow> bytes_of [digit_char d] = [word_of_nat (48 + d)]"
  by (simp add: bytes_of_def digit_char_def)

lemma show_nat_digits: "\<forall>b \<in> set (bytes_of (show_nat n)). c_digit b"
proof (induction n rule: show_nat.induct)
  case (1 n)
  have dig: "c_digit (word_of_nat (48 + d))" if "d < 10" for d
  proof -
    have "unat (word_of_nat (48 + d) :: u8) = 48 + d"
      using that by (simp only: unsigned_of_nat) (simp add: take_bit_nat_eq_self)
    with that show ?thesis by (simp add: c_digit_def word_le_nat_alt del: of_nat_add)
  qed
  show ?case
  proof (cases "n < 10")
    case True
    with dig [of n] show ?thesis by (subst show_nat.simps) (simp only: if_True digit_char_byte, simp)
  next
    case False
    with 1 dig [of "n mod 10"] show ?thesis
      by (subst show_nat.simps) (simp only: if_False bytes_of_append digit_char_byte, simp add: digit_char_byte)
  qed
qed


lemma c_digit_plain: "c_digit b \<Longrightarrow> \<not> c_space b \<and> b \<noteq> 43 \<and> b \<noteq> 45"
  by (auto simp: c_digit_def c_space_def word_le_nat_alt)

lemma scan_int_digits:
  assumes "\<forall>b \<in> set ds. c_digit b" and "ds \<noteq> []" and "\<not> c_digit x"
  shows "scan_int (ds @ x # r) = Some (x # r)" and "scan_int (45 # ds @ x # r) = Some (x # r)"
proof -
  obtain d ds' where ds: "ds = d # ds'" using assms(2) by (cases ds) auto
  have d: "\<not> c_space d" "d \<noteq> 43" "d \<noteq> 45" "c_digit d" using c_digit_plain assms(1) ds by auto
  have tk: "takeWhile c_digit (ds @ x # r) = ds" "dropWhile c_digit (ds @ x # r) = x # r"
    using assms(1,3) by (simp_all add: takeWhile_append2 dropWhile_append2)
  show "scan_int (ds @ x # r) = Some (x # r)"
    using d tk ds assms(2) by (simp add: scan_int_def)
  have "\<not> c_space 45" by (simp add: c_space_def word_le_nat_alt)
  then show "scan_int (45 # ds @ x # r) = Some (x # r)"
    using tk assms(2) by (simp add: scan_int_def)
qed

lemma scan_int_pid: "\<not> c_digit x \<Longrightarrow> scan_int (bytes_of (show_i32 pid) @ x # r) = Some (x # r)"
proof -
  assume x: "\<not> c_digit x"
  have ne: "bytes_of (show_nat n) \<noteq> []" for n by (simp add: bytes_of_def)
  note digits = scan_int_digits [OF show_nat_digits ne x]
  have "bytes_of (CHR ''-'' # s) = 45 # bytes_of s" for s by (simp add: bytes_of_def)
  then show ?thesis using digits by (simp add: show_i32_def)
qed

lemma fscanf_stat_line: "fscanf_stat (stat_line pid comm rest) = scan_word 15 (comm @ [41, 32] @ rest)"
proof -
  have x: "\<not> c_digit 32" "c_space 32" "\<not> c_space 40"
    by (simp_all add: c_digit_def c_space_def word_le_nat_alt)
  then have "scan_int (stat_line pid comm rest) = Some (32 # 40 # comm @ [41, 32] @ rest)"
    unfolding stat_line_def using scan_int_pid [OF x(1)] by simp
  with x show ?thesis by (simp add: fscanf_stat_def)
qed

lemma scan_word_Some:
  assumes "scan_word n bs = Some w"
  shows "w \<noteq> []" and "\<forall>b \<in> set w. \<not> c_space b" and "length w \<le> n"
  using assms by (auto simp: scan_word_def Let_def split: if_splits dest!: in_set_takeD set_takeWhileD)

lemma scan_word_name:
  assumes "scan_word n (comm @ [41, 32] @ rest) = Some w"
  shows "set w \<subseteq> set comm \<union> {41}"
proof -
  have sp: "c_space 32" "\<not> c_space 41" by (simp_all add: c_space_def word_le_nat_alt)
  have "set (takeWhile (\<lambda>b. \<not> c_space b) (dropWhile c_space (xs @ 41 # 32 # rest))) \<subseteq> set xs \<union> {41}" for xs
    using sp by (induction xs) (auto dest: set_takeWhileD simp: takeWhile_append)
  from this [of comm] assms show ?thesis
    by (auto simp: scan_word_def Let_def split: if_splits dest!: in_set_takeD)
qed

text \<open>What is left in the buffer: the scanned word, without a parenthesis at its end.\<close>

lemma close_buffer:
  assumes "0 \<notin> set w" and "1 < length w"
    and "b' = (let b = w @ 0 # r in if b ! (length w - 1) = 41 then b[length w - 1 := 0] else b)"
  shows "c_text b' = (if last w = 41 then butlast w else w)"
proof -
  have ne: "w \<noteq> []" using assms(2) by auto
  then have "(w @ 0 # r) ! (length w - 1) = last w"
    by (simp add: nth_append last_conv_nth)
  moreover have "(w @ 0 # r)[length w - 1 := 0] = butlast w @ 0 # 0 # r"
    using ne by (cases w rule: rev_cases) (auto simp: list_update_append)
  moreover have "c_text (butlast w @ 0 # 0 # r) = butlast w" "c_text (w @ 0 # r) = w"
    using assms(1) by (auto intro!: c_text_stop dest: in_set_butlastD)
  ultimately show ?thesis using assms(3) by (simp add: Let_def)
qed

lemma get_process_name_word:
  assumes "proc (''/proc/'' @ show_i32 pid @ ''/stat'') = Some (stat_line pid comm rest)" and "0 \<notin> set comm"
  shows "case scan_word 15 (comm @ [41, 32] @ rest) of
      None \<Rightarrow> get_process_name proc pid buf = Err ()
    | Some w \<Rightarrow> if length w \<le> 1 then get_process_name proc pid buf = Panic
        else \<exists>b. get_process_name proc pid buf = Ok b \<and> c_text b = (if last w = 41 then butlast w else w)"
proof (cases "scan_word 15 (comm @ [41, 32] @ rest)")
  case None
  with assms(1) show ?thesis by (simp add: get_process_name_def fscanf_stat_line)
next
  case (Some w)
  have no: "0 \<notin> set w" using scan_word_name [OF Some] assms(2) by auto
  have run: "get_process_name proc pid buf =
      (let b = w @ 0 # drop (Suc (length w)) buf; n = length (c_text b)
       in if \<not> 1 < n then Panic else Ok (if b ! (n - 1) = 41 then b[n - 1 := 0] else b))"
    unfolding get_process_name_def using assms(1) by (simp only: option.case fscanf_stat_line Some)
  have len: "length (c_text (w @ 0 # drop (Suc (length w)) buf)) = length w" using no by (simp add: c_text_stop)
  show ?thesis
  proof (cases "length w \<le> 1")
    case True
    with run len Some show ?thesis by (simp add: Let_def)
  next
    case False
    define b where "b = (let b = w @ 0 # drop (Suc (length w)) buf in if b ! (length w - 1) = 41 then b[length w - 1 := 0] else b)"
    have "get_process_name proc pid buf = Ok b" using run len False by (simp add: Let_def b_def)
    with close_buffer [OF no _ b_def] False Some show ?thesis by simp
  qed
qed


section \<open>What a client learns of a name\<close>

lemma c_space_ne: "c_space 32" "\<not> c_space 41" "\<not> c_space 1"
  by (simp_all add: c_space_def word_le_nat_alt)

lemma scan_plain_name:
  assumes "comm \<noteq> []" and "length comm \<le> 15" and "\<forall>b \<in> set comm. \<not> c_space b"
  shows "scan_word 15 (comm @ [41, 32] @ rest) = Some (take 15 (comm @ [41]))"
proof -
  have "dropWhile c_space (comm @ [41, 32] @ rest) = comm @ [41, 32] @ rest"
    using assms(1,3) by (cases comm) auto
  moreover have "takeWhile (\<lambda>b. \<not> c_space b) (comm @ [41, 32] @ rest) = comm @ [41]"
    using assms(3) c_space_ne by (simp add: takeWhile_append)
  ultimately show ?thesis using assms(1) by (simp add: scan_word_def)
qed

lemma get_guardname_Ok:
  assumes "get_process_name proc pid (replicate 16 0) = Ok b"
  shows "get_guardname proc pid = Ok (chars_of (utf8_lossy (c_text b)))"
  using assms by (simp add: get_guardname_def ROCKER_get_guardname_def Rocker_result_new_def res_convert_def
      result_name_eq Let_def)

text \<open>
  Reading a process name. A name of one to fifteen bytes without blanks, which does not end in a parenthesis,
  is returned as it is; but a name whose first word is a single byte, such as ``a b'', does not
  give an error: the assertion on its length ends the calling process.
\<close>

lemma process_name_read:
  assumes "proc (''/proc/'' @ show_i32 pid @ ''/stat'') = Some (stat_line pid comm rest)" and "0 \<notin> set comm"
  shows "(comm \<noteq> [] \<and> length comm \<le> 15 \<and> (\<forall>b \<in> set comm. \<not> c_space b) \<and> last comm \<noteq> 41
        \<longrightarrow> get_guardname proc pid = Ok (chars_of (utf8_lossy comm)))
    \<and> (\<forall>x ys. comm = x # 32 # ys \<and> \<not> c_space x \<longrightarrow> get_guardname proc pid = Panic)"
proof (intro conjI impI allI)
  note word = get_process_name_word [where proc = proc and pid = pid and comm = comm and rest = rest
      and buf = "replicate 16 0", OF assms]
  assume c: "comm \<noteq> [] \<and> length comm \<le> 15 \<and> (\<forall>b \<in> set comm. \<not> c_space b) \<and> last comm \<noteq> 41"
  define w where "w = take 15 (comm @ [41])"
  have w: "length comm = 15 \<and> w = comm \<or> w = comm @ [41]" using c by (auto simp: w_def)
  then have len: "1 < length w" using c by auto
  have "scan_word 15 (comm @ [41, 32] @ rest) = Some w"
    unfolding w_def by (rule scan_plain_name) (use c in auto)
  with word len obtain b where b: "get_process_name proc pid (replicate 16 0) = Ok b"
    and t: "c_text b = (if last w = 41 then butlast w else w)" by auto
  from t w c have "c_text b = comm" by auto
  with get_guardname_Ok [OF b] show "get_guardname proc pid = Ok (chars_of (utf8_lossy comm))" by simp
next
  note word = get_process_name_word [where proc = proc and pid = pid and comm = comm and rest = rest
      and buf = "replicate 16 0", OF assms]
  fix x ys
  assume "comm = x # 32 # ys \<and> \<not> c_space x"
  then have "scan_word 15 (comm @ [41, 32] @ rest) = Some [x]" using c_space_ne by (simp add: scan_word_def)
  with word have "get_process_name proc pid (replicate 16 0) = Panic" by simp
  then show "get_guardname proc pid = Panic"
    by (simp add: get_guardname_def ROCKER_get_guardname_def Rocker_result_new_def)
qed

lemma process_name_read_instance:
  "get_guardname (\<lambda>q. Some (stat_line 7 [97, 32, 98] [])) 7 = Panic"
  using process_name_read [of "\<lambda>q. Some (stat_line 7 [97, 32, 98] [])" 7 "[97, 32, 98]" "[]"]
  by (auto simp: c_space_def word_le_nat_alt)

text \<open>The reported text, and the name the guard really has: where the first ends the second goes on.\<close>

lemma take_15: "n \<le> 8 \<Longrightarrow> take (15 - n) (x # xs) = x # take (14 - n) xs"
proof -
  assume "n \<le> 8"
  then have "15 - n = Suc (14 - n)" by arith
  then show ?thesis by simp
qed

lemma guard_name_longer:
  assumes "c < 2 ^ 64"
  obtains zs where "c_text (guard_name_bytes be (word_of_nat c)) = c_text (u128_to_ne_bytes be (word_of_nat c)) @ 1 # zs"
    and "length (c_text (u128_to_ne_bytes be (word_of_nat c))) \<le> 8"
proof -
  let ?bs = "u128_to_ne_bytes be (word_of_nat c)" and ?f = "\<lambda>b::u8. if b = 0 then 1 else b"
  define R where "R = c_text ?bs"
  have len: "length R \<le> 8" unfolding R_def by (rule length_c_text_usize [OF assms])
  have "R @ dropWhile (\<lambda>b. b \<noteq> 0) ?bs = ?bs" unfolding R_def c_text_def by (rule takeWhile_dropWhile_id)
  then have all: "?bs = R @ dropWhile (\<lambda>b. b \<noteq> 0) ?bs" by (rule sym)
  have "dropWhile (\<lambda>b. b \<noteq> 0) ?bs \<noteq> []"
  proof
    assume "dropWhile (\<lambda>b. b \<noteq> 0) ?bs = []"
    with all have "length R = length ?bs" by simp
    with len show False by simp
  qed
  then obtain ys where "dropWhile (\<lambda>b. b \<noteq> 0) ?bs = 0 # ys"
    using hd_dropWhile [of "\<lambda>b. b \<noteq> 0" ?bs] by (cases "dropWhile (\<lambda>b. b \<noteq> 0) ?bs") auto
  with all have split: "?bs = R @ 0 # ys" by simp
  have "map ?f R = R"
    by (rule map_idI) (auto simp: R_def c_text_def dest: set_takeWhileD)
  then have "c_text (guard_name_bytes be (word_of_nat c)) = R @ 1 # map ?f (take (14 - length R) ys)"
    using len unfolding guard_name_text split by (simp add: take_15 [OF len])
  with len show ?thesis using that by (simp add: R_def)
qed

text \<open>
  C33: The check the client is told to make always fails. For every counter value of a 64-bit
  program, when \<open>/proc\<close> shows the guard under the name it gave itself, whatever \<open>ROCKER_get_guardname\<close>
  then reads is not the name reported with the rocker, with which the client is to compare it before
  it signals the guard.
\<close>

theorem guard_check_fails:
  assumes "c < 2 ^ 64"
    and "proc (''/proc/'' @ show_i32 pid @ ''/stat'')
      = Some (stat_line pid (c_text (guard_name_bytes be (word_of_nat c))) rest)"
    and "ROCKER_get_guardname proc pid = Ok res" and "err_no res = ROCKER_ERR_success"
  shows "c_text (rs_guard_pname res) \<noteq> c_text (u128_to_ne_bytes be (word_of_nat c))"
proof
  let ?R = "c_text (u128_to_ne_bytes be (word_of_nat c))" and ?comm = "c_text (guard_name_bytes be (word_of_nat c))"
  assume eq: "c_text (rs_guard_pname res) = ?R"
  obtain zs where comm: "?comm = ?R @ 1 # zs" by (rule guard_name_longer [OF assms(1)])
  have "0 \<notin> set ?comm" by (auto simp: c_text_def dest: set_takeWhileD)
  note word = get_process_name_word [where proc = proc and pid = pid and comm = ?comm and rest = rest
      and buf = "replicate 16 0", OF assms(2) this]
  obtain b where b: "get_process_name proc pid (replicate 16 0) = Ok b" and res: "rs_guard_pname res = b"
    using assms(3,4) by (auto simp: ROCKER_get_guardname_def Rocker_result_new_def Let_def rocker_err_defs
        split: outcome.splits)
  then obtain w where w: "scan_word 15 (?comm @ [41, 32] @ rest) = Some w" "1 < length w"
    and t: "c_text b = (if last w = 41 then butlast w else w)"
    using word by (auto split: option.splits if_splits)
  from t eq res have R: "?R = (if last w = 41 then butlast w else w)" by simp
  then have "set ?R \<subseteq> set w" by (auto dest: in_set_butlastD)
  have ne: "?R \<noteq> []" using R w(2) by (cases w rule: rev_cases) (auto split: if_splits)
  have nsp: "\<forall>b \<in> set ?R. \<not> c_space b" using scan_word_Some(2) [OF w(1)] \<open>set ?R \<subseteq> set w\<close> by blast
  have "dropWhile c_space (?comm @ [41, 32] @ rest) = ?R @ 1 # zs @ [41, 32] @ rest"
    using ne nsp unfolding comm by (cases ?R) auto
  moreover obtain us where "takeWhile (\<lambda>b. \<not> c_space b) (?R @ 1 # zs @ [41, 32] @ rest) = ?R @ 1 # us"
    using nsp c_space_ne by (simp add: takeWhile_append)
  moreover have "length ?R \<le> 8" by (rule length_c_text_usize [OF assms(1)])
  ultimately obtain vs where wv: "w = ?R @ 1 # vs"
    using w(1) by (auto simp: scan_word_def Let_def take_15 split: if_splits)
  have len: "length w = Suc (length ?R + length vs)" using arg_cong [OF wv, of length] by simp
  show False
  proof (cases "last w = 41")
    case True
    with R have "length ?R = length w - 1" using arg_cong [of ?R "butlast w" length] by simp
    with len w(2) have "length vs = 0" by linarith
    then have "vs = []" by simp
    with wv True show False using arg_cong [OF wv, of last] by simp
  next
    case False
    with R have "length ?R = length w" using arg_cong [of ?R w length] by simp
    with len show False by simp
  qed
qed


theorem guard_check_fails_witness:
  "\<exists>res. ROCKER_get_guardname (\<lambda>q. Some (stat_line 7 (c_text (guard_name_bytes False 18446744073709551615)) [])) 7
       = Ok res \<and> err_no res = ROCKER_ERR_success
     \<and> c_text (rs_guard_pname res) \<noteq> c_text (u128_to_ne_bytes False 18446744073709551615)"
proof -
  let ?comm = "c_text (guard_name_bytes False 18446744073709551615)"
  let ?proc = "\<lambda>q. Some (stat_line 7 ?comm [])"
  have "u128_to_ne_bytes False 18446744073709551615 = le_bytes 8 18446744073709551615 @ replicate 8 0"
    using u128_bytes_of_usize [of 18446744073709551615 False] by simp
  also have "le_bytes 8 18446744073709551615 = [0xFF, 0xFF, 0xFF, 0xFF, 0xFF, 0xFF, 0xFF, 0xFF]"
    by (simp add: le_bytes_numeral)
  finally have comm: "?comm = [0xFF, 0xFF, 0xFF, 0xFF, 0xFF, 0xFF, 0xFF, 0xFF] @ replicate 7 1"
    unfolding guard_name_text by simp
  have "\<not> c_space 0xFF" by (simp add: c_space_def word_le_nat_alt)
  then have sw: "scan_word 15 (?comm @ [41, 32] @ []) = Some (take 15 (?comm @ [41]))"
    using c_space_ne by (intro scan_plain_name) (auto simp: comm)
  have "0 \<notin> set ?comm" by (simp add: comm)
  from get_process_name_word [where proc = ?proc and pid = 7 and comm = ?comm and rest = "[]" and buf = "replicate 16 0", OF _ this] sw
  obtain b where "get_process_name ?proc 7 (replicate 16 0) = Ok b" by (auto simp: comm)
  then have run: "ROCKER_get_guardname ?proc 7 = Ok (Rocker_result_new\<lparr>rs_guard_pid := 7, rs_guard_pname := b\<rparr>)"
    by (simp add: ROCKER_get_guardname_def Rocker_result_new_def)
  have "c_text (rs_guard_pname (Rocker_result_new\<lparr>rs_guard_pid := 7, rs_guard_pname := b\<rparr>))
      \<noteq> c_text (u128_to_ne_bytes False 18446744073709551615)"
    using guard_check_fails [of 18446744073709551615 ?proc 7 False "[]", OF _ _ run]
    by (simp add: Rocker_result_new_def)
  with run show ?thesis by (auto simp: Rocker_result_new_def)
qed

end
