(* ===== verification/Rk_Chain.thy ===== *)
theory Rk_Chain
  imports Rk_Client
begin

text \<open>
  Error chains: the macros \<open>d!\<close>, \<open>errgen!\<close> and \<open>exit!\<close> of \<open>core/src/utils/macros.rs\<close>, the
  wrappers \<open>errgen_sys!\<close> and \<open>d_sys!\<close> of \<open>core/src/utils/mod.rs\<close>, and the test macro \<open>expected_err!\<close> of the client wrapper, which digs
  the kind of an error out of its chain. The type of the chains and \<open>.c\<close>, which puts a message
  on top of an error, are the documented ones of the error-chain crate (\<open>Error\<close> with its \<open>ErrorKind\<close> or message and its cause; \<open>chain_err\<close>).
  The other theories name an error by the root of its chain; the lemmas here are what makes that enough.
\<close>

section \<open>Chains\<close>

text \<open>An error of the crate itself, with its cause, or an error of another type.\<close>

datatype 'k ekind = Kind 'k | Msg string

datatype 'k chain = Chain "'k ekind" "'k chain option" | Foreign string

definition error_from :: "'k \<Rightarrow> 'k chain" where
  "error_from k = Chain (Kind k) None"

definition chain_err :: "string \<Rightarrow> 'k chain \<Rightarrow> 'k chain" where
  "chain_err msg e = Chain (Msg msg) (Some e)"

text \<open>The text of \<open>d!\<close>: a message in red or three dots, then the file and the line, behind box characters in UTF-8.\<close>

definition esc :: "string \<Rightarrow> string" where
  "esc s = CHR 0x1B # CHR ''['' # s @ ''m''"

definition branch_mid :: string where
  "branch_mid = [CHR 0xE2, CHR 0x94, CHR 0x9C, CHR 0xE2, CHR 0x94, CHR 0x80, CHR 0xE2, CHR 0x94, CHR 0x80]"

definition branch_end :: string where
  "branch_end = [CHR 0xE2, CHR 0x94, CHR 0x94, CHR 0xE2, CHR 0x94, CHR 0x80, CHR 0xE2, CHR 0x94, CHR 0x80]"

definition d_text :: "string option \<Rightarrow> string \<Rightarrow> nat \<Rightarrow> string" where
  "d_text x file line =
     (case x of None \<Rightarrow> ''...'' | Some m \<Rightarrow> esc ''31'' @ m @ esc ''00'')
     @ CHR 0x0A # branch_mid @ '' '' @ esc ''01'' @ ''file:'' @ esc ''00'' @ '' '' @ file
     @ CHR 0x0A # branch_end @ '' '' @ esc ''01'' @ ''line:'' @ esc ''00'' @ '' '' @ show_nat line"

definition errgen :: "'k \<Rightarrow> string option \<Rightarrow> string \<Rightarrow> nat \<Rightarrow> 'k chain" where
  "errgen k x file line = chain_err (d_text x file line) (error_from k)"

text \<open>With the kernel's text for the last error number; the table of texts is the library's.\<close>

definition errgen_sys :: "(errno \<Rightarrow> string) \<Rightarrow> errno \<Rightarrow> 'k \<Rightarrow> string \<Rightarrow> nat \<Rightarrow> 'k chain" where
  "errgen_sys desc e k file line = errgen k (Some (desc e)) file line"

definition d_sys :: "(errno \<Rightarrow> string) \<Rightarrow> errno \<Rightarrow> string \<Rightarrow> nat \<Rightarrow> string" where
  "d_sys desc e file line = d_text (Some (desc e)) file line"

text \<open>\<open>exit!\<close>: the message a thread panics with.\<close>

definition exit_text :: "string option \<Rightarrow> string \<Rightarrow> nat \<Rightarrow> string" where
  "exit_text x file line = (case x of None \<Rightarrow> [] | Some m \<Rightarrow> d_text (Some m) file line)"

section \<open>Looking into a chain\<close>

definition chain_kind :: "'k chain \<Rightarrow> 'k ekind option" where
  "chain_kind e = (case e of Chain k _ \<Rightarrow> Some k | Foreign s \<Rightarrow> None)"

fun chain_root :: "'k chain \<Rightarrow> 'k chain" where
  "chain_root (Chain k (Some e)) = chain_root e"
| "chain_root e = e"

text \<open>
  \<open>expected_err!\<close>: the first error of the chain, its source (a panic without one), and whether that is an error of the
  crate with the given kind.
\<close>

fun expected_err :: "'k \<Rightarrow> 'k chain \<Rightarrow> (unit, bool) outcome" where
  "expected_err k (Chain x (Some (Chain y e))) = Ok (y = Kind k)"
| "expected_err k (Chain x (Some (Foreign s))) = Ok False"
| "expected_err k (Chain x None) = Panic"
| "expected_err k (Foreign s) = Panic"

section \<open>Programs with chains\<close>

text \<open>\<open>ops.c(d!())\<close>, and a program whose errors are cut to their roots.\<close>

definition with_c :: "string \<Rightarrow> ('k chain, 'a) io \<Rightarrow> ('k chain, 'a) io" where
  "with_c msg ops = map_err (chain_err msg) ops"

definition rooted :: "('k chain, 'a) io \<Rightarrow> ('k chain, 'a) io" where
  "rooted ops = map_err chain_root ops"

lemma root_chain_err [simp]: "chain_root (chain_err msg e) = chain_root e"
  by (simp add: chain_err_def)

lemma root_errgen [simp]: "chain_root (errgen k x file line) = error_from k"
  by (simp add: errgen_def error_from_def)

lemma root_root [simp]: "chain_root (chain_root e) = chain_root e"
  by (induction e rule: chain_root.induct) auto

lemma run_rooted: "run (rooted m) w = (case run m w of (Err e, w') \<Rightarrow> (Err (chain_root e), w') | (Ok a, w') \<Rightarrow> (Ok a, w')
     | (Panic, w') \<Rightarrow> (Panic, w') | (Diverge, w') \<Rightarrow> (Diverge, w'))"
  by (auto simp: rooted_def map_err_def run_handle split: prod.splits outcome.splits)

lemma run_with_c: "run (with_c msg m) w = (case run m w of (Err e, w') \<Rightarrow> (Err (chain_err msg e), w') | (Ok a, w') \<Rightarrow> (Ok a, w')
     | (Panic, w') \<Rightarrow> (Panic, w') | (Diverge, w') \<Rightarrow> (Diverge, w'))"
  by (auto simp: with_c_def map_err_def run_handle split: prod.splits outcome.splits)


section \<open>The errors of the client wrapper\<close>

text \<open>The chain that \<open>enter_rocker\<close> returns for a root: a string with a NUL is an error of another type.\<close>

definition wrapper_chain :: "string \<Rightarrow> nat \<Rightarrow> wrapper_error \<Rightarrow> wrapper_error chain" where
  "wrapper_chain file line e =
     (if e = WNul then chain_err (d_text None file line) (Foreign ''NulError'')
      else if e = WCStr then chain_err (d_text None file line) (Foreign ''FromBytesWithNulError'')
      else errgen e None file line)"

text \<open>
  The kind of a client error. When \<open>enter_rocker\<close> fails with a code of the C library, the kind is not at the top of the chain,
  where there is always a message, but one level below, where the repository's tests look for it: \<open>expected_err!\<close> then answers whether
  it is that kind, for every kind, and it never panics, whichever error \<open>enter_rocker\<close> returns.
\<close>

lemma client_error_kind:
  assumes "enter_rocker be bits env r = Inl e"
  shows "(\<forall>k. chain_kind (wrapper_chain file line e) \<noteq> Some (Kind k))
    \<and> (\<forall>k. expected_err k (wrapper_chain file line e) = Ok (k = e \<and> e \<noteq> WNul))"
proof -
  have "e \<noteq> WCStr"
    using assms by (auto simp: enter_rocker_def metal_request_of_def res_convert_def result_name_eq Let_def
        split: option.splits sum.splits if_splits)
  then show ?thesis
    by (auto simp: wrapper_chain_def errgen_def error_from_def chain_err_def chain_kind_def)
qed

lemma client_error_kind_instance:
  "enter_rocker False 64 \<lparr>ce_pipe = True, ce_fork = True, ce_pipe_full = True, ce_genaddr = True,
      ce_autobound = True, ce_sendmsg = \<lambda>_. False, ce_recv_fd = None, ce_setns = \<lambda>_. True, ce_clone = 5\<rparr>
     rocker_request_new = Inl RockerSendReq
   \<and> expected_err RockerSendReq (wrapper_chain ''mod.rs'' 111 RockerSendReq) = Ok True"
proof -
  let ?env = "\<lparr>ce_pipe = True, ce_fork = True, ce_pipe_full = True, ce_genaddr = True,
      ce_autobound = True, ce_sendmsg = \<lambda>_. False, ce_recv_fd = None, ce_setns = \<lambda>_. True, ce_clone = 5\<rparr>"
  have e: "enter_rocker False 64 ?env rocker_request_new = Inl RockerSendReq"
    by (simp add: enter_rocker_def metal_request_of_def rocker_request_new_def ROCKER_enter_rocker_def
        ROCKER_enter_rocker_inner_def Rocker_result_new_def res_convert_def rocker_err_defs Let_def)
  from client_error_kind [OF e, of "''mod.rs''" 111] e show ?thesis by simp
qed

end
