(* ===== verification/Rk_Tests.thy ===== *)
theory Rk_Tests
  imports Rk_Service Rk_Guardname Rk_Chain
begin

text \<open>
  The repository's own tests, as programs over the model: the test modules of \<open>core/src/utils/mod.rs\<close>,
  \<open>core/src/loop/mod.rs\<close>, \<open>core/src/master.rs\<close>, \<open>rocker_server/src/main.rs\<close> and the reading of a process name in
  \<open>client_ffi/mod.rs\<close>. A failing assertion or \<open>unwrap\<close> is a panic, so a test passes when its program
  returns. The theorems say on which kernels it does; hypotheses on a kernel are what the tests themselves need from the system they run on.
\<close>

section \<open>Assertions\<close>

definition assert_that :: "bool \<Rightarrow> ('e, unit) io" where
  "assert_that b = (if b then ret () else panic)"

definition unwrap :: "('e, 'a) io \<Rightarrow> ('f, 'a) io" where
  "unwrap m = handle m (\<lambda>_. panic)"

definition ignored :: "('e, 'a) io \<Rightarrow> ('f, unit) io" where
  "ignored m = handle (bnd (map_err (\<lambda>_. ()) m) (\<lambda>_. ret ())) (\<lambda>_. ret ())"

definition is_err :: "('e, 'a) io \<Rightarrow> ('f, bool) io" where
  "is_err m = handle (bnd (map_err (\<lambda>_. ()) m) (\<lambda>_. ret False)) (\<lambda>_. ret True)"

definition fs_unit :: "machine \<Rightarrow> syscall \<Rightarrow> unit core_io" where
  "fs_unit M call = bnd (sys_unit M call) (from_res IoErr)"

lemma run_assert [simp]: "run (assert_that b) w = (if b then Ok () else Panic, w)"
  by (simp add: assert_that_def)

lemma run_unwrap_Ok [simp]: "run m w = (Ok a, w') \<Longrightarrow> run (unwrap m) w = (Ok a, w')"
  by (simp add: unwrap_def)

lemma run_pnk_Ok [simp]: "run m w = (Ok a, w') \<Longrightarrow> run (pnk M m) w = (Ok a, w')"
  by (simp add: pnk_def)

lemma run_is_err [simp]:
  "run m w = (Err e, w') \<Longrightarrow> run (is_err m) w = (Ok True, w')"
  "run m w = (Ok a, w') \<Longrightarrow> run (is_err m) w = (Ok False, w')"
  by (simp_all add: is_err_def map_err_def)

lemma run_ignored_sys [simp]:
  "run (ignored (fs_unit M call)) w = (Ok (), emit call (res_reply (\<lambda>_. RUnit) (m_unit M (trace w) call)) w)"
  by (cases "m_unit M (trace w) call") (simp_all add: ignored_def fs_unit_def map_err_def)

lemma run_fs_unit [simp]:
  "m_unit M (trace w) call = Inr () \<Longrightarrow> run (fs_unit M call) w = (Ok (), emit call RUnit w)"
  by (simp add: fs_unit_def)

section \<open>utils/mod.rs\<close>

definition TEST_unix_dgram_socketpair :: "machine \<Rightarrow> unit core_io" where
  "TEST_unix_dgram_socketpair M =
     bnd (unwrap (unix_dgram_socketpair M)) (\<lambda>(fd1, fd2).
     let send_buf = replicate 10240 100; recv_buf = replicate 10240 0 in
     seq (unwrap (bnd (sys_num M (Send fd1 send_buf)) (from_res Nix)))
    (bnd (unwrap (bnd (sys_data M (Recv fd2 (length recv_buf))) (from_res Nix))) (\<lambda>got.
       for_each (\<lambda>i. assert_that (100 = i)) (fill recv_buf got))))"

definition mount_rbind :: "machine \<Rightarrow> path \<Rightarrow> path \<Rightarrow> unit core_io" where
  "mount_rbind M src dst = mountx M (Some src) dst None {MS_BIND, MS_REC, MS_UNBINDABLE} None"

definition TEST_mount :: "machine \<Rightarrow> unit core_io" where
  "TEST_mount M =
     (let dst_dir = ''/tmp/.xxxdirxxx'' in
      seq (pnk M (fs_unit M (CreateDirAll dst_dir)))
     (seq (pnk M (mount_rbind M ''/var'' dst_dir))
     (seq (pnk M (bnd (sys_unit M (Umount dst_dir)) (from_res Nix)))
          (pnk M (fs_unit M (RemoveDirAll dst_dir))))))"

definition TEST_pdie :: "machine \<Rightarrow> unit core_io" where
  "TEST_pdie M =
     bnd (handle (bnd (file_open M ''/_*!@#$%^&()_+'') (\<lambda>_. panic)) (\<lambda>e. ret ())) (\<lambda>_. pdie M)"

lemma for_each_assert: "\<forall>x \<in> set xs. P x \<Longrightarrow> run (for_each (\<lambda>x. assert_that (P x)) xs) w = (Ok (), w)"
  by (induction xs) (auto simp: assert_that_def)

text \<open>The pair of sockets carries a datagram of 10240 bytes, if the kernel delivers what is sent on one end at the other.\<close>

lemma TEST_unix_dgram_socketpair_passes:
  assumes "\<And>t. m_pair M t Socketpair = Inr (fd1, fd2)"
    and "\<And>t. m_num M t (Send fd1 bs) = Inr (int (length bs))"
    and "\<And>t n. m_data M (t @ [Ev (Send fd1 bs) (RNum (int (length bs)))]) (Recv fd2 n) = Inr (take n bs)"
    and "bs = replicate 10240 100"
  shows "\<exists>w'. run (TEST_unix_dgram_socketpair M) w = (Ok (), w')"
proof -
  define w1 where "w1 = emit Socketpair (RPair fd1 fd2) w"
  define w2 where "w2 = emit (Send fd1 bs) (RNum (int (length bs))) w1"
  have pair: "run (unwrap (unix_dgram_socketpair M)) w = (Ok (fd1, fd2), w1)"
    using assms(1) by (simp add: unix_dgram_socketpair_def w1_def)
  have send: "run (unwrap (bnd (sys_num M (Send fd1 bs)) (from_res Nix))) w1 = (Ok (int (length bs)), w2)"
    using assms(2) by (simp add: w2_def)
  have recv: "run (unwrap (bnd (sys_data M (Recv fd2 (length bs))) (from_res Nix))) w2
      = (Ok bs, emit (Recv fd2 (length bs)) (RData bs) w2)"
    using assms(3) [of "trace w1" "length bs"] by (simp add: w2_def)
  have len: "length (replicate 10240 0 :: bytes) = length bs" using assms(4) by simp
  have filled: "fill (replicate 10240 0) bs = bs"
    using fill_exact [of bs "replicate 10240 0"] assms(4) by simp
  have all: "run (for_each (\<lambda>i. assert_that (100 = i)) bs) v = (Ok (), v)" for v
    using assms(4) by (intro for_each_assert) simp
  show ?thesis
    unfolding TEST_unix_dgram_socketpair_def assms(4) [symmetric] Let_def len
    by (rule exI, simp only: run_bnd seq_def pair send recv prod.case outcome.case filled all)
qed

lemma TEST_mount_calls:
  assumes "\<And>t q. m_unit M t q = Inr ()"
  shows "\<exists>w'. run (TEST_mount M) w = (Ok (), w') \<and> new_calls w w' = [CreateDirAll ''/tmp/.xxxdirxxx'',
      Mount (Some ''/var'') ''/tmp/.xxxdirxxx'' None {MS_BIND, MS_REC, MS_UNBINDABLE} None,
      Umount ''/tmp/.xxxdirxxx'', RemoveDirAll ''/tmp/.xxxdirxxx'']"
  using assms by (simp add: TEST_mount_def mount_rbind_def mountx_def Let_def new_calls_def)

text \<open>The test that must panic does, on any kernel, unless the stack of its logging runs out.\<close>

lemma TEST_pdie_panics: "fst (run (TEST_pdie M) w) = Panic \<or> fst (run (TEST_pdie M) w) = Diverge"
proof -
  obtain r w1 where "run (handle (bnd (file_open M ''/_*!@#$%^&()_+'') (\<lambda>_. panic)) (\<lambda>e. ret ()) :: unit core_io) w = (r, w1)"
    by fastforce
  moreover from this have "r = Panic \<or> r = Ok ()"
    by (cases "m_num M (trace w) (Open RdOnly ''/_*!@#$%^&()_+'')")
      (auto simp: file_open_def run_handle run_bnd split: prod.splits outcome.splits)
  ultimately show ?thesis using pdie_cases [of M w1] by (auto simp: TEST_pdie_def run_bnd)
qed


section \<open>loop/mod.rs\<close>

definition fs_open :: "machine \<Rightarrow> openmode \<Rightarrow> path \<Rightarrow> fd core_io" where
  "fs_open M md q = bnd (sys_num M (Open md q)) (from_res IoErr)"

definition loop_create_fake_pkg :: "machine \<Rightarrow> path \<Rightarrow> fd core_io" where
  "loop_create_fake_pkg M q =
     bnd (unwrap (fs_open M CreatWr q)) (\<lambda>pkg_fp.
     let buf = replicate 10240 96 in
       seq (unwrap (fs_unit M (WriteAll pkg_fp buf))) (ret pkg_fp))"

definition TEST_loop_mgmt :: "machine \<Rightarrow> unit core_io" where
  "TEST_loop_mgmt M =
     bnd (unwrap (get_loop_dev M)) (\<lambda>(loop_dev, loop_id_get).
     bnd (unwrap (from_opt () (parse_i32 (erase ''/dev/loop'' loop_dev)))) (\<lambda>loop_id.
     seq (assert_that (loop_id_get = loop_id))
    (bnd (unwrap (fs_open M RdWr loop_dev)) (\<lambda>loop_fd.
     let pkg_path = ''/tmp/.xxxxPKGxxxx'' in
     bnd (loop_create_fake_pkg M pkg_path) (\<lambda>pkg_fd.
     seq (pnk M (bind_pkg M loop_fd pkg_fd))
    (seq (pnk M (loop_unbind M loop_fd))
    (seq (unwrap (close_fd M loop_fd))
    (seq (unwrap (close_fd M pkg_fd))
    (seq (sleep M 1)
    (seq (pnk M (loop_destroy M loop_id))
         (pnk M (fs_unit M (RemoveFile pkg_path)))))))))))))"

lemma erase_loop_dev [simp]: "erase ''/dev/loop'' (loop_dev_path lid) = show_i32 lid"
  unfolding loop_dev_path_def using show_i32_no_slash by (intro erase_prefix) auto

text \<open>A kernel on which every call succeeds, with the numbers it answers.\<close>

definition willing :: "machine \<Rightarrow> (event list \<Rightarrow> syscall \<Rightarrow> int) \<Rightarrow> bool" where
  "willing M num \<longleftrightarrow> m_unit M = (\<lambda>t c. Inr ()) \<and> m_num M = (\<lambda>t c. Inr (num t c))"

lemma willing_sel [simp]: "willing M num \<Longrightarrow> m_unit M t c = Inr ()" "willing M num \<Longrightarrow> m_num M t c = Inr (num t c)"
  by (simp_all add: willing_def)

text \<open>
  The life of a loop device, as the test of the loop module drives it. On a kernel where every call succeeds the test
  passes: the number read back from the path of the device is the number the kernel gave, and the
  device is bound to the package, unbound, both descriptors are closed, and the device with that number is removed.
\<close>

lemma loop_test_passes:
  assumes "willing M num" and "big = replicate 10240 96"
  shows "\<exists>w' ctl lid loop_fd pkg_fd. run (TEST_loop_mgmt M) w = (Ok (), w')
    \<and> new_calls w w' = (case loop_master w of None \<Rightarrow> [Open RdWr ''/dev/loop-control''] | Some fd \<Rightarrow> [])
      @ [Ioctl ctl LOOP_CTL_GET_FREE 0, Open RdWr (loop_dev_path lid), Open CreatWr ''/tmp/.xxxxPKGxxxx'',
        WriteAll pkg_fd big, Ioctl loop_fd LOOP_SET_FD pkg_fd, Ioctl loop_fd LOOP_CLR_FD 0,
        Close loop_fd, Close pkg_fd, Sleep 1, Ioctl ctl LOOP_CTL_REMOVE (sint lid), RemoveFile ''/tmp/.xxxxPKGxxxx'']
    \<and> loop_master w' = Some ctl"
proof -
  obtain ctl w1 where ctl: "run (LOOP_MASTER M :: fd core_io) w = (Ok ctl, w1)" "loop_master w1 = Some ctl"
    "trace w1 = trace w @ (case loop_master w of None \<Rightarrow> [Ev (Open RdWr ''/dev/loop-control'') (RNum ctl)] | Some fd \<Rightarrow> [])"
    using assms(1) by (cases "loop_master w")
      (auto simp: LOOP_MASTER_def loop_ctl_open_def run_bnd pnk_def run_handle emit_def seq_def)
  have get: "run (get_loop_dev M) w = (Ok (loop_dev_path lid, lid), emit (Ioctl ctl LOOP_CTL_GET_FREE 0) (RNum n) w1)"
    if "n = num (trace w1) (Ioctl ctl LOOP_CTL_GET_FREE 0)" "lid = word_of_int n" for n lid
    using assms(1) ctl that by (simp add: get_loop_dev_def loop_ctl_get_free_def)
  show ?thesis
    unfolding TEST_loop_mgmt_def loop_create_fake_pkg_def assms(2) [symmetric] Let_def
    using assms(1) ctl(2,3) by (cases "loop_master w"; simp add: get [OF refl refl] fs_open_def bind_pkg_def loop_bind_def loop_unbind_def
        metal_loop_unbind_def close_fd_def sleep_def loop_destroy_def loop_ctl_remove_def metal_loop_ctl_remove_def
        new_calls_def run_bnd run_handle unwrap_def pnk_def seq_def emit_def; blast)
qed

lemma willing_sample: "willing sample (\<lambda>t c. projr (sample_num t c))" "willing live (\<lambda>t c. projr (sample_num t c))"
  by (auto simp: willing_def live_def chan_machine_def sample_num_def intro!: ext split: syscall.split)

lemma loop_test_passes_instance: "\<exists>w' fd. run (TEST_loop_mgmt sample) start = (Ok (), w') \<and> loop_master w' = Some fd"
  using loop_test_passes [OF willing_sample(1) refl, of start] by blast


section \<open>rocker_server/src/main.rs\<close>

text \<open>\<open>pnk!(CString::new(s)).into_bytes_with_nul()\<close>, and \<open>(1 + s.len() as u32).to_ne_bytes()\<close>.\<close>

definition with_nul :: "machine \<Rightarrow> string \<Rightarrow> (server_error, bytes) io" where
  "with_nul M s = bnd (pnk M (from_opt () (cstring_new s))) (\<lambda>d. ret (d @ [0]))"

definition size_field :: "bool \<Rightarrow> string \<Rightarrow> bytes" where
  "size_field be s = i32_to_ne_bytes be (1 + word_of_nat (length s))"

definition TEST_req_parse :: "machine \<Rightarrow> (server_error, unit) io" where
  "TEST_req_parse M =
     (let be = big_endian M; aid = 65535; u = 1000; g = 1000;
          pkg = ''/etc/passwd''; exe = ''/tmp''; dat = ''/tmp'';
          overlay_dirs = [''/usr'', ''/lib'', ''/etc'', ''/var'', ''/home''];
          metas = i32_to_ne_bytes be aid @ i32_to_ne_bytes be u @ i32_to_ne_bytes be g
            @ size_field be pkg @ size_field be exe @ size_field be dat
            @ concat (map (\<lambda>i. size_field be (overlay_dirs ! i)) [0..<5])
            @ concat (map (\<lambda>_. i32_to_ne_bytes be 0) [5..<16])
      in bnd (with_nul M pkg) (\<lambda>p1. bnd (with_nul M exe) (\<lambda>p2. bnd (with_nul M dat) (\<lambda>p3.
         bnd (for_collect (\<lambda>i. with_nul M (overlay_dirs ! i)) [0..<5]) (\<lambda>ps.
         let req = metas @ p1 @ p2 @ p3 @ concat ps in
         seq (assert_that (length req - INT_SIZ * 22
                = length pkg + 1 + length exe + 1 + length dat + 1 + sum_list (map (\<lambda>i. 1 + length i) overlay_dirs)))
        (bnd (pnk M (req_parse M req)) (\<lambda>rockercfg.
         seq (assert_that (app_id rockercfg = aid))
        (seq (assert_that (uid rockercfg = u))
        (seq (assert_that (gid rockercfg = Some g))
        (seq (assert_that (app_pkg_path rockercfg = pkg))
        (seq (assert_that (app_exec_dir rockercfg = exe))
        (seq (assert_that (app_data_dir rockercfg = dat))
             (assert_that (app_overlay_dirs rockercfg = overlay_dirs))))))))))))))"

definition TEST_gen_server_socket :: "machine \<Rightarrow> bytes \<Rightarrow> (server_error, unit) io" where
  "TEST_gen_server_socket M uau_addr =
     bnd (pnk M (gen_server_socket M uau_addr)) (\<lambda>fd. pnk M (close_fd M fd))"

text \<open>The address of a peer: \<open>UnixAddr::new_abstract\<close> under \<open>pnk!\<close>.\<close>

definition peer_addr :: "machine \<Rightarrow> bytes \<Rightarrow> (server_error, addr) io" where
  "peer_addr M name = pnk M (if 107 < length name then fail ENAMETOOLONG else ret name)"

definition TEST_send_resp :: "machine \<Rightarrow> bytes \<Rightarrow> (server_error, unit) io" where
  "TEST_send_resp M uau_addr =
     bnd (pnk M (gen_server_socket M uau_addr)) (\<lambda>fd.
     let r = \<lparr>r_guard_pid = 11, r_guard_pname = 11, r_namespace_fds = [0, 1, 2]\<rparr> in
     bnd (peer_addr M uau_addr) (\<lambda>peeraddr.
     seq (pnk M (send_resq M r fd peeraddr))
    (bnd (peer_addr M (replicate 20 0)) (\<lambda>peeraddr.
     bnd (is_err (send_resq M r fd peeraddr)) (\<lambda>failed.
     seq (assert_that failed) (pnk M (close_fd M fd)))))))"

lemma run_with_nul [simp]: "CHR 0x00 \<notin> set s \<Longrightarrow> with_nul M s = ret (path_image s)"
  by (rule io_eqI) (simp add: with_nul_def path_image_def pnk_def)

lemma for_collect_ret: "for_collect (\<lambda>i. ret (h i)) xs = ret (map h xs)"
  by (induction xs) simp_all

definition test_overlays :: "path list" where
  "test_overlays = [''/usr'', ''/lib'', ''/etc'', ''/var'', ''/home'']"

definition test_req :: "bool \<Rightarrow> bytes" where
  "test_req be = req_wire be [65535, 1000, 1000]
     ([Some ''/etc/passwd'', Some ''/tmp'', Some ''/tmp''] @ map Some test_overlays @ replicate 11 None)"

lemma test_paths_ok: "path_ok ''/etc/passwd''" "path_ok ''/tmp''" "path_ok ''/lib''" "path_ok ''/usr''" "path_ok ''/etc''"
    "path_ok ''/var''" "path_ok ''/home''"
  by (simp_all add: path_ok_def bytes_of_def)

lemma test_req_parse:
  assumes "8 \<le> usize_bits M"
  shows "req_parse M (test_req (big_endian M))
    = map_err SrvCore (cfg_new M 65535 1000 (Some 1000) ''/etc/passwd'' ''/tmp'' ''/tmp'' test_overlays)"
proof -
  have "(2 :: nat) ^ 8 \<le> 2 ^ usize_bits M" using assms by (intro power_increasing) simp_all
  then show ?thesis
    using req_parse_layout [of 65535 1000 1000 "''/etc/passwd''" "''/tmp''" "''/tmp''" "map Some test_overlays @ replicate 11 None" M "[]"]
    by (simp add: test_paths_ok test_req_def test_overlays_def)
qed


lemma test_req_layout:
  "i32_to_ne_bytes be 65535 @ i32_to_ne_bytes be 1000 @ i32_to_ne_bytes be 1000
     @ size_field be ''/etc/passwd'' @ size_field be ''/tmp'' @ size_field be ''/tmp''
     @ concat (map (\<lambda>i. size_field be (test_overlays ! i)) [0..<5])
     @ concat (map (\<lambda>_. i32_to_ne_bytes be 0) [5..<16])
     @ path_image ''/etc/passwd'' @ path_image ''/tmp'' @ path_image ''/tmp''
     @ concat (map (\<lambda>i. path_image (test_overlays ! i)) [0..<5]) = test_req be"
proof -
  have over: "map (\<lambda>i. f (test_overlays ! i)) [0..<5] = map f test_overlays" for f :: "path \<Rightarrow> bytes"
    by (simp add: test_overlays_def upt_rec)
  have zeros: "map (\<lambda>_. i32_to_ne_bytes be 0) [5..<16] = map (i32_to_ne_bytes be) (replicate 11 0)"
    by (simp add: upt_rec numeral_eq_Suc)
  have size: "size_field be = (\<lambda>s. i32_to_ne_bytes be (field_size (Some s)))"
    by (rule ext) (simp add: size_field_def field_size_def)
  show ?thesis
    unfolding size over [of "\<lambda>s. i32_to_ne_bytes be (field_size (Some s))"] over [of path_image] zeros test_req_def req_wire_def
    by (simp add: test_overlays_def)
qed

lemma TEST_req_parse_alt:
  "TEST_req_parse M =
     seq (assert_that (length (test_req (big_endian M)) - INT_SIZ * 22 = 48))
       (bnd (pnk M (req_parse M (test_req (big_endian M)))) (\<lambda>cfg.
         seq (assert_that (app_id cfg = 65535))
        (seq (assert_that (uid cfg = 1000))
        (seq (assert_that (gid cfg = Some 1000))
        (seq (assert_that (app_pkg_path cfg = ''/etc/passwd''))
        (seq (assert_that (app_exec_dir cfg = ''/tmp''))
        (seq (assert_that (app_data_dir cfg = ''/tmp''))
             (assert_that (app_overlay_dirs cfg = test_overlays)))))))))"
proof -
  have nul: "for_collect (\<lambda>i. with_nul M (test_overlays ! i)) [0..<5] = ret (map (\<lambda>i. path_image (test_overlays ! i)) [0..<5])"
    by (simp add: test_overlays_def upt_rec)
  have nuls: "with_nul M ''/etc/passwd'' = ret (path_image ''/etc/passwd'')" "with_nul M ''/tmp'' = ret (path_image ''/tmp'')"
    by simp_all
  have len: "length ''/etc/passwd'' + 1 + length ''/tmp'' + 1 + length ''/tmp'' + 1 + sum_list (map (\<lambda>i. 1 + length i) test_overlays) = 48"
    by (simp add: test_overlays_def)
  show ?thesis
    unfolding TEST_req_parse_def test_overlays_def [symmetric] Let_def len append_assoc nul nuls bnd_ret test_req_layout ..
qed


text \<open>
  The parser test passes. On every target and byte order, with a kernel that knows user and group 1000, has a
  directory \<open>/tmp\<close> and a file \<open>/etc/passwd\<close>, the datagram that the test assembles byte by byte is parsed, and
  every field of the configuration is the value that was put in; the kernel is asked for nothing else.
\<close>

lemma req_parse_test_passes:
  assumes "8 \<le> usize_bits M"
    and "\<And>t. m_bool M t (Getpwuid 1000)" and "\<And>t. m_bool M t (Getgrgid 1000)"
    and "\<And>t. m_stat M t (Metadata ''/tmp'') = Inr FDir" and "\<And>t. m_stat M t (Metadata ''/etc/passwd'') = Inr FFile"
  shows "\<exists>w'. run (TEST_req_parse M) w = (Ok (), w')
    \<and> new_calls w w' = [Getpwuid 1000, Getgrgid 1000, Metadata ''/tmp'', Metadata ''/tmp'', Metadata ''/etc/passwd'']"
proof -
  have len: "length (test_req (big_endian M)) - INT_SIZ * 22 = 48"
    by (simp add: test_req_def req_wire_def test_overlays_def length_concat sum_list_replicate INT_SIZ_def)
  show ?thesis
    unfolding TEST_req_parse_alt len test_req_parse [OF assms(1)]
    using assms by (simp add: assert_that_def map_err_def run_handle cfg_new_def check_uid_def check_gid_def check_path_def
        check_dir_def fetch_sub_procname_def run_bnd seq_def Let_def pnk_def emit_def new_calls_def)
qed

lemma req_parse_test_passes_instance:
  "\<exists>w'. run (TEST_req_parse (sample\<lparr>m_stat := \<lambda>t c. Inr (if c = Metadata ''/tmp'' then FDir else FFile)\<rparr>)) start = (Ok (), w')"
proof -
  let ?M = "sample\<lparr>m_stat := \<lambda>t c. Inr (if c = Metadata ''/tmp'' then FDir else FFile)\<rparr>"
  have "\<exists>w'. run (TEST_req_parse ?M) start = (Ok (), w') \<and> new_calls start w' = [Getpwuid 1000, Getgrgid 1000,
      Metadata ''/tmp'', Metadata ''/tmp'', Metadata ''/etc/passwd'']"
    by (rule req_parse_test_passes) simp_all
  then show ?thesis by blast
qed

text \<open>
  The socket tests, where every call of the set-up succeeds: the reply reaches the address of the server itself, and
  not an address nobody is bound to. The socket is closed at the end.
\<close>

lemma run_gen_server_socket:
  assumes "willing M num" and "length a \<le> 107"
  shows "\<exists>w' fd. run (gen_server_socket M a) w = (Ok fd, w')
    \<and> new_calls w w' = [SocketDgram, Setsockopt fd ReuseAddr, Setsockopt fd ReusePort, BindAbstract fd a]"
  using assms by (simp add: gen_server_socket_def new_calls_def)

lemma TEST_gen_server_socket_passes:
  assumes "willing M num" and "length a \<le> 107"
  shows "\<exists>w' fd. run (TEST_gen_server_socket M a) w = (Ok (), w')
    \<and> new_calls w w' = [SocketDgram, Setsockopt fd ReuseAddr, Setsockopt fd ReusePort, BindAbstract fd a, Close fd]"
  using assms by (simp add: TEST_gen_server_socket_def gen_server_socket_def new_calls_def close_fd_def)

fun reply_to :: "syscall \<Rightarrow> addr option" where
  "reply_to (Sendmsg fd ds fds a) = Some a"
| "reply_to c = None"

text \<open>
  The reply test passes. On a kernel that lets the set-up succeed, delivers to the address of the server and to no
  other, the reply to the server's own address is sent and the one to twenty zero bytes is an error that the caller gets;
  both messages carry the pid, the name and the three descriptors in the layout that the client reads, and the socket is closed.
\<close>

lemma send_resp_test_passes:
  assumes "m_num M = (\<lambda>t c. Inr (num t c))" and "length a \<le> 107" and "a \<noteq> replicate 20 0"
    and "m_unit M = (\<lambda>t c. case reply_to c of None \<Rightarrow> Inr () | Some b \<Rightarrow> if b = a then Inr () else Inl e)"
    and "msg = [i32_to_ne_bytes (big_endian M) 11, u128_to_ne_bytes (big_endian M) 11]"
  shows "\<exists>w' fd. run (TEST_send_resp M a) w = (Ok (), w')
    \<and> new_calls w w' = [SocketDgram, Setsockopt fd ReuseAddr, Setsockopt fd ReusePort, BindAbstract fd a,
        Sendmsg fd msg [0, 1, 2] a, Sendmsg fd msg [0, 1, 2] (replicate 20 0), Close fd]"
  using assms by (simp add: TEST_send_resp_def gen_server_socket_def new_calls_def close_fd_def peer_addr_def
      send_resq_def is_err_def map_err_def run_bnd run_handle seq_def pnk_def emit_def assert_that_def Let_def)

lemma send_resp_test_passes_instance:
  "\<exists>w'. run (TEST_send_resp (sample\<lparr>m_num := \<lambda>t c. Inr 3,
      m_unit := \<lambda>t c. case reply_to c of None \<Rightarrow> Inr () | Some b \<Rightarrow> if b = [101] then Inr () else Inl 111\<rparr>) [101]) start = (Ok (), w')"
proof -
  let ?M = "sample\<lparr>m_num := \<lambda>t c. Inr 3,
      m_unit := \<lambda>t c. case reply_to c of None \<Rightarrow> Inr () | Some b \<Rightarrow> if b = [101] then Inr () else Inl 111\<rparr>"
  have "m_num ?M = (\<lambda>t c. Inr 3)" "[101] \<noteq> (replicate 20 0 :: bytes)"
    "m_unit ?M = (\<lambda>t c. case reply_to c of None \<Rightarrow> Inr () | Some b \<Rightarrow> if b = [101] then Inr () else Inl 111)"
    by (simp_all add: numeral_eq_Suc)
  from send_resp_test_passes [OF this(1) _ this(2,3) refl, of start] show ?thesis by auto
qed


section \<open>master.rs\<close>

text \<open>A file system for applications is built by \<open>mksquashfs\<close> from a directory with one file of zeros.\<close>

definition cmd_success :: "machine \<Rightarrow> string list \<Rightarrow> bool core_io" where
  "cmd_success M args = bnd (sys_num M (Command args)) (\<lambda>r. bnd (from_res IoErr r) (\<lambda>status. ret (status = 0)))"

definition master_create_fake_pkg :: "machine \<Rightarrow> path \<Rightarrow> fd core_io" where
  "master_create_fake_pkg M pkg_path =
     (let tmp_dir = ''/tmp/.___XXXX''; app_contents = tmp_dir @ ''/orig'' in
      seq (ignored (fs_unit M (RemoveFile pkg_path)))
     (seq (ignored (fs_unit M (RemoveDirAll pkg_path)))
     (seq (ignored (fs_unit M (RemoveFile tmp_dir)))
     (seq (ignored (fs_unit M (RemoveDirAll tmp_dir)))
     (seq (pnk M (fs_unit M (CreateDirAll tmp_dir)))
     (bnd (unwrap (fs_open M CreatWr app_contents)) (\<lambda>pkg_fp.
      let buf = replicate 1024 0 in
      seq (for_each (\<lambda>_. unwrap (fs_unit M (WriteAll pkg_fp buf))) (replicate 2048 ()))
     (seq (sys_unit M (Close pkg_fp))
     (bnd (pnk M (cmd_success M [''mksquashfs'', tmp_dir, pkg_path])) (\<lambda>status.
      seq (assert_that status) (pnk M (file_open M pkg_path))))))))))))"

definition TEST_pub_interfaces :: "machine \<Rightarrow> unit core_io" where
  "TEST_pub_interfaces M =
     (let aid = 999; u = 1000; g = 1000;
          app_pkg = ''/tmp/.xxxxxx_pkg''; exe_dir = ''/tmp/.xxxxxx_exec''; data_dir = ''/tmp/.xxxxxx_data'';
          overlay_dirs = [''/usr'', ''/etc'', ''/var'']
      in seq (pnk M (fs_unit M (CreateDirAll exe_dir)))
        (seq (pnk M (fs_unit M (CreateDirAll data_dir)))
        (bnd (master_create_fake_pkg M app_pkg) (\<lambda>_.
         bnd (pnk M (cfg_new M aid u (Some g) app_pkg exe_dir data_dir overlay_dirs)) (\<lambda>cfg.
         bnd (pnk M (init M cfg)) (\<lambda>cfg.
         bnd (unwrap (get_guard_pid cfg)) (\<lambda>gpid.
         seq (kill_SIGKILL M gpid)
        (bnd (pnk M (resource_clean M cfg)) (\<lambda>cfg.
         seq (sleep M 1) (pnk M (cfg_loop_destroy M cfg)))))))))))"

lemma for_each_writes:
  assumes "willing M num"
  shows "\<exists>w' es. run (for_each (\<lambda>_. unwrap (fs_unit M (WriteAll fp buf)) :: unit core_io) xs) w = (Ok (), w')
    \<and> trace w' = trace w @ es \<and> map ev_call es = replicate (length xs) (WriteAll fp buf) \<and> loop_master w' = loop_master w"
proof (induction xs arbitrary: w)
  case (Cons x xs)
  have "run (unwrap (fs_unit M (WriteAll fp buf)) :: unit core_io) w = (Ok (), emit (WriteAll fp buf) RUnit w)"
    using assms by (simp add: unwrap_def)
  with Cons [of "emit (WriteAll fp buf) RUnit w"] show ?case by auto
qed simp


lemma recvd_other:
  assumes "map ev_call es = replicate n c" and "\<And>x. c \<noteq> Recv fd x"
  shows "recvd fd es = 0"
proof -
  have "\<forall>e \<in> set es. ev_call e = c"
    using assms(1) by (metis in_set_replicate list.set_map image_eqI)
  then show ?thesis using assms(2) by (auto simp: recvd_def is_recv_def filter_empty_conv split: syscall.splits)
qed

lemma live_fake_pkg:
  assumes "recvd 3 (trace w) = 0"
  shows "\<exists>fd w'. run (master_create_fake_pkg live q) w = (Ok fd, w') \<and> recvd 3 (trace w') = 0"
proof -
  define buf :: bytes where "buf = replicate 1024 0"
  define n where "n = (replicate 2048 () :: unit list)"
  have writes: "\<exists>w' es. run (for_each (\<lambda>_. unwrap (fs_unit live (WriteAll fp buf)) :: unit core_io) n) v = (Ok (), w')
      \<and> trace w' = trace v @ es \<and> recvd 3 es = 0" for fp v
  proof -
    from for_each_writes [OF willing_sample(2), of fp buf n v] obtain v' es
      where "run (for_each (\<lambda>_. unwrap (fs_unit live (WriteAll fp buf)) :: unit core_io) n) v = (Ok (), v')"
        "trace v' = trace v @ es" "map ev_call es = replicate (length n) (WriteAll fp buf)" by blast
    then show ?thesis using recvd_other [of es "length n" "WriteAll fp buf" 3] by auto
  qed
  define w1 where "w1 = emit (CreateDirAll ''/tmp/.___XXXX'') RUnit (emit (RemoveDirAll ''/tmp/.___XXXX'') RUnit
      (emit (RemoveFile ''/tmp/.___XXXX'') RUnit (emit (RemoveDirAll q) RUnit (emit (RemoveFile q) RUnit w))))"
  define fp where "fp = next_fd (trace w1)"
  define w2 where "w2 = emit (Open CreatWr ''/tmp/.___XXXX/orig'') (RNum fp) w1"
  obtain w3 es where w3: "run (for_each (\<lambda>_. unwrap (fs_unit live (WriteAll fp buf)) :: unit core_io) n) w2 = (Ok (), w3)"
    "trace w3 = trace w2 @ es" "recvd 3 es = 0"
    using writes by blast
  have "recvd 3 (trace w3) = 0" using assms w3(2,3) by (simp add: w2_def w1_def is_recv_def)
  moreover have "run (master_create_fake_pkg live q) w
      = run (seq (sys_unit live (Close fp)) (bnd (pnk live (cmd_success live [''mksquashfs'', ''/tmp/.___XXXX'', q])) (\<lambda>status.
          seq (assert_that status) (pnk live (file_open live q))))) w3"
    unfolding master_create_fake_pkg_def Let_def buf_def [symmetric] n_def [symmetric]
    using w3(1) by (simp add: w1_def [symmetric] w2_def [symmetric] fs_open_def fp_def [symmetric])
  ultimately show ?thesis
    by (simp add: cmd_success_def file_open_def is_recv_def)
qed

lemma live_release:
  assumes "guard_loop_id cfg = Some 1"
  shows "\<exists>w'. run (resource_clean live cfg) w = (Ok (cfg\<lparr>guard_stack := None\<rparr>), w')"
    and "\<exists>w'. run (cfg_loop_destroy live cfg) w = (Ok (), w')"
  using assms by (cases "loop_master w"; simp add: resource_clean_def cfg_loop_unbind_def file_open_def loop_unbind_def
      metal_loop_unbind_def info_def close_fd_def map_err_def run_bnd run_handle seq_def Let_def cfg_loop_destroy_def
      loop_destroy_def loop_ctl_remove_def metal_loop_ctl_remove_def LOOP_MASTER_def loop_ctl_open_def sample_num_def pnk_def)+


text \<open>
  The test of the public interface of the core passes on the machine with a live guard: a configuration is accepted,
  its guard set up, killed, and everything it held released.
\<close>

lemma TEST_pub_interfaces_passes:
  assumes "recvd 3 (trace w) = 0"
  shows "\<exists>w'. run (TEST_pub_interfaces live) w = (Ok (), w')"
proof -
  let ?c = "\<lambda>n. \<lparr>app_id = 999, uid = 1000, gid = Some 1000, app_pkg_path = ''/tmp/.xxxxxx_pkg'',
      app_exec_dir = ''/tmp/.xxxxxx_exec'', app_data_dir = ''/tmp/.xxxxxx_data'',
      app_overlay_dirs = [''/usr'', ''/etc'', ''/var''], guard_pid = None, guard_pname = n, guard_stack = None, guard_loop_id = None\<rparr>"
  have new: "\<exists>n v'. run (cfg_new live 999 1000 (Some 1000) ''/tmp/.xxxxxx_pkg'' ''/tmp/.xxxxxx_exec'' ''/tmp/.xxxxxx_data''
      [''/usr'', ''/etc'', ''/var'']) v = (Ok (?c n), v') \<and> recvd 3 (trace v') = recvd 3 (trace v)" for v
    by (simp add: cfg_new_def check_uid_def check_gid_def check_path_def check_dir_def fetch_sub_procname_def
        run_bnd seq_def Let_def is_recv_def)
  define w1 where "w1 = emit (CreateDirAll ''/tmp/.xxxxxx_data'') RUnit (emit (CreateDirAll ''/tmp/.xxxxxx_exec'') RUnit w)"
  have "recvd 3 (trace w1) = 0" using assms by (simp add: w1_def is_recv_def)
  then obtain fd w2 where pkg: "run (master_create_fake_pkg live ''/tmp/.xxxxxx_pkg'') w1 = (Ok fd, w2)" "recvd 3 (trace w2) = 0"
    using live_fake_pkg by blast
  obtain n w3 where cfg: "run (cfg_new live 999 1000 (Some 1000) ''/tmp/.xxxxxx_pkg'' ''/tmp/.xxxxxx_exec''
      ''/tmp/.xxxxxx_data'' [''/usr'', ''/etc'', ''/var'']) w2 = (Ok (?c n), w3)" "recvd 3 (trace w3) = 0"
    using new [of w2] pkg(2) by auto
  define cfg' where "cfg' = (?c n)\<lparr>guard_stack := Some STACK_SIZ, guard_pid := Some 4242, guard_loop_id := Some 1\<rparr>"
  obtain w4 where ini: "run (init live (?c n)) w3 = (Ok cfg', w4)"
    using live_init [OF cfg(2), of "?c n"] unfolding cfg'_def by blast
  define w5 where "w5 = emit (Kill 4242) RUnit w4"
  have pid: "run (get_guard_pid cfg') w4 = (Ok 4242, w4)" "guard_loop_id cfg' = Some 1"
    by (simp_all add: cfg'_def get_guard_pid_def)
  obtain w6 where clean: "run (resource_clean live cfg') w5 = (Ok (cfg'\<lparr>guard_stack := None\<rparr>), w6)"
    using live_release(1) pid(2) by blast
  define w7 where "w7 = emit (Sleep 1) RUnit w6"
  obtain w8 where destroy: "run (cfg_loop_destroy live (cfg'\<lparr>guard_stack := None\<rparr>)) w7 = (Ok (), w8)"
    using live_release(2) [of "cfg'\<lparr>guard_stack := None\<rparr>" w7] pid(2) by auto
  show ?thesis
    unfolding TEST_pub_interfaces_def Let_def
    using pkg(1) cfg(1) ini pid(1) clean destroy
    by (simp add: w1_def [symmetric] w5_def [symmetric] w7_def [symmetric] kill_SIGKILL_def sleep_def del: One_nat_def)
qed


section \<open>client_ffi/mod.rs\<close>

text \<open>\<open>str::contains\<close>, and the test of \<open>get_guardname\<close>: an error ends the process.\<close>

fun contains_str :: "string \<Rightarrow> string \<Rightarrow> bool" where
  "contains_str pat [] = (pat = [])"
| "contains_str pat (c # cs) = (take (length pat) (c # cs) = pat \<or> contains_str pat cs)"

definition TEST_get_guardname :: "machine \<Rightarrow> (path \<Rightarrow> bytes option) \<Rightarrow> u32 \<Rightarrow> (unit, unit) io" where
  "TEST_get_guardname M proc own_pid =
     bnd (pnk M (from_outcome (get_guardname proc own_pid))) (\<lambda>name. assert_that (contains_str ''librocker_client'' name))"

lemma contains_filter: "contains_str pat s \<Longrightarrow> length (filter P pat) \<le> length (filter P s)"
proof (induction s)
  case (Cons c cs)
  show ?case
  proof (cases "take (length pat) (c # cs) = pat")
    case True
    then have "length (filter P (c # cs)) = length (filter P pat) + length (filter P (drop (length pat) (c # cs)))"
      by (metis append_take_drop_id filter_append length_append)
    then show ?thesis by simp
  qed (use Cons in auto)
qed simp

text \<open>
  Bytes that are not valid UTF-8 become three bytes each, so the text of a name can be longer than its fifteen bytes; but
  it has no more ASCII characters than the name.
\<close>

lemma filter_lossy: "length (filter (\<lambda>b. b < 128) (utf8_lossy bs)) \<le> length (filter (\<lambda>b. b < 128) bs)"
proof (induction bs rule: utf8_lossy.induct)
  case (2 b bs)
  obtain n k where piece: "utf8_piece b bs = (n, k)" by fastforce
  have "length (filter (\<lambda>b. b < 128) (b # bs))
      = length (filter (\<lambda>b. b < 128) (take n (b # bs))) + length (filter (\<lambda>b. b < 128) (drop n (b # bs)))"
    by (metis append_take_drop_id filter_append length_append)
  moreover have "filter (\<lambda>b. b < 128) [0xEF, 0xBF, 0xBD :: u8] = []"
    by (simp add: word_less_nat_alt)
  ultimately show ?case using 2 [OF piece [symmetric]] piece by (simp del: filter.simps)
qed simp

lemma filter_chars_of:
  "length (filter (\<lambda>c. of_char c < (128 :: nat)) (chars_of bs)) = length (filter (\<lambda>b. b < 128) bs)"
proof -
  have "of_char (char_of (unat b) :: char) < (128 :: nat) \<longleftrightarrow> b < 128" for b :: u8
    using unsigned_less [of b] by (simp add: word_less_nat_alt)
  then show ?thesis by (simp add: chars_of_def filter_map comp_def)
qed

lemma get_process_name_short:
  assumes "get_process_name proc pid buf = Ok b"
  shows "length (c_text b) \<le> 15"
proof -
  obtain f w where f: "proc (''/proc/'' @ show_i32 pid @ ''/stat'') = Some f" "fscanf_stat f = Some w"
    using assms by (auto simp: get_process_name_def split: option.splits)
  define u where "u = w @ 0 # drop (Suc (length w)) buf"
  define n where "n = length (c_text u)"
  have w: "length w \<le> 15"
    using f(2) scan_word_Some(3) by (auto simp: fscanf_stat_def split: option.splits list.splits if_splits)
  have n: "n \<le> length w" unfolding n_def u_def by (rule length_c_text_le)
  have b: "1 < n" "b = (if u ! (n - 1) = 41 then u[n - 1 := 0] else u)"
    using assms f by (auto simp: get_process_name_def Let_def u_def [symmetric] n_def [symmetric] split: if_splits)
  have "n - 1 < length u" using n b(1) by (simp add: u_def)
  then have "u[n - 1 := 0] = take (n - 1) u @ 0 # drop n u"
    using b(1) by (simp add: upd_conv_take_nth_drop)
  then have "length (c_text (u[n - 1 := 0])) \<le> 15"
    using length_c_text_le [of "take (n - 1) u" "drop n u"] n w by (simp only: length_take)
  with b(2) n w show ?thesis by (auto simp: n_def)
qed

text \<open>
  The test of \<open>get_guardname\<close> never passes. Whatever the kernel shows for the process, a name that is read has at most
  fifteen ASCII characters, and the test looks for the sixteen of \<open>librocker_client\<close>.
\<close>

lemma guardname_test_fails: "fst (run (TEST_get_guardname M proc own_pid) w) \<noteq> Ok ()"
proof -
  have "\<not> contains_str ''librocker_client'' name" if ok: "get_guardname proc own_pid = Ok name" for name
  proof
    assume c: "contains_str ''librocker_client'' name"
    obtain b where b: "get_process_name proc own_pid (replicate 16 0) = Ok b"
      using ok by (auto simp: get_guardname_def ROCKER_get_guardname_def Rocker_result_new_def res_convert_def rocker_err_defs
          Let_def split: outcome.splits)
    then have name: "name = chars_of (utf8_lossy (c_text b))" using get_guardname_Ok ok by simp
    have "16 \<le> length (filter (\<lambda>c. of_char c < (128 :: nat)) name)"
      using contains_filter [OF c, of "\<lambda>c. of_char c < (128 :: nat)"] by simp
    also have "\<dots> \<le> length (filter (\<lambda>b. b < 128) (c_text b))"
      unfolding name filter_chars_of by (rule filter_lossy)
    also have "\<dots> \<le> 15" using get_process_name_short [OF b] length_filter_le le_trans by blast
    finally show False by simp
  qed
  then show ?thesis
    by (auto simp: TEST_get_guardname_def run_bnd pnk_Ok_iff from_outcome_def assert_that_def split: prod.splits outcome.splits)
qed


section \<open>The assertions of \<open>TEST_enter_rocker\<close>\<close>

text \<open>The outcomes that \<open>expected_err!\<close> accepts for a request and an expected kind; a result ends the test.\<close>

definition expected :: "wrapper_error \<Rightarrow> wrapper_error + rocker_result \<Rightarrow> (unit, bool) outcome" where
  "expected k res = (case res of Inl e \<Rightarrow> expected_err k (wrapper_chain ''client_ffi/mod.rs'' 112 e) | Inr r \<Rightarrow> Panic)"


lemma default_datagram: "length (client_datagram be 64 rocker_request_new) = 88"
proof -
  have "client_datagram be 64 rocker_request_new = req_wire be [0, 0, - 1] ([None, None, None] @ overlay_slots [])"
    using parse_request_wire [of 64 rocker_request_new _ be]
    by (simp add: client_datagram_def metal_request_of_def rocker_request_new_def str_ok_def slot_def)
  then show ?thesis by (simp add: length_req_wire present_overlay_slots)
qed



section \<open>Packing a command\<close>

text \<open>\<open>str::trim\<close>: the characters of Unicode with the property White_Space, in UTF-8, taken off at both ends.\<close>

definition white_pieces :: "string list" where
  "white_pieces = map (map char_of) ([[9], [10], [11], [12], [13], [32], [0xC2, 0x85], [0xC2, 0xA0], [0xE1, 0x9A, 0x80]]
     @ map (\<lambda>n. [0xE2, 0x80, 0x80 + n]) [0, 1, 2, 3, 4, 5, 6, 7, 8, 9, 10]
     @ [[0xE2, 0x80, 0xA8], [0xE2, 0x80, 0xA9], [0xE2, 0x80, 0xAF], [0xE2, 0x81, 0x9F], [0xE3, 0x80, 0x80 :: nat]])"

function strip_front :: "string list \<Rightarrow> string \<Rightarrow> string" where
  "strip_front ps s = (case find (\<lambda>q. q \<noteq> [] \<and> take (length q) s = q) ps of
       None \<Rightarrow> s | Some q \<Rightarrow> strip_front ps (drop (length q) s))"
  by pat_completeness auto

termination
proof (relation "measure (length \<circ> snd)")
  fix ps :: "string list" and s q
  assume "find (\<lambda>q. q \<noteq> [] \<and> take (length q) s = q) ps = Some q"
  then have "q \<noteq> []" "take (length q) s = q" by (auto simp: find_Some_iff)
  then have "0 < length q" "length q \<le> length s" by (simp, metis length_take min.absorb_iff2 min.commute)
  then show "((ps, drop (length q) s), ps, s) \<in> measure (length \<circ> snd)" by (simp del: length_greater_0_conv)
qed simp

definition trim :: "string \<Rightarrow> string" where
  "trim s = rev (strip_front (map rev white_pieces) (rev (strip_front white_pieces s)))"

definition client_create_fake_pkg :: "machine \<Rightarrow> path \<Rightarrow> unit core_io" where
  "client_create_fake_pkg M pkg_path =
     (let tmp_dir = ''/tmp/.___XXXX'' in
      seq (ignored (fs_unit M (RemoveFile pkg_path)))
     (seq (ignored (fs_unit M (RemoveDirAll pkg_path)))
     (seq (ignored (fs_unit M (RemoveFile tmp_dir)))
     (seq (ignored (fs_unit M (RemoveDirAll tmp_dir)))
     (seq (pnk M (fs_unit M (CreateDirAll tmp_dir)))
     (bnd (pnk M (bnd (sys_data M (Command [''which'', ''find''])) (from_res IoErr))) (\<lambda>find_path.
      bnd (pnk M (cmd_success M [''cp'', ''-L'', trim (chars_of (utf8_lossy find_path)), tmp_dir])) (\<lambda>status.
      seq (assert_that status)
     (bnd (pnk M (cmd_success M [''mksquashfs'', tmp_dir, pkg_path])) (\<lambda>status. assert_that status))))))))))"

declare strip_front.simps [simp del]

lemma trim_find: "trim (''/usr/bin/find'' @ [CHR 0x0A]) = ''/usr/bin/find''"
  by code_simp

text \<open>What is packed is the program that \<open>which\<close> found, without the end of its line.\<close>

lemma client_create_fake_pkg_packs:
  assumes "m_unit M = (\<lambda>t c. Inr ())" and "m_num M = (\<lambda>t c. Inr 0)"
    and "\<And>t. m_data M t (Command [''which'', ''find'']) = Inr (bytes_of (''/usr/bin/find'' @ [CHR 0x0A]))"
  shows "\<exists>w'. run (client_create_fake_pkg M q) w = (Ok (), w')
    \<and> drop 5 (new_calls w w') = [Command [''which'', ''find''], Command [''cp'', ''-L'', ''/usr/bin/find'', ''/tmp/.___XXXX''],
        Command [''mksquashfs'', ''/tmp/.___XXXX'', q]]"
proof -
  have "utf8_valid (bytes_of (''/usr/bin/find'' @ [CHR 0x0A]))" by (simp add: bytes_of_def)
  then have "trim (chars_of (utf8_lossy (bytes_of (''/usr/bin/find'' @ [CHR 0x0A])))) = ''/usr/bin/find''"
    by (simp only: utf8_lossy_valid chars_of_bytes_of trim_find)
  then show ?thesis
    using assms by (simp add: client_create_fake_pkg_def cmd_success_def Let_def new_calls_def)
qed

section \<open>\<open>TEST_enter_rocker\<close>\<close>

text \<open>
  The whole test. The outcomes of the three calls of \<open>enter_rocker\<close> are given, one per request; the
  callback runs in the process that such a call starts, not here.
\<close>

definition test_request :: rocker_request where
  "test_request = rocker_request_new\<lparr>w_app_id := 1000, w_uid := 1, w_gid := Some 1,
     w_pkg_path := ''/tmp/find.squashfs'', w_exec_dir := ''/tmp/rocker_exec_dir'', w_data_dir := ''/tmp/rocker_data_dir'',
     w_overlay_dirs := [''/usr'', ''/etc'', ''/var'']\<rparr>"

definition expect :: "wrapper_error \<Rightarrow> wrapper_error + rocker_result \<Rightarrow> unit core_io" where
  "expect k res = (case expected k res of Ok b \<Rightarrow> assert_that b | _ \<Rightarrow> panic)"

definition TEST_enter_rocker :: "machine \<Rightarrow> (nat \<Rightarrow> rocker_request \<Rightarrow> wrapper_error + rocker_result) \<Rightarrow> unit core_io" where
  "TEST_enter_rocker M enter =
     seq (expect RockerSendReq (enter 0 rocker_request_new))
    (bnd (pnk M (bnd (sys_num M (Spawn [''rocker_server''])) (from_res IoErr))) (\<lambda>server.
     seq (sleep M 1)
    (seq (expect RockerBuildRocker (enter 1 rocker_request_new))
    (let req = test_request in
     seq (client_create_fake_pkg M (w_pkg_path req))
    (bnd (sys_num M Geteuid) (\<lambda>euid.
     seq (if euid = Inr 0 then assert_that (case enter 2 req of Inl e \<Rightarrow> False | Inr r \<Rightarrow> True)
          else seq (expect RockerBuildRocker (enter 2 req))
              (bnd (pnk M (fs_open M RdOnly (w_data_dir req @ ''/'' @ ''a_fake_file''))) (\<lambda>f.
               bnd (pnk M (bnd (sys_data M (Read f 1)) (from_res IoErr))) (\<lambda>got.
               seq (assert_that ([122] = fill [0] got)) (seq (sys_unit M (Close f)) (ret ()))))))
         (pnk M (fs_unit M (Kill (word_of_int server))))))))))"

lemma expect_cases: "run (expect k res) w = (if \<exists>e. res = Inl e \<and> expected_err k (wrapper_chain ''client_ffi/mod.rs'' 112 e) = Ok True
    then Ok () else Panic, w)"
proof (cases res)
  case (Inl e)
  then show ?thesis
    by (cases "expected_err k (wrapper_chain ''client_ffi/mod.rs'' 112 e)") (simp_all add: expect_def expected_def)
qed (simp add: expect_def expected_def)

lemma run_expect: "e \<noteq> WNul \<Longrightarrow> e \<noteq> WCStr \<Longrightarrow> run (expect e (Inl e)) w = (Ok (), w)"
  by (simp add: expect_cases wrapper_chain_def errgen_def error_from_def chain_err_def)

text \<open>
  For a user other than root the test fails even when every call of \<open>enter_rocker\<close> ends as it asks: it then reads a file that
  only the callback could have written, and no callback ran. It could not have: the overlay of a directory
  writes elsewhere.
\<close>

lemma enter_rocker_test_unprivileged:
  assumes "\<And>t. m_num M t Geteuid = Inr u" and "u \<noteq> 0"
    and "\<And>t. m_num M t (Open RdOnly ''/tmp/rocker_data_dir/a_fake_file'') = Inl e"
  shows "fst (run (TEST_enter_rocker M enter) w) \<noteq> Ok ()"
proof -
  have path: "w_data_dir test_request @ ''/'' @ ''a_fake_file'' = ''/tmp/rocker_data_dir/a_fake_file''"
    by (simp add: test_request_def)
  have "run (fs_open M RdOnly ''/tmp/rocker_data_dir/a_fake_file'') v
      = (Err (IoErr e), emit (Open RdOnly ''/tmp/rocker_data_dir/a_fake_file'') (RErr e) v)" for v
    using assms(3) by (simp add: fs_open_def)
  then show ?thesis
    using assms(1,2) unfolding TEST_enter_rocker_def path Let_def
    by (auto simp: run_bnd run_handle seq_def pnk_Ok_iff split: prod.splits outcome.splits)
qed

lemma callback_writes_elsewhere:
  assumes "app_data_dir cfg = w_data_dir test_request"
  shows "upperdir cfg q @ ''/a_fake_file'' \<noteq> w_data_dir test_request @ ''/'' @ ''a_fake_file''"
  using assms by (simp add: upperdir_def)

lemma enter_rocker_test_passes:
  assumes "enter 0 rocker_request_new = Inl RockerSendReq" and "enter 1 rocker_request_new = Inl RockerBuildRocker"
    and "enter 2 test_request = Inr res" and "m_unit M = (\<lambda>t c. Inr ())" and "m_num M = (\<lambda>t c. Inr 0)"
    and "\<And>t. m_data M t (Command [''which'', ''find'']) = Inr (bytes_of (''/usr/bin/find'' @ [CHR 0x0A]))"
  shows "\<exists>w'. run (TEST_enter_rocker M enter) w = (Ok (), w')"
proof -
  define w1 where "w1 = emit (Sleep 1) RUnit (emit (Spawn [''rocker_server'']) (RNum 0) w)"
  obtain w2 where "run (client_create_fake_pkg M (w_pkg_path test_request)) w1 = (Ok (), w2)"
    using client_create_fake_pkg_packs [OF assms(4-6)] by blast
  then show ?thesis
    unfolding TEST_enter_rocker_def Let_def
    using assms run_expect [of RockerSendReq] run_expect [of RockerBuildRocker]
    by (simp add: w1_def [symmetric] sleep_def assert_that_def del: One_nat_def)
qed

end
