(* ===== verification/Rk_Cio.thy ===== *)
theory Rk_Cio
  imports Rk_Service
begin

text \<open>
  The C layer under \<open>ROCKER_enter_rocker\<close>: the socket and pipe operations of \<open>io.c\<close>, \<open>setns\<close> and the
  started process of \<open>namespace.c\<close>, and the two processes of \<open>ROCKER_enter_rocker\<close> in \<open>lib.c\<close>, as programs over
  the kernel. \<open>Rk_Client\<close> gives the same function over an environment \<open>client_env\<close>; the theorem here reads
  the environment off the calls that the child makes, and shows that the detailed program refines it.
  An \<open>Error *\<close> is \<open>Err ()\<close>, because its callers only test it for NULL. What a receive of nothing finds in
  \<open>errno\<close>, which it does not set, is a parameter.
\<close>

type_synonym 'a c_io = "(unit, 'a) io"

section \<open>io.c\<close>

definition c_unit :: "machine \<Rightarrow> syscall \<Rightarrow> unit c_io" where
  "c_unit M call = bnd (sys_unit M call) (from_res (\<lambda>_. ()))"

definition creat_pipe :: "machine \<Rightarrow> (fd \<times> fd) c_io" where
  "creat_pipe M = bnd (sys_pair M Pipe) (from_res (\<lambda>_. ()))"

text \<open>The name is followed by zeros up to the end of \<open>sun_path\<close>, after its first byte.\<close>

definition unix_abstract_udp_genaddr :: "bytes \<Rightarrow> addr c_io" where
  "unix_abstract_udp_genaddr name =
     (if 107 < length name then fail () else ret (name @ replicate (107 - length name) 0))"

definition or_close :: "machine \<Rightarrow> fd \<Rightarrow> unit c_io \<Rightarrow> unit c_io" where
  "or_close M fd m = handle m (\<lambda>_. seq (sys_unit M (Close fd)) (fail ()))"

definition unix_abstract_udp_new_autobound :: "machine \<Rightarrow> fd c_io" where
  "unix_abstract_udp_new_autobound M =
     bnd (bnd (sys_num M SocketDgram) (from_res (\<lambda>_. ()))) (\<lambda>fd.
     seq (or_close M fd (c_unit M (Setsockopt fd ReuseAddr)))
    (seq (or_close M fd (c_unit M (BindAuto fd))) (ret fd)))"

definition send_normal :: "machine \<Rightarrow> fd \<Rightarrow> bytes list \<Rightarrow> addr \<Rightarrow> unit c_io" where
  "send_normal M fd vec a = (if vec = [] then fail () else c_unit M (Sendmsg fd vec [] a))"

text \<open>
  \<open>recv_fd\<close>: without a datagram of at least one byte it waits up to three seconds, but only when \<open>errno\<close> says
  that there was none; then it tries once more. A message without descriptors leaves none.
\<close>

definition recvmsg_some :: "machine \<Rightarrow> fd \<Rightarrow> (errno option, bytes \<times> fd list) io" where
  "recvmsg_some M fd = bnd (sys_msg M (Recvmsg fd 20)) (\<lambda>r. case r of
       Inl e \<Rightarrow> fail (Some e)
     | Inr (d, fds) \<Rightarrow> if d = [] then fail None else ret (d, fds))"

definition recv_fd :: "machine \<Rightarrow> errno \<Rightarrow> fd \<Rightarrow> (bytes \<times> fd list) c_io" where
  "recv_fd M stale fd = handle (recvmsg_some M fd) (\<lambda>e.
     if (case e of None \<Rightarrow> stale | Some n \<Rightarrow> n) \<noteq> EAGAIN then fail ()
     else bnd (sys_num M (Poll [fd] {POLLIN} 3000)) (\<lambda>r. case r of
         Inl _ \<Rightarrow> fail ()
       | Inr n \<Rightarrow> if 0 < n then map_err (\<lambda>_. ()) (recvmsg_some M fd) else fail ()))"

section \<open>namespace.c\<close>

definition enter_ns_io :: "machine \<Rightarrow> fd list \<Rightarrow> unit c_io" where
  "enter_ns_io M fds = for_each (\<lambda>fd. c_unit M (Setns fd)) fds"

text \<open>The pid that is left in the result, when any is, and whether the call succeeded.\<close>

definition run_in_brother :: "machine \<Rightarrow> ('e, i32 option \<times> bool) io" where
  "run_in_brother M =
     bnd (sys_bool M (Malloc (4 * 1024 * 1024))) (\<lambda>stack.
       if \<not> stack then ret (None, False)
       else bnd (sys_num M CloneParent) (\<lambda>r. case r of
           Inl _ \<Rightarrow> ret (Some (- 1), False)
         | Inr n \<Rightarrow> let pid = word_of_int n in ret (Some pid, 0 \<le> sint pid)))"

section \<open>lib.c\<close>

text \<open>\<open>ROCKER_ERR_checker___\<close>: an error ends the function with a code in the result.\<close>

definition attempt :: "'a c_io \<Rightarrow> ('e, 'b) io \<Rightarrow> ('a \<Rightarrow> ('e, 'b) io) \<Rightarrow> ('e, 'b) io" where
  "attempt m stop f =
     bnd (handle (bnd (map_err (\<lambda>_. ()) m) (\<lambda>a. ret (Some a))) (\<lambda>_. ret None)) (\<lambda>r. case r of None \<Rightarrow> stop | Some a \<Rightarrow> f a)"

definition ROCKER_enter_rocker_inner_io ::
  "machine \<Rightarrow> bool \<Rightarrow> nat \<Rightarrow> bytes \<Rightarrow> errno \<Rightarrow> metal_request \<Rightarrow> ('e, metal_result) io" where
  "ROCKER_enter_rocker_inner_io M be bits uau stale req =
     (let jr = Rocker_result_new; stop = (\<lambda>jr code. ret (jr\<lparr>err_no := code\<rparr>)) in
      attempt (unix_abstract_udp_genaddr uau) (stop jr ROCKER_ERR_server_unaddr_invalid) (\<lambda>peeraddr.
      attempt (unix_abstract_udp_new_autobound M) (stop jr ROCKER_ERR_gen_local_addr_failed) (\<lambda>master_fd.
      attempt (send_normal M master_fd (ROCKER_parse_request be bits req) peeraddr) (stop jr ROCKER_ERR_send_req_failed) (\<lambda>_.
      attempt (recv_fd M stale master_fd) (stop jr ROCKER_ERR_recv_resp_failed) (\<lambda>(d, fds).
      let jr = scatter_reply be d jr in
      if sint (rs_guard_pid jr) < 0 \<or> fds = [] then stop jr ROCKER_ERR_rocker_build_failed
      else attempt (enter_ns_io M (take 3 (fds @ replicate 3 0))) (stop jr ROCKER_ERR_enter_rocker_failed) (\<lambda>_.
      bnd (run_in_brother M) (\<lambda>(pid, ok).
      let jr = (case pid of None \<Rightarrow> jr | Some n \<Rightarrow> jr\<lparr>rs_app_pid := n\<rparr>) in
      if ok then ret jr else stop jr ROCKER_ERR_app_exec_failed)))))))"

text \<open>The struct as it goes through the pipe.\<close>

definition encode_result :: "bool \<Rightarrow> metal_result \<Rightarrow> bytes" where
  "encode_result be jr = i32_to_ne_bytes be (err_no jr) @ i32_to_ne_bytes be (rs_app_pid jr)
     @ i32_to_ne_bytes be (rs_guard_pid jr) @ rs_guard_pname jr"

definition decode_result :: "bool \<Rightarrow> bytes \<Rightarrow> metal_result" where
  "decode_result be d = \<lparr>err_no = i32_from_ne_bytes be (take 4 d), rs_app_pid = i32_from_ne_bytes be (take 4 (drop 4 d)),
     rs_guard_pid = i32_from_ne_bytes be (take 4 (drop 8 d)), rs_guard_pname = drop 12 d\<rparr>"

text \<open>
  \<open>fork\<close> answers 0 in the child, which ends with \<open>exit\<close>: its program has no result. A short read
  overwrites the front of the result. Both ends of the pipe are closed where the function returns.
\<close>

definition ROCKER_enter_rocker_io ::
  "machine \<Rightarrow> bool \<Rightarrow> nat \<Rightarrow> bytes \<Rightarrow> errno \<Rightarrow> bool \<Rightarrow> metal_request \<Rightarrow> ('e, metal_result option) io" where
  "ROCKER_enter_rocker_io M be bits uau stale given req =
     (let jr = Rocker_result_new; stop = (\<lambda>jr code. ret (Some (jr\<lparr>err_no := code\<rparr>))) in
      attempt (creat_pipe M) (stop jr ROCKER_ERR_sys) (\<lambda>(read_fd, write_fd).
      bnd (if \<not> given then stop jr ROCKER_ERR_param_invalid
           else bnd (sys_num M Fork) (\<lambda>r. case r of
               Inl _ \<Rightarrow> stop jr ROCKER_ERR_sys
             | Inr n \<Rightarrow>
                 if n = 0 then
                   bnd (ROCKER_enter_rocker_inner_io M be bits uau stale req) (\<lambda>jr.
                   seq (sys_num M (Write write_fd (encode_result be jr))) (ret None))
                 else bnd (sys_data M (Read read_fd 28)) (\<lambda>r. case r of
                     Inl _ \<Rightarrow> stop jr ROCKER_ERR_sys
                   | Inr d \<Rightarrow> let jr = decode_result be (fill (encode_result be jr) d) in
                       if length d \<noteq> 28 then stop jr ROCKER_ERR_sys else ret (Some jr))))
        (\<lambda>res. case res of
           None \<Rightarrow> ret None
         | Some jr \<Rightarrow> seq (sys_unit M (Close write_fd)) (seq (sys_unit M (Close read_fd)) (ret (Some jr))))))"


section \<open>The environment read off the calls\<close>

definition did_bind :: "event list \<Rightarrow> bool" where
  "did_bind t = list_ex (\<lambda>e. case ev_call e of BindAuto fd \<Rightarrow> ev_ok e | _ \<Rightarrow> False) t"

definition did_send :: "bytes list \<Rightarrow> event list \<Rightarrow> bool" where
  "did_send vec t = list_ex (\<lambda>e. case ev_call e of Sendmsg fd ps fds a \<Rightarrow> ps = vec \<and> ev_ok e | _ \<Rightarrow> False) t"

definition got_msgs :: "event list \<Rightarrow> (bytes \<times> fd list) list" where
  "got_msgs t = List.map_filter (\<lambda>e. case ev_reply e of RMsg d fds \<Rightarrow> if d = [] then None else Some (d, fds) | _ \<Rightarrow> None) t"

definition no_setns_failed :: "fd \<Rightarrow> event list \<Rightarrow> bool" where
  "no_setns_failed f t = list_all (\<lambda>e. case ev_call e of Setns g \<Rightarrow> g = f \<longrightarrow> ev_ok e | _ \<Rightarrow> True) t"

definition cloned :: "event list \<Rightarrow> i32 list" where
  "cloned t = List.map_filter (\<lambda>e. case ev_call e of
       CloneParent \<Rightarrow> Some (case ev_reply e of RNum n \<Rightarrow> word_of_int n | _ \<Rightarrow> - 1) | _ \<Rightarrow> None) t"

definition observed_env :: "bytes \<Rightarrow> event list \<Rightarrow> client_env" where
  "observed_env uau t = \<lparr>ce_pipe = True, ce_fork = True, ce_pipe_full = True, ce_genaddr = (length uau \<le> 107),
     ce_autobound = did_bind t, ce_sendmsg = (\<lambda>vec. did_send vec t),
     ce_recv_fd = (case got_msgs t of [] \<Rightarrow> None | m # ms \<Rightarrow> Some m),
     ce_setns = (\<lambda>f. no_setns_failed f t),
     ce_clone = (case cloned t of [] \<Rightarrow> - 1 | n # ns \<Rightarrow> n)\<rparr>"

lemma did_bind_append [simp]: "did_bind (s @ t) \<longleftrightarrow> did_bind s \<or> did_bind t" "did_bind [] \<longleftrightarrow> False"
  and did_send_append [simp]: "did_send v (s @ t) \<longleftrightarrow> did_send v s \<or> did_send v t" "did_send v [] \<longleftrightarrow> False"
  and no_setns_append [simp]: "no_setns_failed f (s @ t) \<longleftrightarrow> no_setns_failed f s \<and> no_setns_failed f t"
    "no_setns_failed f [] \<longleftrightarrow> True"
  and got_msgs_append [simp]: "got_msgs (s @ t) = got_msgs s @ got_msgs t" "got_msgs [] = []"
  and cloned_append [simp]: "cloned (s @ t) = cloned s @ cloned t" "cloned [] = []"
  by (simp_all add: did_bind_def did_send_def no_setns_failed_def got_msgs_def cloned_def List.map_filter_def)

lemma observed_Cons:
  "did_bind (e # t) \<longleftrightarrow> did_bind [e] \<or> did_bind t" "did_send v (e # t) \<longleftrightarrow> did_send v [e] \<or> did_send v t"
  "no_setns_failed f (e # t) \<longleftrightarrow> no_setns_failed f [e] \<and> no_setns_failed f t"
  "got_msgs (e # t) = got_msgs [e] @ got_msgs t" "cloned (e # t) = cloned [e] @ cloned t"
  by (simp_all add: did_bind_def did_send_def no_setns_failed_def got_msgs_def cloned_def List.map_filter_def)

lemmas observed_one = did_bind_def did_send_def no_setns_failed_def got_msgs_def cloned_def List.map_filter_def

text \<open>What the calls of one step contribute.\<close>

definition silent_env :: "event list \<Rightarrow> bool" where
  "silent_env t \<longleftrightarrow> \<not> did_bind t \<and> (\<forall>v. \<not> did_send v t) \<and> got_msgs t = [] \<and> (\<forall>f. no_setns_failed f t) \<and> cloned t = []"

lemma run_attempt: "run (attempt m stop f) w = (case run m w of (Ok a, w') \<Rightarrow> run (f a) w' | (Err e, w') \<Rightarrow> run stop w'
     | (Panic, w') \<Rightarrow> (Panic, w') | (Diverge, w') \<Rightarrow> (Diverge, w'))"
  by (auto simp: attempt_def map_err_def run_bnd run_handle split: prod.splits outcome.splits)

lemma autobound_observed:
  "\<exists>q w' es. run (unix_abstract_udp_new_autobound M) w = (q, w') \<and> trace w' = trace w @ es
     \<and> (q = Err () \<and> silent_env es
       \<or> (\<exists>fd. q = Ok fd) \<and> did_bind es \<and> (\<forall>v. \<not> did_send v es) \<and> got_msgs es = [] \<and> (\<forall>f. no_setns_failed f es) \<and> cloned es = [])"
proof (cases "m_num M (trace w) SocketDgram")
  case (Inr fd)
  define w1 where "w1 = emit SocketDgram (RNum fd) w"
  define w2 where "w2 = emit (Setsockopt fd ReuseAddr) RUnit w1"
  show ?thesis
    using Inr
    by (cases "m_unit M (trace w1) (Setsockopt fd ReuseAddr)"; cases "m_unit M (trace w2) (BindAuto fd)")
      (auto simp: unix_abstract_udp_new_autobound_def or_close_def c_unit_def run_bnd run_handle seq_def emit_def
        w1_def w2_def silent_env_def observed_one res_reply_def split: sum.splits)
qed (auto simp: unix_abstract_udp_new_autobound_def run_bnd emit_def silent_env_def observed_one)

lemma send_observed:
  "\<exists>q w' es. run (send_normal M fd vec a) w = (q, w') \<and> trace w' = trace w @ es \<and> (q = Ok () \<or> q = Err ())
     \<and> \<not> did_bind es \<and> did_send vec es = (q = Ok ()) \<and> got_msgs es = [] \<and> (\<forall>f. no_setns_failed f es) \<and> cloned es = []"
  by (cases "m_unit M (trace w) (Sendmsg fd vec [] a)")
    (auto simp: send_normal_def c_unit_def emit_def observed_one)

lemma recv_observed:
  "\<exists>q w' es. run (recv_fd M stale fd) w = (q, w') \<and> trace w' = trace w @ es \<and> \<not> did_bind es \<and> (\<forall>v. \<not> did_send v es)
     \<and> (q = Err () \<and> got_msgs es = [] \<or> (\<exists>m. q = Ok m \<and> got_msgs es = [m])) \<and> (\<forall>f. no_setns_failed f es) \<and> cloned es = []"
proof -
  have one: "\<exists>q w' e. run (recvmsg_some M fd) v = (q, w') \<and> trace w' = trace v @ [e] \<and> ev_call e = Recvmsg fd 20
     \<and> ((\<exists>x. q = Err x) \<and> got_msgs [e] = [] \<or> (\<exists>m. q = Ok m \<and> got_msgs [e] = [m]))" for v
  proof -
    define e where "e = Ev (Recvmsg fd 20) (res_reply (\<lambda>(d, fs). RMsg d fs) (m_msg M (trace v) (Recvmsg fd 20)))"
    obtain q v' where r: "run (recvmsg_some M fd) v = (q, v')" by fastforce
    have "trace v' = trace v @ [e] \<and> ev_call e = Recvmsg fd 20
        \<and> ((\<exists>x. q = Err x) \<and> got_msgs [e] = [] \<or> (\<exists>m. q = Ok m \<and> got_msgs [e] = [m]))"
      using r by (cases "m_msg M (trace v) (Recvmsg fd 20)")
        (auto simp: recvmsg_some_def run_bnd emit_def observed_one e_def split: if_splits)
    with r show ?thesis by blast
  qed
  obtain q1 w1 e1 where r1: "run (recvmsg_some M fd) w = (q1, w1)" "trace w1 = trace w @ [e1]" "ev_call e1 = Recvmsg fd 20"
    and m1: "(\<exists>x. q1 = Err x) \<and> got_msgs [e1] = [] \<or> (\<exists>m. q1 = Ok m \<and> got_msgs [e1] = [m])"
    using one by metis
  define w2 where "w2 = emit (Poll [fd] {POLLIN} 3000) (res_reply RNum (m_num M (trace w1) (Poll [fd] {POLLIN} 3000))) w1"
  obtain q3 w3 e3 where r3: "run (recvmsg_some M fd) w2 = (q3, w3)" "trace w3 = trace w2 @ [e3]" "ev_call e3 = Recvmsg fd 20"
    and m3: "(\<exists>x. q3 = Err x) \<and> got_msgs [e3] = [] \<or> (\<exists>m. q3 = Ok m \<and> got_msgs [e3] = [m])"
    using one by metis
  have quiet: "\<not> did_bind [e] \<and> (\<forall>v. \<not> did_send v [e]) \<and> (\<forall>f. no_setns_failed f [e]) \<and> cloned [e] = []"
    if "ev_call e = Recvmsg fd 20 \<or> ev_call e = Poll [fd] {POLLIN} 3000" for e
    using that by (auto simp: observed_one)
  have poll: "got_msgs [Ev (Poll [fd] {POLLIN} 3000) (res_reply RNum r)] = []" for r
    by (cases r) (simp_all add: observed_one)
  define pe where "pe = Ev (Poll [fd] {POLLIN} 3000) (res_reply RNum (m_num M (trace w1) (Poll [fd] {POLLIN} 3000)))"
  have tr: "trace w2 = trace w @ [e1, pe]" "trace w3 = trace w @ [e1, pe, e3]"
    using r1(2) r3(2) by (simp_all add: w2_def emit_def pe_def)
  have q: "\<not> did_bind es \<and> (\<forall>v. \<not> did_send v es) \<and> (\<forall>f. no_setns_failed f es) \<and> cloned es = []"
    if "set es \<subseteq> {e1, pe, e3}" for es
    using that
  proof (induction es)
    case (Cons e es)
    with quiet [of e] r1(3) r3(3) observed_Cons [where e = e and t = es] show ?case by (auto simp: pe_def)
  qed simp
  have g: "got_msgs [e1, pe] = got_msgs [e1]" "got_msgs [e1, pe, e3] = got_msgs [e1] @ got_msgs [e3]"
    using poll observed_Cons(4) [of e1 "[pe]"] observed_Cons(4) [of e1 "[pe, e3]"] observed_Cons(4) [of pe "[e3]"]
    by (simp_all add: pe_def)
  show ?thesis
  proof (cases q1)
    case (Ok m)
    with r1 m1 q [of "[e1]"] show ?thesis by (auto simp: recv_fd_def intro!: exI [of _ "[e1]"])
  next
    case (Err x)
    consider "run (recv_fd M stale fd) w = (Err (), w1)" | "run (recv_fd M stale fd) w = (Err (), w2)"
      | m where "run (recv_fd M stale fd) w = (Ok m, w3)" "q3 = Ok m" | y where "run (recv_fd M stale fd) w = (Err (), w3)" "q3 = Err y"
      using r1(1) r3(1) m3 Err
      by (cases "m_num M (trace w1) (Poll [fd] {POLLIN} 3000)")
        (fastforce simp: recv_fd_def run_handle run_bnd map_err_def w2_def split: if_splits)+
    then show ?thesis
    proof cases
      case 1
      with Err r1 m1 q [of "[e1]"] show ?thesis by (auto intro!: exI [of _ "[e1]"])
    next
      case 2
      with Err m1 g tr q [of "[e1, pe]"] show ?thesis by (auto intro!: exI [of _ "[e1, pe]"])
    next
      case 3
      with Err m1 m3 g tr q [of "[e1, pe, e3]"] show ?thesis by (auto intro!: exI [of _ "[e1, pe, e3]"])
    next
      case 4
      with Err m1 m3 g tr q [of "[e1, pe, e3]"] show ?thesis by (auto intro!: exI [of _ "[e1, pe, e3]"])
    qed
  qed (use m1 in auto)
qed


lemma enter_ns_observed:
  "\<exists>q w' es. run (enter_ns_io M fds) w = (q, w') \<and> trace w' = trace w @ es \<and> (q = Ok () \<or> q = Err ())
     \<and> (q = Ok () \<longleftrightarrow> (\<forall>f \<in> set fds. no_setns_failed f es))
     \<and> (\<forall>f. f \<notin> set fds \<longrightarrow> no_setns_failed f es)
     \<and> \<not> did_bind es \<and> (\<forall>v. \<not> did_send v es) \<and> got_msgs es = [] \<and> cloned es = []"
proof (induction fds arbitrary: w)
  case (Cons f fds)
  define r where "r = m_unit M (trace w) (Setns f)"
  define e where "e = Ev (Setns f) (res_reply (\<lambda>_. RUnit) r)"
  define w1 where "w1 = emit (Setns f) (res_reply (\<lambda>_. RUnit) r) w"
  have w1: "trace w1 = trace w @ [e]" by (simp add: w1_def e_def emit_def)
  have e: "\<not> did_bind [e] \<and> (\<forall>v. \<not> did_send v [e]) \<and> got_msgs [e] = [] \<and> cloned [e] = []
      \<and> (\<forall>g. no_setns_failed g [e] \<longleftrightarrow> (g = f \<longrightarrow> r = Inr ()))"
    by (cases r) (auto simp: observed_one e_def)
  have one: "run (c_unit M (Setns f)) w = (case r of Inl x \<Rightarrow> Err () | Inr x \<Rightarrow> Ok (), w1)"
    by (cases r) (simp_all add: c_unit_def r_def w1_def)
  show ?case
  proof (cases r)
    case (Inl x)
    with one w1 e show ?thesis
      by (intro exI [of _ "Err ()"] exI [of _ w1] exI [of _ "[e]"]) (auto simp: enter_ns_io_def seq_def)
  next
    case (Inr x)
    obtain q w' es where IH: "run (enter_ns_io M fds) w1 = (q, w')" "trace w' = trace w1 @ es" "q = Ok () \<or> q = Err ()"
      "q = Ok () \<longleftrightarrow> (\<forall>f \<in> set fds. no_setns_failed f es)" "\<forall>f. f \<notin> set fds \<longrightarrow> no_setns_failed f es"
      "\<not> did_bind es \<and> (\<forall>v. \<not> did_send v es) \<and> got_msgs es = [] \<and> cloned es = []"
      using Cons.IH by metis
    have "run (enter_ns_io M (f # fds)) w = (q, w')"
      using one Inr IH(1) by (simp add: enter_ns_io_def)
    with IH w1 e Inr show ?thesis
      by (intro exI [of _ q] exI [of _ w'] exI [of _ "[e] @ es"]) (auto simp only: no_setns_append did_bind_append
          did_send_append got_msgs_append cloned_append append_assoc set_simps ball_simps simp_thms, auto)
  qed
qed (auto simp: enter_ns_io_def)

lemma brother_observed:
  "\<exists>pid k w' es. run (run_in_brother M) w = (Ok (pid, k), w') \<and> trace w' = trace w @ es
     \<and> (k \<longleftrightarrow> (\<exists>n. cloned es = [n] \<and> pid = Some n \<and> 0 \<le> sint n))
     \<and> (\<not> k \<longrightarrow> cloned es = [] \<or> (\<exists>n. cloned es = [n] \<and> sint n < 0))
     \<and> \<not> did_bind es \<and> (\<forall>v. \<not> did_send v es) \<and> got_msgs es = [] \<and> (\<forall>f. no_setns_failed f es)"
proof -
  define w1 where "w1 = emit (Malloc (4 * 1024 * 1024)) (RBool True) w"
  show ?thesis
    by (cases "m_bool M (trace w) (Malloc (4 * 1024 * 1024))"; cases "m_num M (trace w1) CloneParent")
      (auto simp: run_in_brother_def w1_def emit_def observed_one Let_def)
qed


section \<open>The detailed program refines the environment model\<close>

lemma enter_ns_snd: "snd (enter_ns f fds) \<longleftrightarrow> (\<forall>x \<in> set fds. f x)"
  by (induction fds) (auto split: prod.splits)

lemma res_convert_code: "err_no a = err_no b \<Longrightarrow> err_no b \<noteq> ROCKER_ERR_success \<Longrightarrow> res_convert a = res_convert b"
  by (simp add: res_convert_def Let_def)

text \<open>Once an application has been started the result is a success; everything else the wrapper reads is its error code.\<close>

lemma inner_refines:
  "\<exists>jr w' es. run (ROCKER_enter_rocker_inner_io M be bits uau stale rq :: ('e, metal_result) io) w = (Ok jr, w')
     \<and> trace w' = trace w @ es
     \<and> res_convert jr = res_convert (fst (ROCKER_enter_rocker_inner be bits (observed_env uau es) rq))"
proof (cases "length uau \<le> 107")
  case True
  let ?io = "ROCKER_enter_rocker_inner_io M be bits uau stale rq :: ('e, metal_result) io"
  let ?abs = "\<lambda>es. fst (ROCKER_enter_rocker_inner be bits (observed_env uau es) rq)"
  define peer where "peer = uau @ replicate (107 - length uau) 0"
  define vec where "vec = ROCKER_parse_request be bits rq"
  have addr: "run (unix_abstract_udp_genaddr uau) v = (Ok peer, v)" for v
    using True by (simp add: unix_abstract_udp_genaddr_def peer_def)
  note io = ROCKER_enter_rocker_inner_io_def Let_def run_attempt addr vec_def [symmetric]
  note ab = ROCKER_enter_rocker_inner_def observed_env_def Let_def vec_def [symmetric]
  obtain q1 w1 es1 where s1: "run (unix_abstract_udp_new_autobound M) w = (q1, w1)" "trace w1 = trace w @ es1"
    and o1: "q1 = Err () \<and> silent_env es1 \<or> (\<exists>fd. q1 = Ok fd) \<and> did_bind es1 \<and> (\<forall>v. \<not> did_send v es1) \<and> got_msgs es1 = []
      \<and> (\<forall>f. no_setns_failed f es1) \<and> cloned es1 = []"
    using autobound_observed by metis
  show ?thesis
  proof (cases "\<exists>fd. q1 = Ok fd")
    case False
    then have "q1 = Err ()" "silent_env es1" using o1 by auto
    with True s1 show ?thesis
      by (intro exI [of _ "Rocker_result_new\<lparr>err_no := ROCKER_ERR_gen_local_addr_failed\<rparr>"] exI [of _ w1] exI [of _ es1])
        (simp add: io ab silent_env_def)
  next
    case True1: True
    then obtain fd where fd: "q1 = Ok fd" by blast
    obtain q2 w2 es2 where s2: "run (send_normal M fd vec peer) w1 = (q2, w2)" "trace w2 = trace w1 @ es2"
      and o2: "q2 = Ok () \<or> q2 = Err ()" "\<not> did_bind es2" "did_send vec es2 = (q2 = Ok ())" "got_msgs es2 = []"
        "\<forall>f. no_setns_failed f es2" "cloned es2 = []"
      using send_observed by metis
    show ?thesis
    proof (cases "q2 = Ok ()")
      case False
      with True s1 s2 o1 o2 fd show ?thesis
        by (intro exI [of _ "Rocker_result_new\<lparr>err_no := ROCKER_ERR_send_req_failed\<rparr>"] exI [of _ w2] exI [of _ "es1 @ es2"])
          (simp add: io ab)
    next
      case sent2: True
      obtain q3 w3 es3 where s3: "run (recv_fd M stale fd) w2 = (q3, w3)" "trace w3 = trace w2 @ es3"
        and o3: "\<not> did_bind es3" "\<forall>v. \<not> did_send v es3" "q3 = Err () \<and> got_msgs es3 = [] \<or> (\<exists>m. q3 = Ok m \<and> got_msgs es3 = [m])"
          "\<forall>f. no_setns_failed f es3" "cloned es3 = []"
        using recv_observed by metis
      show ?thesis
      proof (cases "\<exists>m. q3 = Ok m")
        case False
        then have "q3 = Err ()" "got_msgs es3 = []" using o3(3) by auto
        with True s1 s2 s3 o1 o2 o3 fd sent2 show ?thesis
          by (intro exI [of _ "Rocker_result_new\<lparr>err_no := ROCKER_ERR_recv_resp_failed\<rparr>"] exI [of _ w3] exI [of _ "es1 @ es2 @ es3"])
            (simp add: io ab)
      next
        case got: True
        then obtain d fds where m: "q3 = Ok (d, fds)" "got_msgs es3 = [(d, fds)]" using o3(3) by force
        define jr where "jr = scatter_reply be d Rocker_result_new"
        show ?thesis
        proof (cases "sint (rs_guard_pid jr) < 0 \<or> fds = []")
          case refused: True
          with True s1 s2 s3 o1 o2 o3 fd sent2 m show ?thesis
            by (intro exI [of _ "jr\<lparr>err_no := ROCKER_ERR_rocker_build_failed\<rparr>"] exI [of _ w3] exI [of _ "es1 @ es2 @ es3"])
              (simp add: io ab jr_def)
        next
          case granted: False
          define fds3 where "fds3 = take 3 (fds @ replicate 3 0)"
          obtain q4 w4 es4 where s4: "run (enter_ns_io M fds3) w3 = (q4, w4)" "trace w4 = trace w3 @ es4"
            and o4: "q4 = Ok () \<or> q4 = Err ()" "q4 = Ok () \<longleftrightarrow> (\<forall>f \<in> set fds3. no_setns_failed f es4)"
              "\<not> did_bind es4" "\<forall>v. \<not> did_send v es4" "got_msgs es4 = []" "cloned es4 = []"
            using enter_ns_observed [of M fds3 w3] by metis
          have upto: "run ?io w = run (attempt (enter_ns_io M fds3) (ret (jr\<lparr>err_no := ROCKER_ERR_enter_rocker_failed\<rparr>)) (\<lambda>_.
              bnd (run_in_brother M) (\<lambda>(pid, k). let jr = (case pid of None \<Rightarrow> jr | Some n \<Rightarrow> jr\<lparr>rs_app_pid := n\<rparr>) in
                if k then ret jr else ret (jr\<lparr>err_no := ROCKER_ERR_app_exec_failed\<rparr>)))) w3"
            using s1 s2 s3 fd sent2 m granted
            unfolding ROCKER_enter_rocker_inner_io_def Let_def vec_def [symmetric] jr_def fds3_def
            by (simp add: run_attempt [of "unix_abstract_udp_genaddr uau"] run_attempt [of "unix_abstract_udp_new_autobound M"]
                run_attempt [of "send_normal M fd vec peer"] run_attempt [of "recv_fd M stale fd"] addr)
          have abs: "?abs es = (if \<not> (\<forall>f \<in> set fds3. no_setns_failed f es) then jr\<lparr>err_no := ROCKER_ERR_enter_rocker_failed\<rparr>
              else let n = (case cloned es of [] \<Rightarrow> - 1 | n # ns \<Rightarrow> n); jr = jr\<lparr>rs_app_pid := n\<rparr> in
                if sint n < 0 then jr\<lparr>err_no := ROCKER_ERR_app_exec_failed\<rparr> else jr)"
            if "did_bind es" "did_send vec es" "got_msgs es = [(d, fds)]" for es
            using True that granted enter_ns_snd [of "\<lambda>f. no_setns_failed f es" fds3]
            by (cases "enter_ns (\<lambda>f. no_setns_failed f es) fds3")
              (auto simp: ab jr_def fds3_def [symmetric] simp del: take_append split: bool.split)
          show ?thesis
          proof (cases "q4 = Ok ()")
            case False
            then have "q4 = Err ()" using o4(1) by blast
            then have "run ?io w = (Ok (jr\<lparr>err_no := ROCKER_ERR_enter_rocker_failed\<rparr>), w4)"
              using s4 by (simp add: upto run_attempt)
            moreover have "?abs (es1 @ es2 @ es3 @ es4) = jr\<lparr>err_no := ROCKER_ERR_enter_rocker_failed\<rparr>"
              using False o1 o2 o3 o4 fd sent2 m by (subst abs) auto
            ultimately show ?thesis using s1 s2 s3 s4 by fastforce
          next
            case ok4: True
            obtain pid k w5 es5 where s5: "run (run_in_brother M :: ('e, i32 option \<times> bool) io) w4 = (Ok (pid, k), w5)"
                "trace w5 = trace w4 @ es5"
              and o5: "k \<longleftrightarrow> (\<exists>n. cloned es5 = [n] \<and> pid = Some n \<and> 0 \<le> sint n)"
                "\<not> k \<longrightarrow> cloned es5 = [] \<or> (\<exists>n. cloned es5 = [n] \<and> sint n < 0)"
                "\<not> did_bind es5" "\<forall>v. \<not> did_send v es5" "got_msgs es5 = []" "\<forall>f. no_setns_failed f es5"
              using brother_observed by metis
            define jr5 where "jr5 = (case pid of None \<Rightarrow> jr | Some n \<Rightarrow> jr\<lparr>rs_app_pid := n\<rparr>)"
            define es where "es = es1 @ es2 @ es3 @ es4 @ es5"
            have run: "run ?io w = (Ok (if k then jr5 else jr5\<lparr>err_no := ROCKER_ERR_app_exec_failed\<rparr>), w5)"
              using s4 s5 ok4 by (simp add: upto run_attempt Let_def jr5_def)
            have "did_bind es" "did_send vec es" "got_msgs es = [(d, fds)]" "\<forall>f \<in> set fds3. no_setns_failed f es" "cloned es = cloned es5"
              using o1 o2 o3 o4 o5 fd sent2 m ok4 by (auto simp: es_def)
            note a = abs [OF this(1-3)] this(4,5)
            have "res_convert (if k then jr5 else jr5\<lparr>err_no := ROCKER_ERR_app_exec_failed\<rparr>) = res_convert (?abs es)"
            proof (cases k)
              case True
              then show ?thesis using o5(1) a by (auto simp: jr5_def Let_def)
            next
              case False
              then have "err_no (?abs es) = ROCKER_ERR_app_exec_failed" using o5(2) a by (auto simp: Let_def)
              with False show ?thesis by (intro res_convert_code) (simp_all add: rocker_err_defs)
            qed
            with run s1 s2 s3 s4 s5 show ?thesis
              by (intro exI [of _ "if k then jr5 else jr5\<lparr>err_no := ROCKER_ERR_app_exec_failed\<rparr>"] exI [of _ w5] exI [of _ es])
                (simp add: es_def)
          qed
        qed
      qed
    qed
  qed
next
  case False
  then show ?thesis
    by (intro exI [of _ "Rocker_result_new\<lparr>err_no := ROCKER_ERR_server_unaddr_invalid\<rparr>"] exI [of _ w] exI [of _ "[]"])
      (simp add: ROCKER_enter_rocker_inner_io_def ROCKER_enter_rocker_inner_def Let_def run_attempt
        unix_abstract_udp_genaddr_def observed_env_def)
qed


lemma scatter_length: "length (rs_guard_pname jr) = 16 \<Longrightarrow> length (rs_guard_pname (scatter_reply be d jr)) = 16"
  by (simp add: scatter_reply_def Let_def)

lemma inner_name_length:
  assumes "run (ROCKER_enter_rocker_inner_io M be bits uau stale rq) w = (Ok jr, w')"
  shows "length (rs_guard_pname jr) = 16"
proof -
  have new: "length (rs_guard_pname Rocker_result_new) = 16" by (simp add: Rocker_result_new_def)
  with scatter_length [OF new] assms show ?thesis
    by (auto simp: ROCKER_enter_rocker_inner_io_def Let_def run_attempt bnd_Ok_iff
        split: prod.splits outcome.splits if_splits option.splits)
qed

lemma decode_encode: "length (rs_guard_pname jr) = 16 \<Longrightarrow> decode_result be (encode_result be jr) = jr"
  by (cases jr) (simp add: decode_result_def encode_result_def i32_bytes_roundtrip)

lemma length_encode [simp]: "length (encode_result be jr) = 12 + length (rs_guard_pname jr)"
  by (simp add: encode_result_def)

lemma observed_env_framed:
  assumes "\<And>e. e \<in> set (pre @ post) \<Longrightarrow> ev_call e \<in> {Pipe, Fork, Write fd d} \<and> (\<forall>d fs. ev_reply e \<noteq> RMsg d fs)"
  shows "observed_env uau (pre @ es @ post) = observed_env uau es"
proof -
  have "silent_env xs" if "set xs \<subseteq> set (pre @ post)" for xs
    using that
  proof (induction xs)
    case (Cons e xs)
    then have "ev_call e \<in> {Pipe, Fork, Write fd d} \<and> (\<forall>d fs. ev_reply e \<noteq> RMsg d fs)" using assms by simp
    then have "silent_env [e]" by (auto simp: silent_env_def observed_one split: reply.split)
    with Cons observed_Cons [where e = e and t = xs] show ?case by (simp add: silent_env_def)
  qed (simp add: silent_env_def)
  from this [of pre] this [of post] show ?thesis by (simp add: observed_env_def silent_env_def)
qed



text \<open>A child whose guard is 4242, with three namespaces, and the parent that reads its result.\<close>

definition child_machine :: machine where
  "child_machine = sample\<lparr>m_num := (\<lambda>t c. Inr (if c = Fork then 0 else if c = CloneParent then 77 else 9)),
     m_msg := (\<lambda>t c. Inr (i32_to_ne_bytes False 4242 @ replicate 16 7, [5, 6, 7]))\<rparr>"

definition child_result :: metal_result where
  "child_result = \<lparr>err_no = 0, rs_app_pid = 77, rs_guard_pid = 4242, rs_guard_pname = replicate 16 7\<rparr>"

lemma child_calls:
  "\<exists>wc. run (ROCKER_enter_rocker_io child_machine False 64 [101] 0 True rq :: (unit, metal_result option) io) start = (Ok None, wc)
     \<and> new_calls start wc = [Pipe, Fork, SocketDgram, Setsockopt 9 ReuseAddr, BindAuto 9,
         Sendmsg 9 (ROCKER_parse_request False 64 rq) [] ([101] @ replicate 106 0), Recvmsg 9 20, Setns 5, Setns 6, Setns 7,
         Malloc 4194304, CloneParent, Write 4 (encode_result False child_result)]"
proof -
  define vec where "vec = ROCKER_parse_request False 64 rq"
  have vec: "vec \<noteq> []" by (simp add: vec_def ROCKER_parse_request_def Let_def)
  define pad where "pad = [101] @ replicate 106 (0 :: u8)"
  have addr: "unix_abstract_udp_genaddr [101] = ret pad"
    by (simp add: unix_abstract_udp_genaddr_def pad_def)
  have scat: "scatter_reply False (i32_to_ne_bytes False 4242 @ replicate 16 7) Rocker_result_new
      = \<lparr>err_no = 0, rs_app_pid = 0, rs_guard_pid = 4242, rs_guard_pname = replicate 16 7\<rparr>"
    by (simp add: scatter_reply_def Rocker_result_new_def Let_def rocker_err_defs)
  show ?thesis
    unfolding ROCKER_enter_rocker_io_def ROCKER_enter_rocker_inner_io_def vec_def [symmetric] pad_def [symmetric] addr
    using vec by (simp add: child_machine_def creat_pipe_def run_attempt run_bnd run_handle seq_def Let_def c_unit_def or_close_def
        unix_abstract_udp_new_autobound_def send_normal_def recv_fd_def recvmsg_some_def enter_ns_io_def run_in_brother_def
        scat child_result_def new_calls_def numeral_3_eq_3)
qed



section \<open>What a started application inherits\<close>

text \<open>
  A call of \<open>ROCKER_enter_rocker_inner\<close> that succeeds has closed nothing: the started process, which gets a copy of the table of
  descriptors, inherits both ends of the pipe, the socket and the three namespace descriptors.
\<close>

lemma attempt_known: "attempt (ret a) stop f = f a" "attempt (fail e) stop f = stop"
  by (rule io_eqI; simp add: run_attempt)+

lemma emits_attempt [emits_intros]:
  "emits P m \<Longrightarrow> emits P stop \<Longrightarrow> (\<And>a. emits P (f a)) \<Longrightarrow> emits P (attempt m stop f)"
  unfolding attempt_def map_err_def by (auto intro!: emits_intros split: option.split)

lemma emits_c_unit [emits_intros]: "P c \<Longrightarrow> emits P (c_unit M c)"
  by (auto simp: c_unit_def intro!: emits_intros)

lemma emits_recv_fd [emits_intros]: "P (Recvmsg fd 20) \<Longrightarrow> P (Poll [fd] {POLLIN} 3000) \<Longrightarrow> emits P (recv_fd M stale fd)"
  by (auto simp: recv_fd_def recvmsg_some_def map_err_def intro!: emits_intros split: sum.split)

lemma emits_brother [emits_intros]: "P (Malloc 4194304) \<Longrightarrow> P CloneParent \<Longrightarrow> emits P (run_in_brother M)"
  by (auto simp: run_in_brother_def Let_def intro!: emits_intros split: sum.split)

lemma autobound_Ok_calls:
  "run (unix_abstract_udp_new_autobound M) w = (Ok fd, w') \<Longrightarrow>
     trace w' = trace w @ [Ev SocketDgram (RNum fd), Ev (Setsockopt fd ReuseAddr) RUnit, Ev (BindAuto fd) RUnit]"
  by (auto simp: unix_abstract_udp_new_autobound_def or_close_def c_unit_def bnd_Ok_iff seq_Ok_iff handle_Ok_iff
      from_res_Ok_iff emit_def)

lemma success_closes_nothing:
  assumes "run (ROCKER_enter_rocker_inner_io M be bits uau stale rq :: ('e, metal_result) io) w = (Ok jr, w')"
    and "err_no jr = ROCKER_ERR_success"
  shows "\<forall>c \<in> set (new_calls w w'). \<forall>fd. c \<noteq> Close fd"
proof -
  obtain q w1 where bound: "run (unix_abstract_udp_new_autobound M) w = (q, w1)" by fastforce
  define peer where "peer = uau @ replicate (107 - length uau) 0"
  have code: "ROCKER_ERR_server_unaddr_invalid \<noteq> ROCKER_ERR_success" "ROCKER_ERR_gen_local_addr_failed \<noteq> ROCKER_ERR_success"
    by (simp_all add: rocker_err_defs)
  let ?rest = "\<lambda>fd. attempt (send_normal M fd (ROCKER_parse_request be bits rq) peer)
      (ret (Rocker_result_new\<lparr>err_no := ROCKER_ERR_send_req_failed\<rparr>)) (\<lambda>_.
      attempt (recv_fd M stale fd) (ret (Rocker_result_new\<lparr>err_no := ROCKER_ERR_recv_resp_failed\<rparr>)) (\<lambda>(d, fds).
      let jr = scatter_reply be d Rocker_result_new in
      if sint (rs_guard_pid jr) < 0 \<or> fds = [] then ret (jr\<lparr>err_no := ROCKER_ERR_rocker_build_failed\<rparr>)
      else attempt (enter_ns_io M (take 3 (fds @ replicate 3 0))) (ret (jr\<lparr>err_no := ROCKER_ERR_enter_rocker_failed\<rparr>)) (\<lambda>_.
      bnd (run_in_brother M) (\<lambda>(pid, ok).
      let jr = (case pid of None \<Rightarrow> jr | Some n \<Rightarrow> jr\<lparr>rs_app_pid := n\<rparr>) in
      if ok then ret jr else ret (jr\<lparr>err_no := ROCKER_ERR_app_exec_failed\<rparr>))))) :: ('e, metal_result) io"
  have set_code: "err_no (r\<lparr>err_no := c\<rparr>) = c" for r :: metal_result and c by (cases r) simp
  obtain fd where fd: "q = Ok fd" and rest: "run (?rest fd) w1 = (Ok jr, w')"
  proof (cases "length uau \<le> 107")
    case True
    then have "unix_abstract_udp_genaddr uau = ret peer" by (simp add: unix_abstract_udp_genaddr_def peer_def)
    with assms bound code(2) that show ?thesis
      unfolding ROCKER_enter_rocker_inner_io_def
      by (cases q) (auto simp only: Let_def attempt_known run_attempt [of "unix_abstract_udp_new_autobound M"] prod.case outcome.case
          run_ret prod.inject outcome.inject outcome.distinct set_code)
  next
    case False
    with assms code(1) show ?thesis
      by (auto simp: ROCKER_enter_rocker_inner_io_def unix_abstract_udp_genaddr_def Let_def attempt_known set_code)
  qed
  have "emits (\<lambda>c. \<forall>fd. c \<noteq> Close fd) (?rest fd)"
    by (auto simp: send_normal_def enter_ns_io_def Let_def intro!: emits_intros split: prod.split)
  from emitsD [OF this rest] obtain es where es: "trace w' = trace w1 @ es" "\<forall>e \<in> set es. \<forall>fd. ev_call e \<noteq> Close fd" by blast
  have "trace w' = trace w @ [Ev SocketDgram (RNum fd), Ev (Setsockopt fd ReuseAddr) RUnit, Ev (BindAuto fd) RUnit] @ es"
    using autobound_Ok_calls bound fd es(1) by fastforce
  from new_calls_ext [OF this] es(2) show ?thesis by auto
qed

end
