(* ===== verification/Rk_Patience.thy ===== *)
theory Rk_Patience
  imports Rk_Cio
begin

text \<open>
  How long both sides wait: the time a program may spend in the calls that wait, \<open>poll\<close> and \<open>sleep\<close>, in
  milliseconds, counted from their arguments. The waiting for the lock of the log is left out.
\<close>

section \<open>Waiting\<close>

fun wait_of :: "syscall \<Rightarrow> nat" where
  "wait_of (Poll fds fl ms) = nat ms"
| "wait_of (Sleep secs) = 1000 * secs"
| "wait_of c = 0"

definition waited :: "event list \<Rightarrow> nat" where
  "waited t = sum_list (map (\<lambda>e. wait_of (ev_call e)) t)"

definition time_spent :: "('e, 'a) io \<Rightarrow> world \<Rightarrow> nat" where
  "time_spent m w = waited (drop (length (trace w)) (trace (snd (run m w))))"

definition patient :: "nat \<Rightarrow> ('e, 'a) io \<Rightarrow> bool" where
  "patient n m \<longleftrightarrow> (\<forall>w. \<exists>es. trace (snd (run m w)) = trace w @ es \<and> waited es \<le> n)"

named_theorems patient_intros \<open>budgets along a program\<close>

lemma waited_append [simp]: "waited (s @ t) = waited s + waited t" "waited [] = 0"
  by (simp_all add: waited_def)

lemma patientI: "(\<And>w r w'. run m w = (r, w') \<Longrightarrow> \<exists>es. trace w' = trace w @ es \<and> waited es \<le> n) \<Longrightarrow> patient n m"
  unfolding patient_def by (metis prod.collapse)

lemma patientD: "patient n m \<Longrightarrow> run m w = (r, w') \<Longrightarrow> \<exists>es. trace w' = trace w @ es \<and> waited es \<le> n"
  unfolding patient_def by (metis snd_conv)

lemma patient_spent: "patient n m \<Longrightarrow> time_spent m w \<le> n"
  unfolding patient_def time_spent_def by (metis append_eq_conv_conj)

lemma patient_mono: "patient n m \<Longrightarrow> n \<le> k \<Longrightarrow> patient k m"
  unfolding patient_def by (meson le_trans)

lemma patient_emits:
  assumes "emits P m" and "\<And>c. P c \<Longrightarrow> wait_of c = 0"
  shows "patient 0 m"
proof (rule patientI)
  fix w r w'
  assume "run m w = (r, w')"
  from emitsD [OF assms(1) this] obtain es where es: "trace w' = trace w @ es" "\<forall>e \<in> set es. P (ev_call e)" by blast
  have "waited es = 0" using es(2) assms(2) by (auto simp: waited_def)
  with es(1) show "\<exists>es. trace w' = trace w @ es \<and> waited es \<le> 0" by auto
qed

lemma patient_bnd:
  assumes m: "patient a m" and f: "\<And>x. patient k (f x)"
  shows "patient (a + k) (bnd m f)"
proof (rule patientI)
  fix w r w''
  assume run: "run (bnd m f) w = (r, w'')"
  obtain q w' where q: "run m w = (q, w')" by fastforce
  from patientD [OF m q] obtain es where es: "trace w' = trace w @ es" "waited es \<le> a" by blast
  show "\<exists>es. trace w'' = trace w @ es \<and> waited es \<le> a + k"
  proof (cases q)
    case (Ok x)
    with run q have "run (f x) w' = (r, w'')" by simp
    from patientD [OF f this] obtain es' where "trace w'' = trace w' @ es'" "waited es' \<le> k" by blast
    with es show ?thesis by (intro exI [of _ "es @ es'"]) simp
  qed (use run q es in \<open>auto intro: trans_le_add1\<close>)
qed

lemma patient_handle:
  assumes m: "patient a m" and h: "\<And>e. patient k (h e)"
  shows "patient (a + k) (handle m h)"
proof (rule patientI)
  fix w r w''
  assume run: "run (handle m h) w = (r, w'')"
  obtain q w' where q: "run m w = (q, w')" by fastforce
  from patientD [OF m q] obtain es where es: "trace w' = trace w @ es" "waited es \<le> a" by blast
  show "\<exists>es. trace w'' = trace w @ es \<and> waited es \<le> a + k"
  proof (cases q)
    case (Err x)
    with run q have "run (h x) w' = (r, w'')" by simp
    from patientD [OF h this] obtain es' where "trace w'' = trace w' @ es'" "waited es' \<le> k" by blast
    with es show ?thesis by (intro exI [of _ "es @ es'"]) simp
  qed (use run q es in \<open>auto intro: trans_le_add1\<close>)
qed

lemma patient_quick: "patient a m \<Longrightarrow> (\<And>x. patient 0 (f x)) \<Longrightarrow> patient a (bnd m f)"
  using patient_bnd [of a m 0 f] by simp

lemma patient_after: "patient 0 m \<Longrightarrow> (\<And>x. patient a (f x)) \<Longrightarrow> patient a (bnd m f)"
  using patient_bnd [of 0 m a f] by simp

lemma patient_caught: "patient a m \<Longrightarrow> (\<And>e. patient 0 (h e)) \<Longrightarrow> patient a (handle m h)"
  using patient_handle [of a m 0 h] by simp

text \<open>Programs whose calls do not wait.\<close>

fun quick :: "syscall \<Rightarrow> bool" where
  "quick (Poll fds fl ms) = False"
| "quick (Sleep n) = False"
| "quick c = True"

lemma quick_wait: "quick c \<Longrightarrow> wait_of c = 0"
  by (cases c) simp_all

lemma quick_log: "log_call c \<Longrightarrow> quick c"
  by (cases c) simp_all

lemma quick_cfg: "cfg_call c \<Longrightarrow> quick c"
  by (cases c) simp_all

lemma patient_quickly: "emits quick m \<Longrightarrow> patient 0 m"
  by (rule patient_emits [OF _ quick_wait])

section \<open>The server's budget\<close>

lemma patient_recv_timed: "patient 2000 (recv_timed M fd buf 2)"
proof -
  have "patient 2000 (poll_in M [fd] 2)"
  proof (rule patientI)
    fix w r w'
    assume "run (poll_in M [fd] 2) w = (r, w')"
    then show "\<exists>es. trace w' = trace w @ es \<and> waited es \<le> 2000"
      by (cases "m_num M (trace w) (Poll [fd] {POLLIN} 2000)")
        (auto simp: poll_in_def poll_any_def emit_def waited_def)
  qed
  moreover have dontwait: "patient 0 (recv_dontwait M fd buf)" "patient 0 (bnd (recv_dontwait M fd buf) (from_res Nix))"
    by (rule patient_quickly; auto simp: recv_dontwait_def intro!: emits_intros)+
  ultimately have again: "patient 2000 (seq (poll_in M [fd] 2) (bnd (recv_dontwait M fd buf) (from_res Nix)))"
    unfolding seq_def by (intro patient_quick [where a = 2000])
  have ends: "patient 0 (ret x :: bytes core_io)" "patient 0 (fail e :: bytes core_io)" for x e
    by (rule patient_quickly; intro emits_intros)+
  show ?thesis
    unfolding recv_timed_def
    by (rule patient_after [OF dontwait(1)]) (auto split: sum.split intro: patient_mono again ends)
qed

lemma patient_recv_or_kill: "patient 2000 (recv_or_kill M fd pid)"
proof -
  have "patient 0 (seq (kill_SIGKILL M pid) (fail e) :: bytes core_io)" "patient 0 (ret x :: i32 core_io)" for e x
    by (rule patient_quickly; auto simp: kill_SIGKILL_def intro!: emits_intros)+
  then show ?thesis
    unfolding recv_or_kill_def on_err_def by (intro patient_quick patient_caught patient_recv_timed)
qed

text \<open>Two receives of at most two seconds each.\<close>

lemma patient_init: "patient 4000 (init M cfg)"
proof -
  have quickly: "patient 0 (unix_dgram_socketpair M)" "patient 0 (start_guard M c g)"
    "patient 0 (if sint l < 0 then seq (check_err M l) (ret c) else ret c')"
    "patient 0 (seq (check_err M e) (seq (on_err (write_uidmap M c q) (kill_SIGKILL M q))
       (seq (on_err (write_gidmap M c q) (kill_SIGKILL M q)) (ret c))))" for c c' g l e q
    by (rule patient_quickly; auto simp: unix_dgram_socketpair_def kill_SIGKILL_def quick_log intro!: emits_intros)+
  have "patient (2000 + 2000) (init M cfg)"
    unfolding init_def Let_def prod.case_distrib
    by (intro patient_after [OF quickly(1)], split prod.split, intro allI impI patient_after [OF quickly(2)], split prod.split,
        intro allI impI patient_bnd [OF patient_recv_or_kill] patient_after [OF quickly(3)] patient_quick [OF patient_recv_or_kill]
          quickly(4))
  then show ?thesis by simp
qed

lemma patient_check: "patient n m \<Longrightarrow> patient n (check M s a m)"
  unfolding check_def send_back_def send_resq_def
  by (rule patient_caught, assumption, rule patient_quickly) (auto simp: quick_log intro!: emits_intros)

lemma patient_worker_prepare: "patient 4000 (worker_prepare M req s a)"
proof -
  have parse: "patient 0 (req_parse M req)"
    by (rule patient_quickly, unfold req_parse_def Let_def) (intro emits_intros; simp add: quick_cfg)
  have ini: "patient 4000 (map_err SrvCore (init M cfg))" for cfg
    unfolding map_err_def by (intro patient_caught patient_init patient_quickly emits_intros)
  have quickly: "patient 0 (map_err SrvCore (get_guard_pid cfg))" "patient 0 (map_err SrvCore (get_namespace_fds M cfg))"
    "patient 0 (ret x :: (server_error, 'x) io)" for cfg x
    by (rule patient_quickly; auto simp: get_guard_pid_def intro!: emits_intros)+
  show ?thesis
    unfolding worker_prepare_def Let_def
    by (intro patient_after [OF patient_check [OF parse]] patient_quick [OF patient_check [OF ini]]
        patient_after [OF patient_check [OF quickly(1)]] patient_after [OF patient_check [OF quickly(2)]] patient_quickly emits_intros)
qed

section \<open>The client's\<close>

lemma patient_recv_fd: "patient 3000 (recv_fd M stale fd)"
proof -
  have one: "patient 0 (recvmsg_some M fd)" "patient 0 (map_err (\<lambda>_. ()) (recvmsg_some M fd))" "patient 0 (fail e :: (bytes \<times> fd list) c_io)" for e
    by (rule patient_quickly; auto simp: recvmsg_some_def intro!: emits_intros split: sum.split)+
  have poll: "patient 3000 (sys_num M (Poll [fd] {POLLIN} 3000) :: (errno + int) c_io)"
    by (rule patientI) (auto simp: emit_def waited_def)
  have "patient 3000 (bnd (sys_num M (Poll [fd] {POLLIN} 3000)) (\<lambda>r. case r of Inl _ \<Rightarrow> fail ()
      | Inr n \<Rightarrow> if 0 < n then map_err (\<lambda>_. ()) (recvmsg_some M fd) else fail ()))"
    using one by (intro patient_quick [OF poll]) (auto split: sum.split)
  then have "patient (0 + 3000) (recv_fd M stale fd)"
    unfolding recv_fd_def by (intro patient_handle one(1)) (auto intro: patient_mono [OF one(3)])
  then show ?thesis by simp
qed


section \<open>Both budgets together\<close>

text \<open>A kernel on which each message of the guard arrives while the master waits for it.\<close>

definition after_poll :: "event list \<Rightarrow> bool" where
  "after_poll t = (case rev t of [] \<Rightarrow> False | e # es \<Rightarrow> wait_of (ev_call e) \<noteq> 0)"

definition slow :: machine where
  "slow = chan_machine sample 3 [i32_to_ne_bytes False 1, i32_to_ne_bytes False SUCCESS] after_poll"

lemma slow_sel [simp]:
  "m_unit slow t c = Inr ()" "m_num slow t c = sample_num t c" "m_pair slow t c = Inr (3, 4)" "\<not> big_endian slow"
  by (simp_all add: slow_def chan_machine_def)

lemma slow_recv:
  "m_data slow t (Recv 3 n) = (if after_poll t \<and> recvd 3 t = 0 then Inr (take n (i32_to_ne_bytes False 1))
      else if after_poll t \<and> recvd 3 t = 1 then Inr (take n (i32_to_ne_bytes False SUCCESS)) else Inl EAGAIN)"
  by (auto simp: slow_def chan_machine_def less_Suc_eq numeral_2_eq_2)

lemma after_poll_snoc [simp]: "after_poll (t @ [Ev c r]) = (wait_of c \<noteq> 0)" "after_poll [] = False"
  by (simp_all add: after_poll_def)

lemma slow_recv_or_kill:
  assumes "\<not> after_poll (trace w)" and "recvd 3 (trace w) < 2"
  shows "\<exists>w'. run (recv_or_kill slow 3 pid) w = (Ok (if recvd 3 (trace w) = 0 then 1 else SUCCESS), w')
    \<and> recvd 3 (trace w') = Suc (recvd 3 (trace w)) \<and> \<not> after_poll (trace w') \<and> waited (trace w') = waited (trace w) + 2000"
  using assms by (simp add: recv_or_kill_def on_err_def run_bnd run_handle recv_timed_def recv_dontwait_def slow_recv fill_def
      seq_def poll_in_def poll_any_def sample_num_def emit_def after_poll_def waited_def)

lemma slow_init: "\<exists>cfg' w'. run (init slow sample_cfg) start = (Ok cfg', w') \<and> waited (trace w') = 4000"
proof -
  define cfg2 where "cfg2 = sample_cfg\<lparr>guard_stack := Some STACK_SIZ, guard_pid := Some 4242, guard_loop_id := Some 1\<rparr>"
  define w1 where "w1 = emit (Clone {CLONE_NEWNS, CLONE_NEWPID}) (RNum 4242) (emit Socketpair (RPair 3 4) start)"
  have w1: "\<not> after_poll (trace w1)" "recvd 3 (trace w1) = 0" "waited (trace w1) = 0"
    by (simp_all add: w1_def emit_def after_poll_def waited_def is_recv_def)
  then obtain w2 where w2: "run (recv_or_kill slow 3 4242) w1 = (Ok 1, w2)" "recvd 3 (trace w2) = 1" "\<not> after_poll (trace w2)"
      "waited (trace w2) = 2000"
    using slow_recv_or_kill [of w1 4242] by auto
  then obtain w3 where w3: "run (recv_or_kill slow 3 4242) w2 = (Ok SUCCESS, w3)" "waited (trace w3) = 4000"
    using slow_recv_or_kill [of w2 4242] by auto
  have maps: "\<exists>w'. run (write_uidmap slow cfg2 4242) w = (Ok (), w')" "\<exists>w'. run (write_gidmap slow cfg2 4242) w = (Ok (), w')" for w
    by (rule willing_maps; simp)+
  obtain w4 where u: "run (write_uidmap slow cfg2 4242) w3 = (Ok (), w4)" using maps(1) by blast
  obtain w5 where g: "run (write_gidmap slow cfg2 4242) w4 = (Ok (), w5)" using maps(2) by blast
  have quickly: "patient 0 (write_uidmap slow cfg2 4242)" "patient 0 (write_gidmap slow cfg2 4242)"
    by (rule patient_quickly; intro emits_intros; simp)+
  have "waited (trace w5) = 4000"
    using patientD [OF quickly(1) u] patientD [OF quickly(2) g] w3(2) by auto
  moreover have "run (init slow sample_cfg) start = (Ok cfg2, w5)"
    using w2(1) w3(1) u g unfolding init_def unix_dgram_socketpair_def start_guard_def
    by (simp add: run_bnd seq_def on_err_def run_handle Let_def w1_def [symmetric] cfg2_def [symmetric])
  ultimately show ?thesis by blast
qed


end
