(* ===== verification/Rk_Cfile.thy ===== *)
theory Rk_Cfile
  imports Rk_Cio
begin

unbundle bit_operations_syntax

text \<open>
  The rest of the client's C library, which nothing in it calls: the files, the descriptors and the connecting of
  \<open>io.c\<close>, the processes of \<open>namespace.c\<close>, the small helpers of \<open>utils.c\<close>, and the log files and error chains of \<open>log.c\<close>.
  The two loops of \<open>io.c\<close> run for a number of turns; \<open>Diverge\<close> means still running.
\<close>

section \<open>io.c: files\<close>

definition c_num :: "machine \<Rightarrow> syscall \<Rightarrow> int c_io" where
  "c_num M call = bnd (sys_num M call) (from_res (\<lambda>_. ()))"

definition open_for_read :: "machine \<Rightarrow> path \<Rightarrow> fd c_io" where
  "open_for_read M q = c_num M (Open RdOnly q)"

definition open_for_write :: "machine \<Rightarrow> path \<Rightarrow> fd c_io" where
  "open_for_write M q = c_num M (Open WrAppend q)"

definition open_for_creat :: "machine \<Rightarrow> path \<Rightarrow> fd c_io" where
  "open_for_creat M q = c_num M (Open CreateNew q)"

text \<open>A descriptor closed on every way out of the block.\<close>

definition closing :: "machine \<Rightarrow> fd \<Rightarrow> 'a c_io \<Rightarrow> 'a c_io" where
  "closing M fd m = bnd (handle (bnd m (\<lambda>a. ret (Some a))) (\<lambda>_. ret None))
     (\<lambda>r. seq (sys_unit M (Close fd)) (from_opt () r))"

primrec send_all :: "nat \<Rightarrow> machine \<Rightarrow> fd \<Rightarrow> fd \<Rightarrow> int \<Rightarrow> unit c_io" where
  "send_all 0 M fd_to fd_from len = diverge"
| "send_all (Suc n) M fd_to fd_from len =
     bnd (c_num M (Sendfile fd_to fd_from len)) (\<lambda>k.
       if 0 < len - k then send_all n M fd_to fd_from (len - k) else ret ())"

definition do_copy_file :: "nat \<Rightarrow> machine \<Rightarrow> fd \<Rightarrow> fd \<Rightarrow> unit c_io" where
  "do_copy_file n M fd_from fd_to =
     bnd (bnd (sys_size M (Fstat fd_from)) (from_res (\<lambda>_. ()))) (\<lambda>(kind, siz).
       if kind = FFile \<or> kind = FLink then send_all n M fd_to fd_from siz else fail ())"

definition copy_file :: "nat \<Rightarrow> machine \<Rightarrow> path \<Rightarrow> path \<Rightarrow> unit c_io" where
  "copy_file n M path_from path_to =
     bnd (open_for_read M path_from) (\<lambda>fd0. closing M fd0
       (bnd (open_for_creat M path_to) (\<lambda>fd1. closing M fd1 (do_copy_file n M fd0 fd1))))"

text \<open>
  The buffer is what has been read so far. \<open>total\<close> is an \<open>int\<close>: past \<open>2 ^ 31\<close> its overflow is undefined, here a panic.
  Memory that cannot be allocated is not noticed: the test is on the address of the result.
\<close>

primrec read_all :: "nat \<Rightarrow> machine \<Rightarrow> fd \<Rightarrow> int \<Rightarrow> bytes \<Rightarrow> bytes c_io" where
  "read_all 0 M fd siz buf = diverge"
| "read_all (Suc n) M fd siz buf =
     (if siz > int (length buf) then
        bnd (bnd (sys_data M (Read fd (nat (siz - int (length buf))))) (from_res (\<lambda>_. ()))) (\<lambda>d.
          if int (length buf) + int (length d) \<ge> 2 ^ 31 then panic else read_all n M fd siz (buf @ d))
      else ret buf)"

definition read_file :: "nat \<Rightarrow> machine \<Rightarrow> path \<Rightarrow> bytes c_io" where
  "read_file n M q =
     bnd (bnd (sys_size M (Stat q)) (from_res (\<lambda>_. ()))) (\<lambda>(_, siz).
     seq (sys_bool M (Malloc (nat siz)))
    (bnd (c_num M (Open RdOnly q)) (\<lambda>fd. closing M fd (read_all n M fd siz []))))"

text \<open>
  \<open>nftw\<close> walks a tree, the entries of a directory before it, and stops when its callback fails: the
  entries it visits, or its own error, are a parameter.
\<close>

datatype ftw_type = FTW_F | FTW_SL | FTW_SLN | FTW_DP | FTW_D | FTW_DNR | FTW_NS

definition remove_all_ctw_cb :: "machine \<Rightarrow> path \<Rightarrow> ftw_type \<Rightarrow> unit c_io" where
  "remove_all_ctw_cb M q file_type =
     (if file_type \<in> {FTW_F, FTW_SL, FTW_SLN} then c_unit M (RemoveFile q)
      else if file_type = FTW_DP then c_unit M (Rmdir q) else ret ())"

definition remove_all :: "machine \<Rightarrow> errno + (path \<times> ftw_type) list \<Rightarrow> unit c_io" where
  "remove_all M walk = (case walk of Inl e \<Rightarrow> fail ()
     | Inr es \<Rightarrow> for_each (\<lambda>(q, file_type). remove_all_ctw_cb M q file_type) es)"

section \<open>io.c: descriptors and sockets\<close>

definition O_NONBLOCK :: "32 word" where "O_NONBLOCK = 0x800"
definition EINPROGRESS :: errno where "EINPROGRESS = 115"

definition change_flags :: "machine \<Rightarrow> fd \<Rightarrow> (32 word \<Rightarrow> 32 word) \<Rightarrow> unit c_io" where
  "change_flags M fd f = bnd (c_num M (GetFl fd)) (\<lambda>opt. c_unit M (SetFl fd (f (word_of_int opt))))"

definition set_nonblocking :: "machine \<Rightarrow> fd \<Rightarrow> unit c_io" where
  "set_nonblocking M fd = change_flags M fd (\<lambda>opt. opt OR O_NONBLOCK)"

definition set_blocking :: "machine \<Rightarrow> fd \<Rightarrow> unit c_io" where
  "set_blocking M fd = change_flags M fd (\<lambda>opt. opt AND NOT O_NONBLOCK)"

definition sock_connect :: "machine \<Rightarrow> fd \<Rightarrow> addr \<Rightarrow> unit c_io" where
  "sock_connect M local_fd a =
     seq (set_nonblocking M local_fd)
       (bnd (sys_unit M (Connect local_fd a)) (\<lambda>r. case r of
           Inr _ \<Rightarrow> or_close M local_fd (set_blocking M local_fd)
         | Inl e \<Rightarrow> if e \<noteq> EINPROGRESS then fail ()
             else bnd (sys_num M (Poll [local_fd] {POLLIN, POLLOUT} 8000)) (\<lambda>r. case r of
                 Inl _ \<Rightarrow> fail ()
               | Inr n \<Rightarrow> if 0 < n then or_close M local_fd (set_blocking M local_fd) else fail ())))"

definition unix_abstract_udp_new_fromaddr :: "machine \<Rightarrow> addr \<Rightarrow> fd c_io" where
  "unix_abstract_udp_new_fromaddr M a =
     bnd (c_num M SocketDgram) (\<lambda>fd.
     seq (or_close M fd (c_unit M (Setsockopt fd ReuseAddr)))
    (seq (or_close M fd (c_unit M (BindAbstract fd a))) (ret fd)))"

definition unix_abstract_udp_new :: "machine \<Rightarrow> bytes \<Rightarrow> fd c_io" where
  "unix_abstract_udp_new M name = bnd (unix_abstract_udp_genaddr name) (unix_abstract_udp_new_fromaddr M)"

text \<open>
  The environment of a transfer: the control message always has room for eight descriptors and says
  that all eight are there.
\<close>

definition IO_TRANS_FD_LIMIT_NUM :: nat where "IO_TRANS_FD_LIMIT_NUM = 8"

record trans_env =
  fte_fdset :: "fd list"
  fte_vec :: "bytes list"

definition fte_init :: "fd list option \<Rightarrow> nat \<Rightarrow> bytes list \<Rightarrow> trans_env c_io" where
  "fte_init fdset fdset_actual_num vec =
     (if fdset_actual_num > IO_TRANS_FD_LIMIT_NUM then fail ()
      else let fds = (case fdset of None \<Rightarrow> [] | Some xs \<Rightarrow> take fdset_actual_num xs)
        in ret \<lparr>fte_fdset = fds @ replicate (IO_TRANS_FD_LIMIT_NUM - length fds) 0,
                fte_vec = (if vec = [] then [[1]] else vec)\<rparr>)"

definition send_fd :: "machine \<Rightarrow> fd \<Rightarrow> trans_env \<Rightarrow> addr \<Rightarrow> unit c_io" where
  "send_fd M fd env a = c_unit M (Sendmsg fd (fte_vec env) (fte_fdset env) a)"

text \<open>On a connected socket no address is given.\<close>

definition send_fd_connected :: "machine \<Rightarrow> fd \<Rightarrow> trans_env \<Rightarrow> unit c_io" where
  "send_fd_connected M fd env = send_fd M fd env []"

section \<open>namespace.c, utils.c, lib.c\<close>

text \<open>Memory that cannot be had ends the process, as a panic does.\<close>

definition proc_newx :: "machine \<Rightarrow> nat \<Rightarrow> i32 c_io" where
  "proc_newx M stack_size = bnd (sys_bool M (Malloc stack_size)) (\<lambda>stack.
     if \<not> stack then panic
     else bnd (c_num M CloneFiles) (\<lambda>n. ret (word_of_int n)))"

definition proc_new :: "machine \<Rightarrow> i32 c_io" where
  "proc_new M = proc_newx M (4 * 1024 * 1024)"

definition get_self_process_name :: "machine \<Rightarrow> bytes c_io" where
  "get_self_process_name M = bnd (sys_data M PrctlGetName) (from_res (\<lambda>_. ()))"

definition set_self_process_name :: "machine \<Rightarrow> bytes \<Rightarrow> unit c_io" where
  "set_self_process_name M newname = c_unit M (PrctlSetName newname)"

definition proc_exit_num :: "machine \<Rightarrow> i32 \<Rightarrow> ('e, i32) io" where
  "proc_exit_num M pid = bnd (sys_wait M (WaitPid pid)) (\<lambda>r. case r of
      Inr (Some code) \<Rightarrow> ret code
    | _ \<Rightarrow> ret (- 1))"

definition ROCKER_request_new :: metal_request where
  "ROCKER_request_new = \<lparr>rq_app_id = - 1, rq_uid = - 1, rq_gid = - 1, rq_pkg_path = None, rq_exec_dir = None,
     rq_data_dir = None, rq_overlay_dirs = replicate 16 None\<rparr>"

section \<open>log.c: the log files\<close>

text \<open>
  The file in use and the number of the next line in it. Without a directory the lines go to the standard error; else
  the name of a new file is made of the time at the first and the second try, and when both fail the process ends.
\<close>

record clog =
  log_fd :: fd
  log_cnter :: u32

definition MaxLogPerFile :: u32 where "MaxLogPerFile = 10000"
definition STDERR_FILENO :: fd where "STDERR_FILENO = 2"

definition logfd_init :: "machine \<Rightarrow> (nat \<Rightarrow> path) option \<Rightarrow> (unit, fd) io" where
  "logfd_init M logdir = (case logdir of None \<Rightarrow> ret STDERR_FILENO
     | Some name \<Rightarrow> handle (c_num M (Open CreateNew (name 0)))
         (\<lambda>_. seq (sys_unit M (Sleep 1)) (handle (c_num M (Open CreateNew (name 1))) (\<lambda>_. panic))))"

definition logrotate :: "machine \<Rightarrow> (nat \<Rightarrow> path) option \<Rightarrow> clog \<Rightarrow> (unit, clog) io" where
  "logrotate M logdir l =
     (if log_cnter l mod MaxLogPerFile = 0 then
        seq (sys_unit M (Close (log_fd l)))
          (bnd (logfd_init M logdir) (\<lambda>fd. ret \<lparr>log_fd = fd, log_cnter = 1\<rparr>))
      else ret l)"

definition do_info :: "machine \<Rightarrow> (nat \<Rightarrow> path) option \<Rightarrow> clog \<Rightarrow> (unit, clog) io" where
  "do_info M logdir l =
     bnd (if STDERR_FILENO \<noteq> log_fd l then logrotate M logdir l else ret l) (\<lambda>l.
     seq (sys_num M (Write (log_fd l) [])) (ret (l\<lparr>log_cnter := log_cnter l + 1\<rparr>)))"

section \<open>log.c: error chains\<close>

text \<open>
  A chain, the last error first. The text of an error is the copy that \<open>strdup\<close> made, missing when it had no memory;
  showing the chain puts the address of a literal there. Freeing a literal is undefined, here \<open>None\<close>.
\<close>

datatype desc_ptr = Missing | Heap string | Literal

record c_error =
  ce_code :: int
  ce_desc :: desc_ptr

definition err_new :: "int \<Rightarrow> string \<Rightarrow> bool \<Rightarrow> c_error list \<Rightarrow> c_error list" where
  "err_new code desc memory cause = \<lparr>ce_code = code, ce_desc = (if memory then Heap desc else Missing)\<rparr> # cause"

fun desc_text :: "desc_ptr \<Rightarrow> string" where
  "desc_text (Heap s) = s"
| "desc_text x = []"

primrec display_errchain :: "c_error list \<Rightarrow> (string \<times> int) list \<times> c_error list" where
  "display_errchain [] = ([], [])"
| "display_errchain (e # es) =
     (let e' = (if ce_desc e = Missing then e\<lparr>ce_desc := Literal\<rparr> else e); (out, es') = display_errchain es
      in ((desc_text (ce_desc e'), ce_code e') # out, e' # es'))"

primrec clean_errchain :: "c_error list \<Rightarrow> unit option" where
  "clean_errchain [] = Some ()"
| "clean_errchain (e # es) = (if ce_desc e = Literal then None else clean_errchain es)"

definition display_clean_errchain :: "c_error list \<Rightarrow> (string \<times> int) list \<times> unit option" where
  "display_clean_errchain es = (let (out, es') = display_errchain es in (out, clean_errchain es'))"

section \<open>What holds of them\<close>

text \<open>
  The copy ends when every \<open>sendfile\<close> moves something, and never when the source has become shorter than its
  \<open>stat\<close> said, since nothing is moved then; the same for the reading of a file.
\<close>

lemma send_all_ends:
  assumes "\<And>t len. 0 < len \<Longrightarrow> \<exists>k. m_num M t (Sendfile fd_to fd_from len) = Inr k \<and> 0 < k \<and> k \<le> len"
  shows "0 < len \<Longrightarrow> nat len \<le> n \<Longrightarrow> \<exists>w'. run (send_all n M fd_to fd_from len) w = (Ok (), w')"
proof (induction n arbitrary: len w)
  case (Suc n)
  from assms [OF Suc.prems(1)] obtain k where k: "m_num M (trace w) (Sendfile fd_to fd_from len) = Inr k" "0 < k" "k \<le> len"
    by blast
  show ?case
  proof (cases "0 < len - k")
    case True
    with Suc.IH [of "len - k"] Suc.prems(2) k(2) k(1) show ?thesis by (simp add: c_num_def run_bnd)
  qed (use k(1) in \<open>simp add: c_num_def run_bnd\<close>)
qed simp

lemma send_all_stuck:
  assumes "\<And>t. m_num M t (Sendfile fd_to fd_from len) = Inr 0" and "0 < len"
  shows "fst (run (send_all n M fd_to fd_from len) w) = Diverge"
  by (induction n arbitrary: w) (simp_all add: assms c_num_def run_bnd)

lemma read_all_ends:
  assumes "\<And>t k. 0 < k \<Longrightarrow> \<exists>d. m_data M t (Read fd k) = Inr d \<and> d \<noteq> [] \<and> length d \<le> k" and "siz < 2 ^ 31"
  shows "int (length buf) \<le> siz \<Longrightarrow> nat (siz - int (length buf)) < n \<Longrightarrow>
    \<exists>d w'. run (read_all n M fd siz buf) w = (Ok (buf @ d), w') \<and> int (length (buf @ d)) = siz"
proof (induction n arbitrary: buf w)
  case (Suc n)
  show ?case
  proof (cases "int (length buf) < siz")
    case True
    define k where "k = nat (siz - int (length buf))"
    with True assms(1) [of k] obtain d where d: "m_data M (trace w) (Read fd k) = Inr d" "d \<noteq> []" "length d \<le> k" by auto
    from d(2) have "1 \<le> length d" by (cases d) auto
    with d(3) have "int (length (buf @ d)) \<le> siz" "nat (siz - int (length (buf @ d))) < n"
      using Suc.prems(2) True by (simp_all add: k_def)
    from Suc.IH [OF this] obtain r w' where "run (read_all n M fd siz (buf @ d)) (emit (Read fd k) (RData d) w) = (Ok ((buf @ d) @ r), w')"
      "int (length ((buf @ d) @ r)) = siz" by blast
    moreover have "int (length buf) + int (length d) < 2 ^ 31"
      using \<open>int (length (buf @ d)) \<le> siz\<close> assms(2) by simp
    ultimately show ?thesis using True d(1)
      by (intro exI [of _ "d @ r"] exI [of _ w']) (simp add: run_bnd k_def [symmetric])
  qed (use Suc.prems in auto)
qed simp

lemma read_all_stuck:
  assumes "\<And>t k. m_data M t (Read fd k) = Inr []" and "int (length buf) < siz" and "siz < 2 ^ 31"
  shows "fst (run (read_all n M fd siz buf) w) = Diverge"
  using assms(2,3) by (induction n arbitrary: w) (simp_all add: assms(1) run_bnd)


text \<open>Blocking again after not blocking leaves the flags as they were, but for \<open>O_NONBLOCK\<close>.\<close>

lemma flags_restored: "(opt OR O_NONBLOCK) AND NOT O_NONBLOCK = opt AND NOT O_NONBLOCK"
  by (rule bit_word_eqI) (auto simp: bit_simps)

lemma set_flags:
  assumes "m_num M (trace w) (GetFl fd) = Inr (uint opt)"
  shows "\<exists>w'. run (set_blocking M fd) w = (case m_unit M (trace w @ [Ev (GetFl fd) (RNum (uint opt))]) (SetFl fd (opt AND NOT O_NONBLOCK)) of
      Inl e \<Rightarrow> (Err (), w') | Inr _ \<Rightarrow> (Ok (), w'))"
  by (cases "m_unit M (trace w @ [Ev (GetFl fd) (RNum (uint opt))]) (SetFl fd (opt AND NOT O_NONBLOCK))")
    (use assms in \<open>simp_all add: set_blocking_def change_flags_def c_num_def c_unit_def run_bnd emit_def\<close>)

text \<open>
  A connection that is refused while it is waited for is taken for a success: \<open>poll\<close> reports the
  socket, and nobody asks it for its error.
\<close>

lemma refused_connection_succeeds:
  assumes "\<And>t. m_num M t (GetFl fd) = Inr 2" and "\<And>t f. m_unit M t (SetFl fd f) = Inr ()"
    and "\<And>t. m_unit M t (Connect fd a) = Inl EINPROGRESS" and "\<And>t. m_num M t (Poll [fd] {POLLIN, POLLOUT} 8000) = Inr 1"
  shows "fst (run (sock_connect M fd a) w) = Ok ()"
  by (simp add: sock_connect_def set_nonblocking_def set_blocking_def change_flags_def or_close_def c_num_def c_unit_def
      run_bnd run_handle seq_def assms)

text \<open>However many descriptors are given, eight are sent: the rest are the standard input.\<close>

lemma eight_descriptors_sent:
  assumes "length fds \<le> 8"
  shows "bnd (fte_init (Some fds) (length fds) vec) (\<lambda>env. send_fd M fd env a)
    = c_unit M (Sendmsg fd (if vec = [] then [[1]] else vec) (fds @ replicate (8 - length fds) 0) a)"
  using assms by (simp add: fte_init_def send_fd_def IO_TRANS_FD_LIMIT_NUM_def Let_def)

text \<open>A directory that cannot be read is passed over: if it is the whole tree, success is reported and nothing removed.\<close>

lemma unreadable_directory_kept: "remove_all M (Inr [(q, FTW_DNR)]) = ret ()"
  by (simp add: remove_all_def remove_all_ctw_cb_def)

text \<open>A directory is removed only when everything the walk has shown before it is.\<close>

lemma remove_all_stops:
  assumes "run (for_each (\<lambda>(q, ty). remove_all_ctw_cb M q ty) es) w = (Err (), w')"
  shows "run (remove_all M (Inr (es @ rest))) w = (Err (), w')"
proof -
  have "for_each f (xs @ ys) = seq (for_each f xs) (for_each f ys)" for f :: "path \<times> ftw_type \<Rightarrow> unit c_io" and xs ys
    by (induction xs) (simp_all add: seq_def bnd_assoc)
  with assms show ?thesis by (simp add: remove_all_def seq_def)
qed

text \<open>A log file gets at most 9999 lines: the counter reaches the limit before the file is changed.\<close>

definition log_well :: "clog \<Rightarrow> bool" where
  "log_well l \<longleftrightarrow> log_fd l = STDERR_FILENO \<or> 1 \<le> unat (log_cnter l) \<and> unat (log_cnter l) \<le> 10000"

lemma do_info_counts:
  assumes "log_well l" and "run (do_info M logdir l) w = (Ok l', w')"
  shows "log_well l' \<and> (log_fd l \<noteq> STDERR_FILENO \<longrightarrow> log_cnter l \<noteq> MaxLogPerFile \<longrightarrow>
      log_fd l' = log_fd l \<and> unat (log_cnter l') = Suc (unat (log_cnter l)))
    \<and> (log_fd l \<noteq> STDERR_FILENO \<longrightarrow> log_cnter l = MaxLogPerFile \<longrightarrow> log_cnter l' = 2)"
proof (cases "log_fd l = STDERR_FILENO")
  case True
  with assms show ?thesis by (auto simp: do_info_def run_bnd seq_def log_well_def)
next
  case False
  with assms(1) have c: "1 \<le> unat (log_cnter l)" "unat (log_cnter l) \<le> 10000" by (auto simp: log_well_def)
  have m: "log_cnter l mod MaxLogPerFile = 0 \<longleftrightarrow> log_cnter l = MaxLogPerFile"
  proof -
    have "log_cnter l mod MaxLogPerFile = 0 \<longleftrightarrow> unat (log_cnter l) mod 10000 = 0"
      by (simp add: MaxLogPerFile_def word_unat_eq_iff unat_mod)
    also have "\<dots> \<longleftrightarrow> unat (log_cnter l) = 10000" using c by (metis dvd_imp_le dvd_refl le_antisym less_eq_Suc_le mod_0_imp_dvd mod_self One_nat_def)
    also have "\<dots> \<longleftrightarrow> log_cnter l = MaxLogPerFile" by (simp add: MaxLogPerFile_def word_unat_eq_iff)
    finally show ?thesis .
  qed
  show ?thesis
  proof (cases "log_cnter l = MaxLogPerFile")
    case True
    with False m assms(2) obtain fd v where "l' = \<lparr>log_fd = fd, log_cnter = 1 + 1\<rparr>"
      by (auto simp: do_info_def logrotate_def run_bnd seq_def split: prod.splits outcome.splits)
    with True show ?thesis by (simp add: log_well_def)
  next
    case other: False
    with False m assms(2) have l': "l' = l\<lparr>log_cnter := log_cnter l + 1\<rparr>"
      by (auto simp: do_info_def logrotate_def run_bnd seq_def)
    have "unat (log_cnter l) < 10000" using c(2) other by (simp add: MaxLogPerFile_def word_unat_eq_iff le_less)
    then have "unat (log_cnter l + 1) = Suc (unat (log_cnter l))" by (simp add: unat_word_ariths)
    with False other l' \<open>unat (log_cnter l) < 10000\<close> show ?thesis by (auto simp: log_well_def)
  qed
qed

text \<open>
  Showing and then freeing a chain frees no memory that is not its own, unless some text is missing, and then it
  does: the literal that was put in its place is freed.
\<close>

lemma shown_chain_freed:
  assumes "\<forall>e \<in> set es. ce_desc e \<noteq> Literal"
  shows "snd (display_clean_errchain es) = None \<longleftrightarrow> (\<exists>e \<in> set es. ce_desc e = Missing)"
    and "clean_errchain es = Some ()"
proof -
  have "clean_errchain (snd (display_errchain es)) = None \<longleftrightarrow> (\<exists>e \<in> set es. ce_desc e = Missing)"
    using assms by (induction es) (auto simp: Let_def split: prod.splits)
  then show "snd (display_clean_errchain es) = None \<longleftrightarrow> (\<exists>e \<in> set es. ce_desc e = Missing)"
    by (cases "display_errchain es") (simp add: display_clean_errchain_def)
  show "clean_errchain es = Some ()" using assms by (induction es) auto
qed

lemma shown_chain_complete:
  "fst (display_errchain es) = map (\<lambda>e. (desc_text (ce_desc e), ce_code e)) es"
  by (induction es) (auto simp: Let_def split: prod.splits)

end
