(* ===== verification/Rk_Fuel.thy ===== *)
theory Rk_Fuel
  imports Rk_Server Rk_Cfile
begin

text \<open>
  The bounds on loops and recursion: outcomes are ordered with \<open>Diverge\<close>, still running, at the bottom, and programs by what
  they come to. Every loop of the model grows with its bound, so a bound only decides whether a run is followed
  to its end, never how it ends.
\<close>

section \<open>The order\<close>

instantiation outcome :: (type, type) order_bot
begin

definition bot_outcome :: "('a, 'b) outcome" where
  "bot_outcome = Diverge"

definition less_eq_outcome :: "('a, 'b) outcome \<Rightarrow> ('a, 'b) outcome \<Rightarrow> bool" where
  "less_eq_outcome x y \<longleftrightarrow> x = Diverge \<or> x = y"

definition less_outcome :: "('a, 'b) outcome \<Rightarrow> ('a, 'b) outcome \<Rightarrow> bool" where
  "less_outcome x y \<longleftrightarrow> x = Diverge \<and> y \<noteq> Diverge"

instance
  by standard (auto simp: less_eq_outcome_def less_outcome_def bot_outcome_def)

end

instantiation io :: (type, type) preorder
begin

definition less_eq_io :: "('a, 'b) io \<Rightarrow> ('a, 'b) io \<Rightarrow> bool" where
  "less_eq_io m k \<longleftrightarrow> (\<forall>w. fst (run m w) = Diverge \<or> run m w = run k w)"

definition less_io :: "('a, 'b) io \<Rightarrow> ('a, 'b) io \<Rightarrow> bool" where
  "less_io m k \<longleftrightarrow> m \<le> k \<and> \<not> k \<le> m"

instance
proof
  show "m \<le> m" for m :: "('a, 'b) io" by (simp add: less_eq_io_def)
  show "m < k \<longleftrightarrow> m \<le> k \<and> \<not> k \<le> m" for m k :: "('a, 'b) io" by (simp add: less_io_def)
  show "m \<le> l" if "m \<le> k" "k \<le> l" for m k l :: "('a, 'b) io"
    using that unfolding less_eq_io_def by metis
qed

end

lemma io_leI: "(\<And>w. fst (run m w) \<noteq> Diverge \<Longrightarrow> run m w = run k w) \<Longrightarrow> m \<le> k"
  unfolding less_eq_io_def by blast

lemma io_leD: "m \<le> k \<Longrightarrow> fst (run m w) = Diverge \<or> run m w = run k w"
  unfolding less_eq_io_def by blast

lemma io_le_outcome: "m \<le> k \<Longrightarrow> fst (run m w) \<le> fst (run k w)"
  using io_leD [of m k w] by (auto simp: less_eq_outcome_def)

named_theorems fuel_mono \<open>programs that grow with their parts\<close>

lemma diverge_least [fuel_mono]: "diverge \<le> m"
  by (rule io_leI) simp

lemma io_le_refl [fuel_mono]: "m \<le> m" for m :: "('e, 'a) io"
  by simp

lemma bnd_mono [fuel_mono]:
  assumes "m \<le> m'" and "\<And>x. f x \<le> f' x"
  shows "bnd m f \<le> bnd m' f'"
proof (rule io_leI)
  fix w
  assume run: "fst (run (bnd m f) w) \<noteq> Diverge"
  then have "fst (run m w) \<noteq> Diverge" by (auto simp: run_bnd split: prod.splits)
  with io_leD [OF assms(1)] have m: "run m' w = run m w" by metis
  show "run (bnd m f) w = run (bnd m' f') w"
  proof (cases "run m w")
    case (Pair r w1)
    show ?thesis
    proof (cases r)
      case (Ok x)
      with run Pair io_leD [OF assms(2) [of x], of w1] m show ?thesis by (auto simp: run_bnd)
    qed (use Pair m in \<open>simp_all add: run_bnd\<close>)
  qed
qed

lemma seq_mono [fuel_mono]: "m \<le> m' \<Longrightarrow> k \<le> k' \<Longrightarrow> seq m k \<le> seq m' k'"
  unfolding seq_def by (rule bnd_mono)

lemma handle_mono [fuel_mono]:
  assumes "m \<le> m'" and "\<And>e. h e \<le> h' e"
  shows "handle m h \<le> handle m' h'"
proof (rule io_leI)
  fix w
  assume run: "fst (run (handle m h) w) \<noteq> Diverge"
  then have "fst (run m w) \<noteq> Diverge" by (auto simp: run_handle split: prod.splits)
  with io_leD [OF assms(1)] have m: "run m' w = run m w" by metis
  show "run (handle m h) w = run (handle m' h') w"
  proof (cases "run m w")
    case (Pair r w1)
    show ?thesis
    proof (cases r)
      case (Err e)
      with run Pair io_leD [OF assms(2) [of e], of w1] m show ?thesis by (auto simp: run_handle)
    qed (use Pair m in \<open>simp_all add: run_handle\<close>)
  qed
qed

lemma if_mono [fuel_mono]: "(b \<Longrightarrow> m \<le> m') \<Longrightarrow> (\<not> b \<Longrightarrow> k \<le> k') \<Longrightarrow> (if b then m else k) \<le> (if b then m' else k')"
  for m m' :: "('e, 'a) io"
  by simp

lemma with_world_mono [fuel_mono]: "(\<And>v. f v \<le> f' v) \<Longrightarrow> with_world f \<le> with_world f'"
  unfolding less_eq_io_def by simp

lemma sum_case_mono [fuel_mono]:
  "(\<And>e. f e \<le> f' e) \<Longrightarrow> (\<And>v. g v \<le> g' v) \<Longrightarrow>
    (case r of Inl e \<Rightarrow> f e | Inr v \<Rightarrow> g v) \<le> (case r of Inl e \<Rightarrow> f' e | Inr v \<Rightarrow> g' v)"
  for f f' :: "'x \<Rightarrow> ('e, 'a) io"
  by (cases r) simp_all

text \<open>A loop whose body grows with the rest of the loop grows with its bound.\<close>

lemma fuel_loop:
  fixes f :: "nat \<Rightarrow> 'x \<Rightarrow> ('e, 'a) io"
  assumes "\<And>x. f 0 x = diverge" and "\<And>n x. f (Suc n) x = body (f n) x"
    and "\<And>g h x. (\<And>y. g y \<le> h y) \<Longrightarrow> body g x \<le> body h x" and "n \<le> n'"
  shows "f n x \<le> f n' x"
  using assms(4)
proof (induction n arbitrary: n' x)
  case 0
  then show ?case by (simp add: assms(1) diverge_least)
next
  case (Suc n)
  then obtain k where k: "n' = Suc k" by (cases n') auto
  with Suc have "f n y \<le> f k y" for y by simp
  then show ?case unfolding k assms(2) by (rule assms(3))
qed

section \<open>The loops of the model\<close>

lemma guard_wait_mono: "n \<le> n' \<Longrightarrow> guard_wait n M \<le> (guard_wait n' M :: ('e, unit) io)"
  by (rule fuel_loop [where f = "\<lambda>n (_ :: unit). guard_wait n M" and x = "()"
        and body = "\<lambda>f (_ :: unit). seq (sleep M 20) (bnd (guard_running_alone M) (\<lambda>alone. if alone then ret () else f ()))"])
    (auto intro!: fuel_mono)

lemma guard_ops_mono: "n \<le> n' \<Longrightarrow> guard_ops n M fd cfg \<le> guard_ops n' M fd cfg"
  unfolding guard_ops_def by (intro fuel_mono guard_wait_mono)

lemma send_all_mono: "n \<le> n' \<Longrightarrow> send_all n M fd_to fd_from len \<le> send_all n' M fd_to fd_from len"
  by (rule fuel_loop [where f = "\<lambda>n. send_all n M fd_to fd_from"
        and body = "\<lambda>f len. bnd (c_num M (Sendfile fd_to fd_from len)) (\<lambda>k. if 0 < len - k then f (len - k) else ret ())"])
    (auto intro!: fuel_mono)

lemma read_all_mono: "n \<le> n' \<Longrightarrow> read_all n M fd siz buf \<le> read_all n' M fd siz buf"
  by (rule fuel_loop [where f = "\<lambda>n. read_all n M fd siz" and body = "\<lambda>f buf. if siz > int (length buf) then
        bnd (bnd (sys_data M (Read fd (nat (siz - int (length buf))))) (from_res (\<lambda>_. ()))) (\<lambda>d.
          if int (length buf) + int (length d) \<ge> 2 ^ 31 then panic else f (buf @ d))
      else ret buf"])
    (auto intro!: fuel_mono)

lemma closing_mono [fuel_mono]: "m \<le> m' \<Longrightarrow> closing M fd m \<le> closing M fd m'"
  unfolding closing_def by (intro fuel_mono)

lemma copy_file_mono: "n \<le> n' \<Longrightarrow> copy_file n M q r \<le> copy_file n' M q r"
  unfolding copy_file_def do_copy_file_def
  by (intro fuel_mono) (auto intro!: fuel_mono send_all_mono)

lemma read_file_mono: "n \<le> n' \<Longrightarrow> read_file n M q \<le> read_file n' M q"
  unfolding read_file_def by (intro fuel_mono) (auto intro!: fuel_mono read_all_mono)

text \<open>The stack under the log: a line that is printed, or dies, within some frames does the same within more.\<close>

lemma log_line_mono [fuel_mono]: "m \<le> k \<Longrightarrow> log_line M m \<le> log_line M k"
  unfolding log_line_def sem_get_def sem_put_def get_clocktime_def by (intro fuel_mono)

lemma p_at_mono: "n \<le> n' \<Longrightarrow> p_at n M \<le> (p_at n' M :: ('e, unit) io)"
  by (rule fuel_loop [where f = "\<lambda>n (_ :: unit). p_at n M" and x = "()" and body = "\<lambda>f (_ :: unit). log_line M (f ())"])
    (auto intro!: fuel_mono)

text \<open>The two endless loops of the server return what they have done besides.\<close>

lemma resource_worker_mono:
  "fst (resource_worker n M hdr w) \<noteq> Diverge \<Longrightarrow> n \<le> n' \<Longrightarrow> resource_worker n' M hdr w = resource_worker n M hdr w"
proof (induction n arbitrary: n' hdr w)
  case (Suc n)
  then obtain k where k: "n' = Suc k" by (cases n') auto
  obtain r hdr1 w1 where r: "reap M hdr w = (r, hdr1, w1)" by (cases "reap M hdr w")
  show ?case
  proof (cases r)
    case (Ok u)
    with r Suc.prems k have "resource_worker k M hdr1 w1 = resource_worker n M hdr1 w1"
      by (intro Suc.IH) simp_all
    with r Ok k show ?thesis by simp
  qed (use r k in simp_all)
qed simp

lemma uau_serve_mono:
  "fst (uau_serve n M fd w) \<noteq> Diverge \<Longrightarrow> n \<le> n' \<Longrightarrow> uau_serve n' M fd w = uau_serve n M fd w"
proof (induction n arbitrary: n' w)
  case (Suc n)
  then obtain k where k: "n' = Suc k" by (cases n') auto
  let ?c = "Recvfrom fd SERVER_BUF"
  show ?case
  proof (cases "m_from M (trace w) ?c")
    case (Inr m)
    obtain d a where m: "m = (d, a)" by (cases m)
    define w1 where "w1 = emit ?c (RFrom d a) w"
    with Suc.prems Inr m k have "uau_serve k M fd w1 = uau_serve n M fd w1"
      by (intro Suc.IH) (auto simp: Let_def split: prod.splits)
    with Inr m k show ?thesis by (simp add: Let_def w1_def)
  qed (use k in \<open>simp add: Let_def\<close>)
qed simp

section \<open>The bounds do not matter\<close>



end
