(* ===== verification/Spec2Isabelle.thy ===== *)
theory Spec2Isabelle
  imports Rk_Refine Rk_Fair Rk_Tests Rk_Patience Rk_Fuel
begin

text \<open>
  A verification development of rocker, a program that runs applications in light containers
  (``rockers''): a server that starts one guard process per rocker, keeps the guard's mounts and
  loop device, and hands the namespaces of the guard to a client, which enters them and starts its
  application there. The whole Rust code is modelled, its tests included, and the C client library.

  \<^bold>\<open>Parts of the program and their theories.\<close>
  \<^item> \<open>Rk_Prelude\<close>: words and bytes, native-endian encodings, UTF-8 validity, C strings, decimal text.
  \<^item> \<open>Rk_System\<close>: the kernel and the monad. A \<open>machine\<close> answers every call from the trace of calls
    before it, so any kernel and any interleaving is an instance; it also holds the width of
    \<open>usize\<close>, the byte order, whether arithmetic is checked, and the depth of the stack. A \<open>world\<close>
    is the trace with the process-wide statics. A program returns \<open>Ok\<close>, \<open>Err\<close>, \<open>Panic\<close> or
    \<open>Diverge\<close>. \<open>Rk_Sample\<close> is a concrete kernel for the witnesses.
  \<^item> \<open>Rk_Log\<close> (\<open>core/src/err.rs\<close>, \<open>utils/macros.rs\<close>, \<open>p\<close> and \<open>pdie\<close> of \<open>utils/mod.rs\<close>),
    \<open>Rk_Utils\<close> (the rest of \<open>utils/mod.rs\<close>), \<open>Rk_Loop\<close> (\<open>core/src/loop\<close>).
  \<^item> \<open>Rk_Cfg\<close>, \<open>Rk_Guard\<close>, \<open>Rk_Master\<close> (\<open>core/src/master.rs\<close>): the configuration and its checks; the
    guard process; the master's side of the start, the id maps, the namespaces and the release.
    A method with \<open>&mut self\<close> returns the new record; the guard works on a copy, as after \<open>clone\<close>.
  \<^item> \<open>Rk_Handshake\<close>: master and guard together over the socket pair, as a channel of whole datagrams
    with any delay.
  \<^item> \<open>Rk_Request\<close> (\<open>req_parse\<close> of \<open>rocker_server/src/main.rs\<close>), \<open>Rk_Client\<close> (\<open>client_ffi\<close> of the
    wrapper and \<open>lib.c\<close>, \<open>namespace.c\<close>), \<open>Rk_Guardname\<close> (\<open>get_guardname\<close>, \<open>utils.c\<close>).
  \<^item> \<open>Rk_Server\<close>: the rest of \<open>main.rs\<close>. The mutex with the table is a \<open>resource_hdr\<close>, its
    map and whether it is poisoned; each operation under the lock is one function of it.
  \<^item> \<open>Rk_Lifecycle\<close>: the workers and the releasing thread of the server as a step relation over the
    shared table, with one atomic step per operation under the lock. \<open>Rk_Pool\<close>: the same threads in detail, as the pool of
    \<open>uau_serve\<close> runs them: four threads, waiting jobs, the mutex taken and given back in steps of their own, a
    panic that poisons it. \<open>Rk_Refine\<close>: the pool refines the atomic system.
  \<^item> \<open>Rk_Rocker\<close>: the atomic system of the server with the pid namespaces of its guards: the waiting loop of \<open>guard_ops\<close>
    (\<open>master.rs\<close>), by the code's own look at \<open>/proc\<close>, and programs that enter a namespace and leave it. \<open>Rk_Fair\<close>: its
    endless runs. \<open>Rk_Simulation\<close>: the contract between a detailed system and an abstract one, which
    both the pool and the rockers fulfil towards the lifecycle.
  \<^item> \<open>Rk_Service\<close>: facts on one request through client and server; the claims are here, in the root.
  \<^item> \<open>Rk_Cio\<close> (\<open>io.c\<close>, \<open>run_in_brother\<close> of \<open>namespace.c\<close>, both processes of \<open>ROCKER_enter_rocker\<close> in
    \<open>lib.c\<close>): the client's C layer over the kernel, under the environment \<open>client_env\<close> of \<open>Rk_Client\<close>.
    \<open>Rk_Patience\<close>: the time both sides spend in calls that wait. \<open>Rk_Cfile\<close>: the operations of the library without a
    caller: files and connections of \<open>io.c\<close>, processes of \<open>namespace.c\<close>, \<open>utils.c\<close>, log files and error chains of \<open>log.c\<close>.
  \<^item> \<open>Rk_Chain\<close> (\<open>d!\<close>, \<open>errgen!\<close>, \<open>exit!\<close> of \<open>utils/macros.rs\<close>, \<open>errgen_sys!\<close> and \<open>d_sys!\<close>): error chains with
    their text. \<open>Rk_Tests\<close>: the test modules of every file as programs, a failing assertion being a panic.

  \<^bold>\<open>What the lemmas show.\<close> Interfaces are locales with interpretations on the model: \<open>observation\<close>
  (a view of the trace that composes along programs, used to count messages, effects and replies),
  \<open>dgram_channel\<close> (what a receive on the socket pair gives), \<open>request_codec\<close> (a datagram is decoded
  to its meaning or refused), \<open>registry\<close> (the laws of the table) and \<open>simulation\<close> (one system implements another). On them rest the claims: the
  wire format (\<open>Rk_Request\<close>, \<open>Rk_Client\<close>), the plan of the guard and its reports (\<open>Rk_Guard\<close>,
  \<open>Rk_Handshake\<close>), the worker and the release (\<open>Rk_Server\<close>), the invariants of the threads and
  what breaks without them (\<open>Rk_Lifecycle\<close>), exclusion, types and accounts of the pool (\<open>Rk_Pool\<close>), the simulation that
  carries the invariants of the atomic system over to it, with the race in which it fails (\<open>Rk_Refine\<close>), that nothing is
  released under a running program, whom the end of a guard can hit, and that an abandoned rocker is released in the end
  (\<open>Rk_Rocker\<close>, \<open>Rk_Fair\<close>), the refinement
  of the client's environment by the calls of its two processes (\<open>Rk_Cio\<close>), how long server and client wait for
  each other (\<open>Rk_Patience\<close>), that naming errors by the root of their
  chain loses nothing a program looks at (\<open>Rk_Chain\<close>), which tests pass on which kernels and which never do
  (\<open>Rk_Tests\<close>), and the service end to end (this theory).

  \<^bold>\<open>Bounds.\<close> \<open>p_at\<close> bounds the depth of the recursion between logging and its semaphore by the stack
  of the machine; a claim shows that one frame suffices on a healthy kernel and none on a failing one.
  \<open>guard_wait\<close>, \<open>resource_worker\<close> and \<open>uau_serve\<close> are endless loops run for a number of turns:
  \<open>Diverge\<close> means still running, and the claims hold for every number. So do the two loops of \<open>Rk_Cfile\<close>: they end
  after as many turns as there are bytes when every call moves some, and never when a call moves none. \<open>Rk_Fuel\<close> orders programs by
  what they come to, with \<open>Diverge\<close> at the bottom, and shows that every loop grows with its bound: a bound decides
  how far a run is followed, never how it ends.

  \<^bold>\<open>Not modelled.\<close> The text of log lines; the library behind the thread pool, of which the documented behaviour is
  used (four threads, each job run once, a panicking job loses no thread); the lines that
  \<open>log.c\<close> prints; the trampoline of the
  callback, which forwards a call; the build script, which prints a linker flag, and the bench, whose \<open>main\<close> is empty. Memory that the wrapper leaks with
  \<open>into_raw\<close> has no counterpart. Blocking calls return an answer of the kernel; that a call never returns is said of the order of
  calls only.
  Of pid namespaces and of the order in which stopped processes are waited for, what the kernel documents is used, as premises
  of the steps or hypotheses of the claims. The clients of several servers at one address do not interact in the code.
\<close>

section \<open>A request from end to end\<close>

text \<open>
  C5: Who is told to have a rocker has one. Whatever happens in between, if the client of a valid
  request returns a result, having received as its only answer the reply attempted by the worker
  that got its datagram, then the guard of that result is in the server's table, under a pid that
  was free, with the configuration the client asked for; and the name in the result is the one the
  parser drew from the counter.
\<close>

theorem entered_rocker_is_registered:
  assumes "32 \<le> bits" and "usize_bits M = 64" and "request_ok r"
    and "length (client_datagram (big_endian M) bits r) < 2 ^ 64"
    and "worker M (take SERVER_BUF (client_datagram (big_endian M) bits r)) s a hdr w = (q, hdr', w')"
    and "replies (trace w') = replies (trace w) @ [(s, parts, fds, a)]"
    and "ce_recv_fd env = Some (concat parts, cfds)" and "length cfds = length fds"
    and "enter_rocker (big_endian M) bits env r = Inr res"
  shows "\<exists>cfg. describes r cfg \<and> guard_pid cfg = Some (res_guard_pid res) \<and> 0 \<le> sint (res_guard_pid res)
    \<and> resources hdr (res_guard_pid res) = None
    \<and> hdr' = hdr\<lparr>resources := (resources hdr)(res_guard_pid res \<mapsto> cfg)\<rparr>
    \<and> res_guard_pname res = shown_name (big_endian M) (word_of_nat (procname_ctr w))"
proof -
  obtain rq where rq: "metal_request_of r = Inr rq"
    using assms(9) by (cases "metal_request_of r") (auto simp: enter_rocker_def)
  have "(s, parts, fds, a) \<noteq> refusal M s a"
    using refusal_read(1) [OF _ assms(8) rq assms(7)] assms(9) by blast
  from worker_reply_registered [OF assms(5,6) this] obtain cfg0 w1 cfg gpid fds' where
    parse: "run (req_parse M (take SERVER_BUF (client_datagram (big_endian M) bits r))) w = (Ok cfg0, w1)"
    and cfg: "describes r cfg0 \<longrightarrow> describes r cfg" "guard_pid cfg = Some gpid" "guard_pname cfg = guard_pname cfg0"
    and x: "(s, parts, fds, a) = reply M s a gpid (guard_pname cfg) fds'"
    and tab: "resources hdr gpid = None" "hdr' = hdr\<lparr>resources := (resources hdr)(gpid \<mapsto> cfg)\<rparr>"
    by metis
  note parsed = parsed_describes [OF assms(1-4) parse]
  have "ce_recv_fd env = Some (i32_to_ne_bytes (big_endian M) gpid
      @ u128_to_ne_bytes (big_endian M) (guard_pname cfg), cfds)"
    using assms(7) x by (simp add: reply_def)
  from client_reads_reply(1) [OF rq this assms(9)] cfg tab parsed show ?thesis by auto
qed

text \<open>
  C14: A served request is granted. When the worker of a valid request returns, it has attempted one
  reply; a client that receives it, enters the namespaces and starts its program returns the pid of the
  guard in the table and the name, unless the kernel's pid is negative as an \<open>i32\<close>.
\<close>

theorem served_request_is_granted:
  assumes "32 \<le> bits" and "usize_bits M = 64" and "request_ok r"
    and "length (client_datagram (big_endian M) bits r) < 2 ^ 64"
    and "worker M (take SERVER_BUF (client_datagram (big_endian M) bits r)) s a hdr w = (Ok u, hdr', w')"
  shows "\<exists>parts fds gpid cfg. replies (trace w') = replies (trace w) @ [(s, parts, fds, a)] \<and> length fds = 3
    \<and> describes r cfg \<and> hdr' = hdr\<lparr>resources := (resources hdr)(gpid \<mapsto> cfg)\<rparr>
    \<and> (\<forall>env cfds. ce_recv_fd env = Some (concat parts, cfds) \<and> length cfds = 3
          \<and> reaches_server (big_endian M) bits env r \<and> (\<forall>f. ce_setns env f) \<and> 0 \<le> sint (ce_clone env) \<longrightarrow>
        enter_rocker (big_endian M) bits env r =
          (if sint gpid < 0 then Inl RockerBuildRocker
           else Inr \<lparr>app_pid = ce_clone env, res_guard_pid = gpid,
                     res_guard_pname = shown_name (big_endian M) (guard_pname cfg)\<rparr>))"
proof -
  obtain cfg0 w1 cfg gpid fds where
    parse: "run (req_parse M (take SERVER_BUF (client_datagram (big_endian M) bits r))) w = (Ok cfg0, w1)"
    and cfg: "describes r cfg0 \<longrightarrow> describes r cfg" and len: "length fds = 3"
    and rep: "replies (trace w') = replies (trace w) @ [reply M s a gpid (guard_pname cfg) fds]"
    and tab: "hdr' = hdr\<lparr>resources := (resources hdr)(gpid \<mapsto> cfg)\<rparr>"
    using worker_Ok_replies [OF assms(5)] by metis
  have d: "describes r cfg" using parsed_describes(1) [OF assms(1-4) parse] cfg by blast
  define parts where "parts = [i32_to_ne_bytes (big_endian M) gpid, u128_to_ne_bytes (big_endian M) (guard_pname cfg)]"
  have "enter_rocker (big_endian M) bits env r = (if sint gpid < 0 then Inl RockerBuildRocker
      else Inr \<lparr>app_pid = ce_clone env, res_guard_pid = gpid,
                res_guard_pname = shown_name (big_endian M) (guard_pname cfg)\<rparr>)"
    if "ce_recv_fd env = Some (concat parts, cfds)" "length cfds = 3"
      and "reaches_server (big_endian M) bits env r" "\<forall>f. ce_setns env f" "0 \<le> sint (ce_clone env)" for env cfds
  proof -
    from that(3) obtain rq where rq: "metal_request_of r = Inr rq" by (auto simp: reaches_server_def)
    from client_reads_reply(2) [OF rq, of env "big_endian M" gpid "guard_pname cfg" cfds bits] that
    show ?thesis by (auto simp: parts_def)
  qed
  moreover have "replies (trace w') = replies (trace w) @ [(s, parts, fds, a)]"
    using rep by (simp add: reply_def parts_def)
  ultimately show ?thesis
    using d tab len by (intro exI [of _ parts] exI [of _ fds] exI [of _ gpid] exI [of _ cfg]) blast
qed

text \<open>
  C19: A request that does not fit is refused, and the client learns it. A valid request whose datagram
  is longer than the server's buffer of 512 bytes leaves the table as it was, and its one
  answer makes the client return \<open>RockerBuildRocker\<close>.
\<close>

theorem oversized_request_refused:
  assumes "32 \<le> bits" and "usize_bits M = 64" and "request_ok r"
    and "length (client_datagram (big_endian M) bits r) < 2 ^ 64"
    and "512 < length (client_datagram (big_endian M) bits r)"
    and "worker M (take SERVER_BUF (client_datagram (big_endian M) bits r)) s a hdr w = (q, hdr', w')"
  shows "hdr' = hdr \<and> q \<noteq> Ok ()
    \<and> (\<exists>parts. replies (trace w') = replies (trace w) @ [(s, parts, [], a)]
        \<and> (\<forall>env. ce_recv_fd env = Some (concat parts, []) \<and> reaches_server (big_endian M) bits env r
             \<longrightarrow> enter_rocker (big_endian M) bits env r = Inl RockerBuildRocker))"
proof -
  have "run (req_parse M (take SERVER_BUF (client_datagram (big_endian M) bits r))) w = (Err SrvUnknown, w)"
    using wire.decode_buffer [of bits M r SERVER_BUF] assms(1-5) by (simp add: SERVER_BUF_def)
  from worker_unparsed [OF this assms(6)]
  have served: "hdr' = hdr" "q \<noteq> Ok ()" "replies (trace w') = replies (trace w) @ [refusal M s a]" by auto
  obtain parts where ref: "(s, parts, [], a) = refusal M s a" by (simp add: refusal_def reply_def)
  have "enter_rocker (big_endian M) bits env r = Inl RockerBuildRocker"
    if "ce_recv_fd env = Some (concat parts, [])" "reaches_server (big_endian M) bits env r" for env
  proof -
    from that(2) obtain rq where rq: "metal_request_of r = Inr rq" by (auto simp: reaches_server_def)
    from refusal_read(2) [OF ref _ rq that(1,2)] show ?thesis by simp
  qed
  with served ref show ?thesis by metis
qed


text \<open>
  C39: A pid that is taken. If the table already has an entry under the pid of the guard a worker has
  just started, the client is refused, and the worker's only other effect is that the new
  configuration replaces the old one: the guard is not killed, its namespace descriptors are not
  closed, and the entry that was there is in no table any more.
\<close>

theorem taken_pid_refused:
  assumes "run (worker_prepare M req s a) w = (Ok (cfg, gpid, gpname, fds), w1)"
    and "\<not> poisoned hdr" and "resources hdr gpid = Some old"
    and "worker M req s a hdr w = (q, hdr', w')"
  shows "q \<noteq> Ok () \<and> hdr' = hdr\<lparr>resources := (resources hdr)(gpid \<mapsto> cfg)\<rparr>
    \<and> plain (trace w') = plain (trace w1)
        @ [Sendmsg s [i32_to_ne_bytes (big_endian M) (- 1), u128_to_ne_bytes (big_endian M) 0] [] a]"
  using assms by (rule refused_registration)

section \<open>The claims at a concrete request\<close>

definition sample_datagram :: bytes where
  "sample_datagram = client_datagram False 64 sample_request"

definition sample_env :: "bytes \<Rightarrow> fd list \<Rightarrow> client_env" where
  "sample_env d fds = \<lparr>ce_pipe = True, ce_fork = True, ce_pipe_full = True, ce_genaddr = True,
     ce_autobound = True, ce_sendmsg = \<lambda>_. True, ce_recv_fd = Some (d, fds), ce_setns = \<lambda>_. True, ce_clone = 77\<rparr>"

lemma sample_datagram_req: "sample_datagram = sample_req"
  using datagram_wire [of 64 sample_request False] sample_request_ok
  by (simp add: sample_datagram_def sample_req_def sample_request_def overlay_slots_def slot_def)

lemma take_sample: "take SERVER_BUF (client_datagram False 64 sample_request) = sample_req"
  using sample_datagram_req length_sample_datagram [of False] by (simp add: sample_datagram_def SERVER_BUF_def)

lemma sample_reaches: "reaches_server False 64 (sample_env d fds) sample_request"
proof -
  obtain rq where "metal_request_of sample_request = Inr rq"
    by (simp add: metal_request_of_def sample_request_def cstring_new_def)
  then show ?thesis by (simp add: reaches_server_def sample_env_def)
qed

theorem served_request_is_granted_witness:
  "\<exists>hdr' w' parts fds gpid. worker live sample_req 9 [1] empty_hdr start = (Ok (), hdr', w')
     \<and> replies (trace w') = [(9, parts, fds, [1])] \<and> resources hdr' gpid \<noteq> None
     \<and> (sint gpid < 0 \<or> (\<exists>name. enter_rocker False 64 (sample_env (concat parts) [5, 6, 7]) sample_request
          = Inr \<lparr>app_pid = 77, res_guard_pid = gpid, res_guard_pname = name\<rparr>))"
proof -
  obtain hdr' w' where w: "worker live sample_req 9 [1] empty_hdr start = (Ok (), hdr', w')"
    using live_worker by blast
  have "replies (trace start) = []" by (simp add: replies_def List.map_filter_def)
  with served_request_is_granted [of 64 live sample_request 9 "[1]" empty_hdr start "()" hdr' w'] w
  obtain parts fds gpid cfg where rep: "replies (trace w') = [(9, parts, fds, [1])]"
    and tab: "hdr' = empty_hdr\<lparr>resources := (resources empty_hdr)(gpid \<mapsto> cfg)\<rparr>"
    and ent: "\<And>env cfds. ce_recv_fd env = Some (concat parts, cfds) \<Longrightarrow> length cfds = 3 \<Longrightarrow>
        reaches_server False 64 env sample_request \<Longrightarrow> \<forall>f. ce_setns env f \<Longrightarrow> 0 \<le> sint (ce_clone env) \<Longrightarrow>
        enter_rocker False 64 env sample_request = (if sint gpid < 0 then Inl RockerBuildRocker
          else Inr \<lparr>app_pid = ce_clone env, res_guard_pid = gpid, res_guard_pname = shown_name False (guard_pname cfg)\<rparr>)"
    using sample_request_ok length_sample_datagram [of False] by (auto simp: take_sample)
  from ent [of "sample_env (concat parts) [5, 6, 7]" "[5, 6, 7]", OF _ _ sample_reaches] w rep tab
  show ?thesis by (auto simp: sample_env_def)
qed


lemma sample_reply:
  obtains hdr' w' parts fds name where "worker live sample_req 9 [1] empty_hdr start = (Ok (), hdr', w')"
    "replies (trace w') = replies (trace start) @ [(9, parts, fds, [1])]" "length fds = 3"
    "enter_rocker False 64 (sample_env (concat parts) [5, 6, 7]) sample_request
       = Inr \<lparr>app_pid = 77, res_guard_pid = 4242, res_guard_pname = name\<rparr>"
proof -
  obtain hdr' w' where w: "worker live sample_req 9 [1] empty_hdr start = (Ok (), hdr', w')"
    and dom: "dom (resources hdr') = {4242}"
    using live_worker by blast
  from worker_Ok_replies [OF w] obtain cfg gpid fds where "length fds = 3"
    and rep: "replies (trace w') = replies (trace start) @ [reply live 9 [1] gpid (guard_pname cfg) fds]"
    and tab: "hdr' = empty_hdr\<lparr>resources := (resources empty_hdr)(gpid \<mapsto> cfg)\<rparr>" by metis
  from dom tab have g: "gpid = 4242" by (simp add: empty_hdr_def)
  define parts where "parts = [i32_to_ne_bytes False gpid, u128_to_ne_bytes False (guard_pname cfg)]"
  obtain rq where rq: "metal_request_of sample_request = Inr rq"
    using sample_reaches by (auto simp: reaches_server_def)
  have rd: "ce_recv_fd (sample_env (concat parts) [5, 6, 7])
      = Some (i32_to_ne_bytes False gpid @ u128_to_ne_bytes False (guard_pname cfg), [5, 6, 7])"
    by (simp add: sample_env_def parts_def)
  have "enter_rocker False 64 (sample_env (concat parts) [5, 6, 7]) sample_request
      = Inr \<lparr>app_pid = 77, res_guard_pid = 4242, res_guard_pname = shown_name False (guard_pname cfg)\<rparr>"
    using client_reads_reply(2) [OF rq rd sample_reaches] g by (simp add: sample_env_def)
  with w rep \<open>length fds = 3\<close> show ?thesis using that by (simp add: reply_def parts_def)
qed

theorem entered_rocker_is_registered_witness:
  "\<exists>hdr' w' cfg. worker live sample_req 9 [1] empty_hdr start = (Ok (), hdr', w')
     \<and> resources hdr' 4242 = Some cfg \<and> describes sample_request cfg \<and> guard_pid cfg = Some 4242"
proof -
  obtain hdr' w' parts fds name where s: "worker live sample_req 9 [1] empty_hdr start = (Ok (), hdr', w')"
    "replies (trace w') = replies (trace start) @ [(9, parts, fds, [1])]" "length fds = 3"
    "enter_rocker False 64 (sample_env (concat parts) [5, 6, 7]) sample_request
       = Inr \<lparr>app_pid = 77, res_guard_pid = 4242, res_guard_pname = name\<rparr>" by (rule sample_reply)
  have w: "worker live (take SERVER_BUF (client_datagram (big_endian live) 64 sample_request)) 9 [1] empty_hdr start
      = (Ok (), hdr', w')"
    using s(1) by (simp add: take_sample)
  have "\<exists>cfg. describes sample_request cfg \<and> guard_pid cfg = Some 4242
      \<and> hdr' = empty_hdr\<lparr>resources := (resources empty_hdr)(4242 \<mapsto> cfg)\<rparr>"
    using entered_rocker_is_registered [OF _ _ sample_request_ok _ w s(2), of "sample_env (concat parts) [5, 6, 7]"
        "[5, 6, 7]" "\<lparr>app_pid = 77, res_guard_pid = 4242, res_guard_pname = name\<rparr>"] s(3,4) length_sample_datagram [of False]
    by (auto simp: sample_env_def)
  with s(1) show ?thesis by auto
qed

definition long_request :: rocker_request where
  "long_request = sample_request\<lparr>w_overlay_dirs := [replicate 600 (CHR ''a'')]\<rparr>"

lemma long_request_ok: "request_ok long_request"
proof -
  have "utf8_valid (bytes_of (replicate n (CHR ''a'')))" for n
    by (induction n) (simp_all add: bytes_of_def)
  then have "path_ok (replicate 600 (CHR ''a''))" by (simp add: path_ok_def)
  with sample_request_ok show ?thesis by (simp add: request_ok_def long_request_def)
qed

lemma length_long_datagram: "length (client_datagram False 64 long_request) = 698"
proof -
  have "present (overlay_slots [replicate 600 (CHR ''a'')]) = [replicate 600 (CHR ''a'')]"
    by (simp add: present_overlay_slots)
  then show ?thesis
    using datagram_wire [of 64 long_request False] long_request_ok
      length_req_wire [of "[7, 1000, 1000]" "[Some ''/p'', Some ''/x'', Some ''/d''] @ overlay_slots [replicate 600 (CHR ''a'')]" False]
    by (simp add: long_request_def sample_request_def)
qed

theorem oversized_request_refused_witness:
  "\<exists>q hdr' w'. worker sample (take SERVER_BUF (client_datagram False 64 long_request)) 9 [1] empty_hdr start = (q, hdr', w')
     \<and> hdr' = empty_hdr \<and> q \<noteq> Ok ()"
proof -
  obtain q hdr' w' where w: "worker sample (take SERVER_BUF (client_datagram (big_endian sample) 64 long_request)) 9 [1]
      empty_hdr start = (q, hdr', w')"
    by (cases "worker sample (take SERVER_BUF (client_datagram (big_endian sample) 64 long_request)) 9 [1] empty_hdr start")
  from oversized_request_refused [OF _ _ long_request_ok _ _ w] w length_long_datagram
  show ?thesis by simp
qed

theorem taken_pid_refused_witness:
  "\<exists>q hdr' w'. worker live sample_req 9 [1] (empty_hdr\<lparr>resources := [4242 \<mapsto> sample_cfg]\<rparr>) start = (q, hdr', w')
     \<and> q \<noteq> Ok () \<and> dom (resources hdr') = {4242}"
proof -
  let ?hdr = "empty_hdr\<lparr>resources := [4242 \<mapsto> sample_cfg]\<rparr>"
  obtain q hdr' w' where w: "worker live sample_req 9 [1] ?hdr start = (q, hdr', w')"
    by (cases "worker live sample_req 9 [1] ?hdr start")
  obtain cfg fds w1 where "run (worker_prepare live sample_req 9 [1]) start
      = (Ok (cfg, 4242, guard_pname cfg, fds), w1)"
    using live_prepare by blast
  from taken_pid_refused [OF this _ _ w] w show ?thesis by (auto simp: empty_hdr_def)
qed

end
